(* ===== verification/Prelude.thy ===== *)
theory Prelude
  imports Main
begin

text \<open>
  Shared material: the collections of simplification and introduction rules that the components
  fill, and the error type of routines that may raise an error.
\<close>

named_theorems float_eval "evaluation of closed double terms"
named_theorems nonneg_intros "operations whose result never compares below zero"

subsection \<open>Errors\<close>

text \<open>
  \<^verbatim>\<open>elog(ERROR, ...)\<close> leaves the planner by a non-local exit: a routine that can raise it
  returns \<open>Inl\<close> of the message, and \<open>ebind\<close> runs the rest of the caller only on a result.
\<close>

type_synonym 'a ereport = "string + 'a"

definition ebind :: "'a ereport \<Rightarrow> ('a \<Rightarrow> 'b ereport) \<Rightarrow> 'b ereport" where
  "ebind r f = (case r of Inl e \<Rightarrow> Inl e | Inr x \<Rightarrow> f x)"

lemma ebind_simps [simp]: "ebind (Inl e) f = Inl e" "ebind (Inr x) f = f x"
  by (simp_all add: ebind_def)

lemma ebind_Inr_iff: "ebind r f = Inr y \<longleftrightarrow> (\<exists>x. r = Inr x \<and> f x = Inr y)"
  by (cases r) simp_all

lemma ebind_cong [fundef_cong]:
  "r = r' \<Longrightarrow> (\<And>x. r' = Inr x \<Longrightarrow> f x = f' x) \<Longrightarrow> ebind r f = ebind r' f'"
  by (cases r') simp_all

end
