(* ===== verification/Float64.thy ===== *)
theory Float64
  imports Complex_Main Prelude
begin

text \<open>
  C \<^verbatim>\<open>double\<close> arithmetic. The planner computes every row count, cost and power estimate in
  IEEE 754 binary64, so the model does too: a finite double is a real number with a 53-bit
  significand and an exponent of at least -1074 (type \<open>f64\<close>), the other values are the two
  infinities and NaN, and each operation is the exact real operation followed by
  rounding to nearest, ties to even (\<open>fl\<close>). Comparisons involving NaN are false, as in C.

  Two simplifications: the two zeros are one value, and all NaNs are one value. The code that is
  modelled on top never divides by a negative zero and never looks at the payload of a NaN.
  \<^verbatim>\<open>log\<close>, \<^verbatim>\<open>sqrt\<close> and \<^verbatim>\<open>pow\<close> of the C library are taken to be correctly rounded.

  The lemmas give what the cost model needs: rounding is monotone, exact on representable
  values, and symmetric; \<open>nonneg\<close> (never compares below zero) is closed under the
  operations; the order is linear away from NaN; and \<open>float_eval\<close> evaluates closed terms.
\<close>

subsection \<open>Rounding to nearest, ties to even\<close>

definition rne :: "real \<Rightarrow> int" where
  "rne y = (let n = \<lfloor>y\<rfloor>; d = y - of_int n
            in if d < 1/2 then n else if d > 1/2 then n + 1
               else if even n then n else n + 1)"

lemma rne_of_int [simp]: "rne (of_int n) = n"
  by (simp add: rne_def)

lemma rne_bounds: "\<lfloor>y\<rfloor> \<le> rne y" "rne y \<le> \<lfloor>y\<rfloor> + 1"
  by (auto simp: rne_def Let_def)

lemma rne_error: "\<bar>of_int (rne y) - y\<bar> \<le> 1/2"
proof -
  have r: "rne y = (if y - of_int \<lfloor>y\<rfloor> < 1/2 then \<lfloor>y\<rfloor> else if y - of_int \<lfloor>y\<rfloor> > 1/2 then \<lfloor>y\<rfloor> + 1
     else if even \<lfloor>y\<rfloor> then \<lfloor>y\<rfloor> else \<lfloor>y\<rfloor> + 1)" by (simp only: rne_def Let_def)
  obtain n where n: "n = \<lfloor>y\<rfloor>" by simp
  then have "of_int n \<le> y" "y < of_int n + 1" by (simp_all add: floor_correct)
  then show ?thesis unfolding r n [symmetric] abs_le_iff by auto
qed

lemma rne_mono: "x \<le> y \<Longrightarrow> rne x \<le> rne y"
proof -
  assume le: "x \<le> y"
  show ?thesis
  proof (cases "\<lfloor>x\<rfloor> = \<lfloor>y\<rfloor>")
    case True
    obtain n where n: "n = \<lfloor>y\<rfloor>" by simp
    with le show ?thesis unfolding rne_def Let_def True n [symmetric] by auto
  next
    case False
    then have "\<lfloor>x\<rfloor> + 1 \<le> \<lfloor>y\<rfloor>" using floor_mono [OF le] by simp
    then show ?thesis using rne_bounds(2) [of x] rne_bounds(1) [of y] by simp
  qed
qed

lemma rne_minus: "rne (- y) = - rne y"
proof (cases "y = of_int \<lfloor>y\<rfloor>")
  case True
  then obtain n where "y = of_int n" ..
  then show ?thesis using rne_of_int [of "- n"] by simp
next
  case False
  then have f: "\<lfloor>- y\<rfloor> = - \<lfloor>y\<rfloor> - 1" by (simp add: floor_minus ceiling_altdef)
  then have d: "- y - of_int \<lfloor>- y\<rfloor> = 1 - (y - of_int \<lfloor>y\<rfloor>)" by simp
  show ?thesis unfolding rne_def Let_def d f by auto
qed

definition ulp_exp :: "real \<Rightarrow> int" where
  "ulp_exp x = max (\<lfloor>log 2 \<bar>x\<bar>\<rfloor> - 52) (-1074)"

definition rnd :: "real \<Rightarrow> real" where
  "rnd x = of_int (rne (x / 2 powr of_int (ulp_exp x))) * 2 powr of_int (ulp_exp x)"

lemma rnd_zero [simp]: "rnd 0 = 0"
  using rne_of_int [of 0] by (simp add: rnd_def)

lemma rnd_minus: "rnd (- x) = - rnd x"
  by (simp add: rnd_def ulp_exp_def rne_minus)

lemma ulp_exp_lower: "- 1074 \<le> ulp_exp x"
  by (simp add: ulp_exp_def)

lemma abs_less_ulp_exp: "\<bar>x\<bar> < 2 powr (of_int (ulp_exp x) + 53)"
proof (cases "x = 0")
  case False
  have "log 2 \<bar>x\<bar> < of_int \<lfloor>log 2 \<bar>x\<bar>\<rfloor> + 1" by linarith
  also have "\<dots> \<le> of_int (ulp_exp x) + 53" by (simp add: ulp_exp_def)
  finally show ?thesis using False by (simp add: log_less_iff)
qed simp

lemma ulp_exp_le_abs: "- 1074 < ulp_exp x \<Longrightarrow> x \<noteq> 0 \<Longrightarrow> 2 powr (of_int (ulp_exp x) + 52) \<le> \<bar>x\<bar>"
proof -
  assume a: "- 1074 < ulp_exp x" and "x \<noteq> 0"
  then have "of_int (ulp_exp x) + 52 \<le> log 2 \<bar>x\<bar>" by (simp add: ulp_exp_def max_def split: if_splits)
  with \<open>x \<noteq> 0\<close> show ?thesis by (simp add: le_log_iff)
qed

lemma powr_int_diff: "j \<le> i \<Longrightarrow> 2 powr of_int i = of_int (2 ^ nat (i - j)) * (2 powr of_int j :: real)"
proof -
  assume "j \<le> i"
  then obtain d where "nat (i - j) = d" "i = j + int d" by (metis add.commute diff_add_cancel int_nat_eq diff_ge_0_iff_ge)
  then show ?thesis by (simp add: powr_add powr_realpow)
qed

lemma rnd_le_grid: 
  assumes "x \<le> of_int m * 2 powr of_int k" "ulp_exp x \<le> k"
  shows "rnd x \<le> of_int m * 2 powr of_int k"
proof -
  let ?e = "ulp_exp x"
  have eq: "(of_int m :: real) * 2 powr of_int k = of_int (m * 2 ^ nat (k - ?e)) * 2 powr of_int ?e"
    using powr_int_diff [OF assms(2)] by simp
  then have "x / 2 powr of_int ?e \<le> of_int (m * 2 ^ nat (k - ?e))"
    using assms(1) unfolding eq by (simp add: divide_le_eq del: of_int_mult of_int_power)
  then have "rne (x / 2 powr of_int ?e) \<le> m * 2 ^ nat (k - ?e)"
    by (metis rne_mono rne_of_int)
  then have "real_of_int (rne (x / 2 powr of_int ?e)) \<le> of_int (m * 2 ^ nat (k - ?e))"
    by (simp only: of_int_le_iff)
  then show ?thesis unfolding eq rnd_def by (rule mult_right_mono) simp
qed

lemma rnd_ge_grid: 
  assumes "of_int m * 2 powr of_int k \<le> x" "ulp_exp x \<le> k"
  shows "of_int m * 2 powr of_int k \<le> rnd x"
  using rnd_le_grid [of "- x" "- m" k] assms by (simp add: rnd_minus ulp_exp_def)

text \<open>The overflow threshold: finite doubles are below it in absolute value.\<close>

definition ovf :: real where
  "ovf = 2 ^ 1024"

lemma ovf_pos: "0 < ovf"
  by (simp add: ovf_def del: power_numeral)

lemma ovf_large: "2 ^ 53 < ovf"
  unfolding ovf_def by (rule power_strict_increasing) simp_all

definition f64_set :: "real set" where
  "f64_set = {x. \<bar>x\<bar> < ovf \<and> (\<exists>m k :: int. \<bar>m\<bar> \<le> 2 ^ 53 \<and> - 1074 \<le> k \<and> x = of_int m * 2 powr of_int k)}"

lemma rnd_on_grid: "\<exists>m. \<bar>m\<bar> \<le> 2 ^ 53 \<and> rnd x = of_int m * 2 powr of_int (ulp_exp x)"
proof -
  let ?y = "x / 2 powr of_int (ulp_exp x)"
  have "\<bar>x\<bar> \<le> 2 ^ 53 * 2 powr of_int (ulp_exp x)"
    using abs_less_ulp_exp [of x] powr_realpow [of "2::real" 53] by (simp add: powr_add mult.commute)
  then have "?y \<le> of_int (2 ^ 53)" "of_int (- (2 ^ 53)) \<le> ?y"
    by (auto simp: divide_le_eq le_divide_eq abs_le_iff)
  then have "rne ?y \<le> 2 ^ 53" "- (2 ^ 53) \<le> rne ?y"
    by (metis rne_mono rne_of_int)+
  then have "\<bar>rne ?y\<bar> \<le> 2 ^ 53" by simp
  then show ?thesis unfolding rnd_def by blast
qed

lemma rnd_in_f64: "\<bar>rnd x\<bar> < ovf \<Longrightarrow> rnd x \<in> f64_set"
  using rnd_on_grid [of x] ulp_exp_lower [of x] unfolding f64_set_def by blast

lemma rnd_grid_exact:
  assumes "x = of_int n * 2 powr of_int (ulp_exp x)"
  shows "rnd x = x"
proof -
  have "x / 2 powr of_int (ulp_exp x) = of_int n"
    using assms by (metis divide_eq_eq less_irrefl powr_gt_zero zero_less_numeral)
  then show ?thesis using assms unfolding rnd_def by simp
qed

lemma rnd_exact:
  assumes "x = of_int m * 2 powr of_int k" "\<bar>m\<bar> \<le> 2 ^ 53" "- 1074 \<le> k"
  shows "rnd x = x"
proof (cases "ulp_exp x \<le> k")
  case True
  have "of_int m * (2::real) powr of_int k = of_int (m * 2 ^ nat (k - ulp_exp x)) * 2 powr of_int (ulp_exp x)"
    unfolding powr_int_diff [OF True] by simp
  with assms(1) have "x = of_int (m * 2 ^ nat (k - ulp_exp x)) * 2 powr of_int (ulp_exp x)"
    by (simp only:)
  then show ?thesis by (rule rnd_grid_exact)
next
  case False
  show ?thesis
  proof (cases "x = 0")
    case nz: False
    let ?e = "ulp_exp x"
    obtain d where d: "?e = k + 1 + int d"
      using False that [of "nat (?e - k - 1)"] by simp
    from False assms(3) have "2 powr (of_int ?e + 52) \<le> \<bar>x\<bar>"
      using ulp_exp_le_abs [OF _ nz] by simp
    also have "\<dots> = of_int \<bar>m\<bar> * 2 powr of_int k" using assms(1) by (simp add: abs_mult)
    finally have "2 powr (of_int ?e + 52) \<le> of_int \<bar>m\<bar> * (2 powr of_int k :: real)" .
    moreover have "2 powr (of_int ?e + 52) = 2 ^ (d + 53) * (2 powr of_int k :: real)"
    proof -
      have "(of_int ?e + 52 :: real) = real (d + 53) + of_int k" unfolding d by simp
      then show ?thesis by (simp only: powr_add powr_realpow)
    qed
    ultimately have "2 ^ (d + 53) * 2 powr of_int k \<le> of_int \<bar>m\<bar> * (2 powr of_int k :: real)" by simp
    then have "(2::real) ^ (d + 53) \<le> of_int \<bar>m\<bar>" by simp
    then have le: "(2::int) ^ (d + 53) \<le> \<bar>m\<bar>"
      by (metis of_int_le_iff of_int_numeral of_int_power)
    with assms(2) have "(2::int) ^ (d + 53) \<le> 2 ^ 53" by linarith
    then have "d + 53 \<le> 53" by (rule power_le_imp_le_exp [rotated]) simp
    then have "d = 0" by simp
    with le assms(2) have "m = 2 ^ 53 \<or> m = - (2 ^ 53)" by (simp add: abs_if split: if_splits)
    then have "of_int m * (2::real) powr of_int k = of_int (sgn m * 2 ^ 52) * 2 powr of_int ?e"
      unfolding d \<open>d = 0\<close> by (auto simp: powr_add)
    with assms(1) have "x = of_int (sgn m * 2 ^ 52) * 2 powr of_int ?e" by (simp only:)
    then show ?thesis by (rule rnd_grid_exact)
  qed simp
qed

lemma rnd_f64: "x \<in> f64_set \<Longrightarrow> rnd x = x"
  unfolding f64_set_def using rnd_exact by blast

lemma rnd_nonneg: "0 \<le> x \<Longrightarrow> 0 \<le> rnd x"
  using rnd_ge_grid [of 0 "ulp_exp x" x] by simp

lemma ulp_exp_mono: "0 < x \<Longrightarrow> x \<le> y \<Longrightarrow> ulp_exp x \<le> ulp_exp y"
proof -
  assume "0 < x" "x \<le> y"
  then have "\<lfloor>log 2 \<bar>x\<bar>\<rfloor> \<le> \<lfloor>log 2 \<bar>y\<bar>\<rfloor>" by (intro floor_mono) simp
  then show ?thesis unfolding ulp_exp_def by (intro max.mono) simp_all
qed

lemma rnd_mono_pos:
  assumes "0 < x" "x \<le> y" shows "rnd x \<le> rnd y"
proof (cases "ulp_exp x = ulp_exp y")
  case True
  have "rne (x / 2 powr of_int (ulp_exp y)) \<le> rne (y / 2 powr of_int (ulp_exp y))"
    using assms by (intro rne_mono divide_right_mono) auto
  then show ?thesis unfolding rnd_def True by (intro mult_right_mono) auto
next
  case False
  let ?f = "ulp_exp y"
  have lt: "ulp_exp x < ?f" using False ulp_exp_mono [OF assms] by simp
  then have f: "- 1074 < ?f" using ulp_exp_lower [of x] by linarith
  have grid: "(2::real) powr (of_int ?f + 52) = of_int (2 ^ 52) * 2 powr of_int ?f"
    by (simp add: powr_add powr_realpow)
  have "x < 2 powr (of_int (ulp_exp x) + 53)" using abs_less_ulp_exp [of x] assms by simp
  also have "\<dots> \<le> 2 powr (of_int ?f + 52)" using lt by simp
  finally have "rnd x \<le> of_int (2 ^ 52) * 2 powr of_int ?f"
    using lt unfolding grid by (intro rnd_le_grid) auto
  moreover have "of_int (2 ^ 52) * 2 powr of_int ?f \<le> rnd y"
    using ulp_exp_le_abs [OF f] assms unfolding grid by (intro rnd_ge_grid) auto
  ultimately show ?thesis by simp
qed

lemma rnd_mono: "x \<le> y \<Longrightarrow> rnd x \<le> rnd y"
proof -
  assume le: "x \<le> y"
  consider "0 < x" | "x \<le> 0" "0 \<le> y" | "y < 0" by linarith
  then show ?thesis
  proof cases
    case 1
    then show ?thesis using rnd_mono_pos le by blast
  next
    case 2
    then show ?thesis using rnd_nonneg [of y] rnd_nonneg [of "- x"] by (simp add: rnd_minus)
  next
    case 3
    then show ?thesis using rnd_mono_pos [of "- y" "- x"] le by (simp add: rnd_minus)
  qed
qed


lemma zero_f64: "0 \<in> f64_set"
  unfolding f64_set_def using ovf_pos by (intro CollectI conjI exI [of _ 0]) auto

typedef f64 = f64_set
  morphisms val Abs_f64
  using zero_f64 by blast

lemma val_bound: "\<bar>val a\<bar> < ovf"
  using val [of a] by (simp add: f64_set_def)

lemma rnd_val [simp]: "rnd (val a) = val a"
  by (rule rnd_f64) (rule val)

datatype double = NaN | PInf | NInf | Fin f64

definition fl :: "real \<Rightarrow> double" where
  "fl x = (if ovf \<le> rnd x then PInf
           else if rnd x \<le> - (ovf) then NInf
           else Fin (Abs_f64 (rnd x)))"

fun is_nan :: "double \<Rightarrow> bool" where
  "is_nan NaN = True"
| "is_nan _ = False"

fun fsign :: "double \<Rightarrow> int" where
  "fsign (Fin a) = (if 0 < val a then 1 else if val a < 0 then - 1 else 0)"
| "fsign PInf = 1"
| "fsign NInf = - 1"
| "fsign NaN = 0"

fun signed_inf :: "int \<Rightarrow> double" where
  "signed_inf s = (if 0 < s then PInf else if s < 0 then NInf else NaN)"

fun fadd :: "double \<Rightarrow> double \<Rightarrow> double" where
  "fadd (Fin a) (Fin b) = fl (val a + val b)"
| "fadd NaN _ = NaN"
| "fadd _ NaN = NaN"
| "fadd PInf NInf = NaN"
| "fadd NInf PInf = NaN"
| "fadd PInf _ = PInf"
| "fadd _ PInf = PInf"
| "fadd NInf _ = NInf"
| "fadd _ NInf = NInf"

fun fneg :: "double \<Rightarrow> double" where
  "fneg (Fin a) = fl (- val a)"
| "fneg PInf = NInf"
| "fneg NInf = PInf"
| "fneg NaN = NaN"

fun fmul :: "double \<Rightarrow> double \<Rightarrow> double" where
  "fmul (Fin a) (Fin b) = fl (val a * val b)"
| "fmul NaN _ = NaN"
| "fmul _ NaN = NaN"
| "fmul a b = signed_inf (fsign a * fsign b)"

fun fdiv :: "double \<Rightarrow> double \<Rightarrow> double" where
  "fdiv (Fin a) (Fin b) =
     (if val b = 0 then signed_inf (fsign (Fin a)) else fl (val a / val b))"
| "fdiv NaN _ = NaN"
| "fdiv _ NaN = NaN"
| "fdiv (Fin a) _ = fl 0"
| "fdiv a (Fin b) = signed_inf (fsign a * (if val b < 0 then - 1 else 1))"
| "fdiv _ _ = NaN"

fun fless_eq :: "double \<Rightarrow> double \<Rightarrow> bool" where
  "fless_eq NaN _ = False"
| "fless_eq _ NaN = False"
| "fless_eq NInf _ = True"
| "fless_eq _ PInf = True"
| "fless_eq (Fin a) (Fin b) = (val a \<le> val b)"
| "fless_eq _ _ = False"

fun fless :: "double \<Rightarrow> double \<Rightarrow> bool" where
  "fless NaN _ = False"
| "fless _ NaN = False"
| "fless (Fin a) (Fin b) = (val a < val b)"
| "fless NInf b = (b \<noteq> NInf)"
| "fless a PInf = (a \<noteq> PInf)"
| "fless _ _ = False"

instantiation double :: "{zero, one, plus, minus, uminus, times, inverse, ord}"
begin

definition zero_double :: double where "zero_double = fl 0"
definition one_double :: double where "one_double = fl 1"
definition plus_double :: "double \<Rightarrow> double \<Rightarrow> double" where "plus_double = fadd"
definition minus_double :: "double \<Rightarrow> double \<Rightarrow> double" where "minus_double a b = fadd a (fneg b)"
definition uminus_double :: "double \<Rightarrow> double" where "uminus_double = fneg"
definition times_double :: "double \<Rightarrow> double \<Rightarrow> double" where "times_double = fmul"
definition divide_double :: "double \<Rightarrow> double \<Rightarrow> double" where "divide_double = fdiv"
definition inverse_double :: "double \<Rightarrow> double" where "inverse_double = fdiv (fl 1)"
definition less_eq_double :: "double \<Rightarrow> double \<Rightarrow> bool" where "less_eq_double = fless_eq"
definition less_double :: "double \<Rightarrow> double \<Rightarrow> bool" where "less_double = fless"

instance ..

end


subsection \<open>Rounding into the type\<close>

lemma val_Abs: "\<bar>rnd x\<bar> < ovf \<Longrightarrow> val (Abs_f64 (rnd x)) = rnd x"
  by (rule Abs_f64_inverse) (rule rnd_in_f64)

lemma fl_cases:
  obtains (inf) "ovf \<le> rnd x" "fl x = PInf"
  | (ninf) "rnd x \<le> - (ovf)" "fl x = NInf"
  | (fin) a where "fl x = Fin a" "val a = rnd x" "\<bar>rnd x\<bar> < ovf"
proof (cases "\<bar>rnd x\<bar> < ovf")
  case True
  have "fl x = Fin (Abs_f64 (rnd x))" using True unfolding fl_def by auto
  then show ?thesis using fin val_Abs [OF True] True by blast
next
  case False
  then consider "ovf \<le> rnd x" | "rnd x \<le> - ovf" by linarith
  then show ?thesis
  proof cases
    case 1
    then show ?thesis using inf by (simp add: fl_def)
  next
    case 2
    then have "\<not> ovf \<le> rnd x" using ovf_pos by linarith
    with 2 show ?thesis using ninf by (simp add: fl_def)
  qed
qed

lemma fl_not_NaN [simp]: "fl x \<noteq> NaN" "NaN \<noteq> fl x"
  by (auto simp: fl_def)

lemma is_nan_fl [simp]: "\<not> is_nan (fl x)"
  by (auto simp: fl_def)

lemma fl_val [simp]: "fl (val a) = Fin a"
proof -
  have "\<bar>rnd (val a)\<bar> < ovf" using val_bound [of a] by simp
  then show ?thesis unfolding fl_def by (auto simp: val_inverse)
qed

lemmas double_defs = zero_double_def one_double_def plus_double_def minus_double_def
  uminus_double_def times_double_def divide_double_def less_eq_double_def less_double_def

lemma fl_mono: "x \<le> y \<Longrightarrow> fl x \<le> fl y"
proof -
  assume "x \<le> y"
  then have r: "rnd x \<le> rnd y" by (rule rnd_mono)
  show ?thesis
    using ovf_pos r by (cases x rule: fl_cases; cases y rule: fl_cases) (auto simp: double_defs)
qed

lemma fl_eq_Fin: "x \<in> f64_set \<Longrightarrow> \<exists>a. fl x = Fin a \<and> val a = x"
  using fl_val [of "Abs_f64 x"] Abs_f64_inverse [of x] by metis

lemma compare_zero [simp]:
  "Fin a < 0 \<longleftrightarrow> val a < 0" "0 < Fin a \<longleftrightarrow> 0 < val a"
  "Fin a \<le> 0 \<longleftrightarrow> val a \<le> 0" "0 \<le> Fin a \<longleftrightarrow> 0 \<le> val a"
  "NInf < 0" "0 < PInf" "\<not> PInf < 0" "\<not> 0 < NInf" "\<not> PInf \<le> 0" "0 \<le> PInf"
  "NInf \<le> 0" "\<not> 0 \<le> NInf"
proof -
  obtain z where "(0::double) = Fin z" "val z = 0"
    using fl_eq_Fin [OF zero_f64] by (auto simp: zero_double_def)
  then show "Fin a < 0 \<longleftrightarrow> val a < 0" "0 < Fin a \<longleftrightarrow> 0 < val a"
    "Fin a \<le> 0 \<longleftrightarrow> val a \<le> 0" "0 \<le> Fin a \<longleftrightarrow> 0 \<le> val a"
    "NInf < 0" "0 < PInf" "\<not> PInf < 0" "\<not> 0 < NInf" "\<not> PInf \<le> 0" "0 \<le> PInf"
    "NInf \<le> 0" "\<not> 0 \<le> NInf"
    by (simp_all add: double_defs)
qed

lemma val_eq_iff [simp]: "val a = val b \<longleftrightarrow> a = b"
  by (rule val_inject)

subsection \<open>Representable values and evaluation\<close>

lemma f64_setI: "\<bar>m\<bar> \<le> 2 ^ 53 \<Longrightarrow> j \<le> 1074 \<Longrightarrow> of_int m / 2 ^ j \<in> f64_set"
proof -
  assume m: "\<bar>m\<bar> \<le> 2 ^ 53" and j: "j \<le> 1074"
  have "\<bar>of_int m / 2 ^ j :: real\<bar> \<le> \<bar>of_int m\<bar>"
    using mult_left_mono [of 1 "2 ^ j" "\<bar>of_int m :: real\<bar>"]
    by (simp add: abs_divide divide_le_eq one_le_power)
  also have "\<dots> \<le> 2 ^ 53" using m by (metis of_int_abs of_int_le_iff of_int_numeral of_int_power)
  also have "\<dots> < ovf" by (rule ovf_large)
  finally have "\<bar>of_int m / 2 ^ j :: real\<bar> < ovf" .
  moreover have "of_int m / 2 ^ j = of_int m * (2::real) powr of_int (- int j)"
    by (simp add: powr_minus powr_realpow divide_inverse)
  moreover have "- 1074 \<le> - int j" using j by simp
  ultimately show ?thesis unfolding f64_set_def using m by blast
qed

lemma exact_of_int: "\<bar>m\<bar> \<le> 2 ^ 53 \<Longrightarrow> of_int m \<in> f64_set"
  using f64_setI [of m 0] by simp

lemma exact_numeral [float_eval]: "(numeral k :: int) \<le> 2 ^ 53 \<Longrightarrow> numeral k \<in> f64_set"
  using exact_of_int [of "numeral k"] by simp

lemma exact_neg [float_eval]: "x \<in> f64_set \<Longrightarrow> - x \<in> f64_set"
proof -
  assume "x \<in> f64_set"
  then obtain m k :: int where "\<bar>x\<bar> < ovf" "\<bar>m\<bar> \<le> 2 ^ 53" "- 1074 \<le> k" "x = of_int m * 2 powr of_int k"
    unfolding f64_set_def by blast
  then have "\<bar>- x\<bar> < ovf \<and> \<bar>- m\<bar> \<le> 2 ^ 53 \<and> - 1074 \<le> k \<and> - x = of_int (- m) * 2 powr of_int k"
    by simp
  then show ?thesis unfolding f64_set_def by blast
qed

lemma exact_zero [float_eval]: "0 \<in> f64_set" and exact_one [float_eval]: "1 \<in> f64_set"
  using exact_of_int [of 0] exact_of_int [of 1] by simp_all

lemma fl_exact_eqs [float_eval]:
  assumes "x \<in> f64_set" "y \<in> f64_set"
  shows "fl x + fl y = fl (x + y)" "fl x - fl y = fl (x - y)" "fl x * fl y = fl (x * y)"
    "y \<noteq> 0 \<Longrightarrow> fl x / fl y = fl (x / y)" "fl x < fl y \<longleftrightarrow> x < y" "fl x \<le> fl y \<longleftrightarrow> x \<le> y"
    "fl x = fl y \<longleftrightarrow> x = y"
proof -
  obtain a b where a: "fl x = Fin a" "x = val a" and b: "fl y = Fin b" "y = val b"
    using assms fl_eq_Fin by metis
  obtain c where c: "fl (- y) = Fin c" "val c = - y" using fl_eq_Fin [OF exact_neg [OF assms(2)]] by blast
  show "fl x - fl y = fl (x - y)" using a b c by (simp add: minus_double_def)
  show "fl x + fl y = fl (x + y)" "fl x * fl y = fl (x * y)" "y \<noteq> 0 \<Longrightarrow> fl x / fl y = fl (x / y)"
    "fl x < fl y \<longleftrightarrow> x < y" "fl x \<le> fl y \<longleftrightarrow> x \<le> y" "fl x = fl y \<longleftrightarrow> x = y"
    using a b by (simp_all add: double_defs)
qed

lemma fl_neg [float_eval]: "- fl x = fl (- x)"
proof (cases x rule: fl_cases)
  case inf
  then have "rnd (- x) \<le> - ovf" "\<not> ovf \<le> rnd (- x)" using ovf_pos unfolding rnd_minus by linarith+
  with inf show ?thesis by (simp add: uminus_double_def fl_def)
next
  case ninf
  then have "ovf \<le> rnd (- x)" unfolding rnd_minus by linarith
  with ninf show ?thesis by (simp add: uminus_double_def fl_def)
next
  case (fin a)
  then have "rnd (rnd x) = rnd x" by (metis rnd_val)
  then have "fl (- rnd x) = fl (- x)" unfolding fl_def rnd_minus by simp
  then show ?thesis using fin by (simp add: uminus_double_def)
qed

lemma zero_fl [float_eval]: "(0::double) = fl 0" and one_fl [float_eval]: "(1::double) = fl 1"
  by (simp_all add: zero_double_def one_double_def)

subsection \<open>The order away from NaN\<close>

lemma less_nan [simp]: "\<not> NaN < (x::double)" "\<not> x < NaN" "\<not> NaN \<le> x" "\<not> x \<le> NaN"
  by (cases x; simp add: double_defs)+

lemma less_inf [simp]: "\<not> x < NInf" "\<not> PInf < (x::double)"
  by (cases x; simp add: double_defs)+

lemma dless_irrefl [simp]: "\<not> (x::double) < x"
  by (cases x) (auto simp: double_defs)

lemma dle_refl: "\<not> is_nan x \<Longrightarrow> (x::double) \<le> x"
  by (cases x) (auto simp: double_defs)

lemma dless_imp_le: "(x::double) < y \<Longrightarrow> x \<le> y"
  by (cases x; cases y) (auto simp: double_defs)

lemma dless_asym: "(x::double) < y \<Longrightarrow> \<not> y < x"
  by (cases x; cases y) (auto simp: double_defs)

lemma dless_not_le: "(x::double) < y \<Longrightarrow> \<not> y \<le> x"
  by (cases x; cases y) (auto simp: double_defs)

lemma dle_trans: "(x::double) \<le> y \<Longrightarrow> y \<le> z \<Longrightarrow> x \<le> z"
  by (cases x; cases y; cases z) (auto simp: double_defs)

lemma dless_le_trans: "(x::double) < y \<Longrightarrow> y \<le> z \<Longrightarrow> x < z"
  by (cases x; cases y; cases z) (auto simp: double_defs)

lemma dle_less_trans: "(x::double) \<le> y \<Longrightarrow> y < z \<Longrightarrow> x < z"
  by (cases x; cases y; cases z) (auto simp: double_defs)

lemma dless_trans: "(x::double) < y \<Longrightarrow> y < z \<Longrightarrow> x < z"
  by (rule dless_le_trans [OF _ dless_imp_le])

lemma dnot_less: "\<not> is_nan x \<Longrightarrow> \<not> is_nan y \<Longrightarrow> \<not> (x::double) < y \<longleftrightarrow> y \<le> x"
  by (cases x; cases y) (auto simp: double_defs)

lemma dantisym: "(x::double) \<le> y \<Longrightarrow> y \<le> x \<Longrightarrow> x = y"
  by (cases x; cases y) (auto simp: double_defs)

lemma dle_not_nan: "(x::double) \<le> y \<Longrightarrow> \<not> is_nan x \<and> \<not> is_nan y"
  by (cases x; cases y) (auto simp: double_defs)

lemma dless_not_nan: "(x::double) < y \<Longrightarrow> \<not> is_nan x \<and> \<not> is_nan y"
  by (cases x; cases y) (auto simp: double_defs)

lemma is_nan_iff: "is_nan x \<longleftrightarrow> x = NaN"
  by (cases x) auto

subsection \<open>Values that never compare below zero\<close>

definition nonneg :: "double \<Rightarrow> bool" where
  "nonneg x \<longleftrightarrow> \<not> x < 0"

lemma nonneg_Fin [simp]: "nonneg (Fin a) \<longleftrightarrow> 0 \<le> val a"
  by (auto simp: nonneg_def)

lemma nonneg_special [simp]: "nonneg PInf" "nonneg NaN" "\<not> nonneg NInf"
  by (simp_all add: nonneg_def)

lemma nonneg_fl [nonneg_intros]: "0 \<le> x \<Longrightarrow> nonneg (fl x)"
  using rnd_nonneg [of x] ovf_pos by (cases x rule: fl_cases) auto

lemma nonneg_zero [nonneg_intros, simp]: "nonneg 0"
  by (simp add: nonneg_def)

lemma nonneg_one [nonneg_intros, simp]: "nonneg 1"
  by (simp add: one_double_def nonneg_fl)

lemma nonneg_add [nonneg_intros]: "nonneg x \<Longrightarrow> nonneg y \<Longrightarrow> nonneg (x + y)"
  by (cases x; cases y) (auto simp: plus_double_def intro: nonneg_fl)

lemma fsign_nonneg: "nonneg x \<Longrightarrow> 0 \<le> fsign x"
  by (cases x) auto

lemma nonneg_signed_inf: "0 \<le> s \<Longrightarrow> nonneg (signed_inf s)"
  by auto

lemma nonneg_mult [nonneg_intros]: "nonneg x \<Longrightarrow> nonneg y \<Longrightarrow> nonneg (x * y)"
  by (cases x; cases y) (auto simp: times_double_def intro: nonneg_fl)

lemma nonneg_divide [nonneg_intros]: "nonneg x \<Longrightarrow> nonneg y \<Longrightarrow> nonneg (x / y)"
  by (cases x; cases y) (auto simp: divide_double_def intro: nonneg_fl)

lemma le_imp_nonneg: "0 \<le> x \<Longrightarrow> nonneg x"
  by (auto simp: nonneg_def dest: dless_not_le)

lemma nonneg_not_nan: "nonneg x \<Longrightarrow> \<not> is_nan x \<Longrightarrow> 0 \<le> x"
  using dnot_less [of x 0] by (simp add: nonneg_def zero_double_def)

lemma add_nonneg_not_less1: "nonneg y \<Longrightarrow> \<not> x + y < x"
proof (cases x)
  case (Fin a)
  assume y: "nonneg y"
  show ?thesis
  proof (cases y)
    case b: (Fin b)
    from y b have "fl (val a) \<le> fl (val a + val b)" by (intro fl_mono) simp
    then show ?thesis using Fin b by (auto simp: plus_double_def dest: dless_not_le)
  qed (use Fin y in \<open>auto simp: double_defs\<close>)
qed (cases y; auto simp: double_defs)+

lemma dadd_commute: "(x::double) + y = y + x"
  by (cases x; cases y) (auto simp: plus_double_def add.commute)

lemma dmult_commute: "(x::double) * y = y * x"
  by (cases x; cases y) (auto simp: times_double_def mult.commute)

lemma add_nonneg_not_less2: "nonneg x \<Longrightarrow> \<not> x + y < y"
  using add_nonneg_not_less1 [of x y] by (simp add: dadd_commute)

lemma nonneg_not_less_trans: "nonneg x \<Longrightarrow> \<not> y < x \<Longrightarrow> \<not> is_nan x \<Longrightarrow> nonneg y"
  by (meson dless_le_trans nonneg_def nonneg_not_nan)

lemma dadd_mono:
  "a \<le> c \<Longrightarrow> b \<le> d \<Longrightarrow> \<not> c + d < a + (b::double)"
proof (cases a; cases b; cases c; cases d)
  fix p q r s
  assume "a = Fin p" "b = Fin q" "c = Fin r" "d = Fin s" "a \<le> c" "b \<le> d"
  then have "fl (val p + val q) \<le> fl (val r + val s)"
    by (intro fl_mono) (auto simp: less_eq_double_def)
  then show ?thesis using \<open>a = _\<close> \<open>b = _\<close> \<open>c = _\<close> \<open>d = _\<close>
    by (auto simp: plus_double_def dest: dless_not_le)
qed (simp_all add: plus_double_def less_eq_double_def)

subsection \<open>C library functions\<close>

text \<open>Conversion of a C integer; exact for 32-bit values.\<close>

definition dbl :: "int \<Rightarrow> double" where
  "dbl i = fl (of_int i)"

text \<open>
  \<^verbatim>\<open>log\<close>: minus infinity at zero, NaN below zero (C99 F.9.3.7).
\<close>

fun log_d :: "double \<Rightarrow> double" where
  "log_d (Fin a) = (if val a = 0 then NInf else if val a < 0 then NaN else fl (ln (val a)))"
| "log_d PInf = PInf"
| "log_d NInf = NaN"
| "log_d NaN = NaN"

fun sqrt_d :: "double \<Rightarrow> double" where
  "sqrt_d (Fin a) = (if val a < 0 then NaN else fl (sqrt (val a)))"
| "sqrt_d PInf = PInf"
| "sqrt_d NInf = NaN"
| "sqrt_d NaN = NaN"

text \<open>\<^verbatim>\<open>pow(x, n)\<close> at a non-negative integer exponent; \<^verbatim>\<open>pow(x, 0)\<close> is 1 even for NaN.\<close>

fun pow_d :: "double \<Rightarrow> nat \<Rightarrow> double" where
  "pow_d x 0 = fl 1"
| "pow_d (Fin a) n = fl (val a ^ n)"
| "pow_d PInf n = PInf"
| "pow_d NInf n = (if even n then PInf else NInf)"
| "pow_d NaN n = NaN"

fun ceil_d :: "double \<Rightarrow> double" where
  "ceil_d (Fin a) = fl (of_int \<lceil>val a\<rceil>)"
| "ceil_d x = x"

fun rint_d :: "double \<Rightarrow> double" where
  "rint_d (Fin a) = fl (of_int (rne (val a)))"
| "rint_d x = x"

text \<open>The macros \<^verbatim>\<open>Max\<close> and \<^verbatim>\<open>Min\<close> of \<^verbatim>\<open>c.h\<close>, which pick their second argument when the
  comparison is false.\<close>

definition Max_d :: "double \<Rightarrow> double \<Rightarrow> double" where
  "Max_d x y = (if x > y then x else y)"

definition Min_d :: "double \<Rightarrow> double \<Rightarrow> double" where
  "Min_d x y = (if x < y then x else y)"

lemma nonneg_ceil [nonneg_intros]: "nonneg x \<Longrightarrow> nonneg (ceil_d x)"
  by (cases x) (auto intro: nonneg_fl)

lemma rne_nonneg: "0 \<le> x \<Longrightarrow> 0 \<le> rne x"
  using rne_mono [of 0 x] rne_of_int [of 0] by simp

lemma nonneg_rint [nonneg_intros]: "nonneg x \<Longrightarrow> nonneg (rint_d x)"
  by (cases x) (auto intro!: nonneg_fl rne_nonneg)

lemma nonneg_dbl [nonneg_intros]: "0 \<le> i \<Longrightarrow> nonneg (dbl i)"
  by (simp add: dbl_def nonneg_fl)

lemma nonneg_sqrt [nonneg_intros]: "nonneg x \<Longrightarrow> nonneg (sqrt_d x)"
  by (cases x) (auto intro: nonneg_fl)

lemma nonneg_Max [nonneg_intros]: "nonneg x \<Longrightarrow> nonneg y \<Longrightarrow> nonneg (Max_d x y)"
  by (simp add: Max_d_def)

lemma nonneg_Min [nonneg_intros]: "nonneg x \<Longrightarrow> nonneg y \<Longrightarrow> nonneg (Min_d x y)"
  by (simp add: Min_d_def)

lemma log_mono: "0 < x \<Longrightarrow> x \<le> y \<Longrightarrow> log_d x \<le> log_d y"
proof (cases x; cases y)
  fix a b
  assume xy: "x = Fin a" "y = Fin b" and "0 < x" "x \<le> y"
  then have "0 < val a" "val a \<le> val b"
    by (auto simp: less_eq_double_def)
  then have "fl (ln (val a)) \<le> fl (ln (val b))" by (intro fl_mono) simp
  then show ?thesis using xy \<open>0 < val a\<close> \<open>val a \<le> val b\<close> by auto
qed (auto simp: less_eq_double_def fl_def)

lemma log_ge_1: "fl 1 \<le> x \<Longrightarrow> nonneg (log_d x)"
proof (cases x)
  case (Fin a)
  assume "fl 1 \<le> x"
  moreover obtain u where "fl 1 = Fin u" "val u = 1" using fl_eq_Fin [OF exact_one] by blast
  ultimately have "1 \<le> val a" using Fin by (simp add: less_eq_double_def)
  then show ?thesis using Fin by (auto intro: nonneg_fl)
qed (auto simp: double_defs)

subsection \<open>Bounds on finite values\<close>

text \<open>
  Rounding is monotone and fixes the representable numbers, so a result that lies between two
  representable numbers before rounding lies between them afterwards.
\<close>

definition between :: "real \<Rightarrow> real \<Rightarrow> double \<Rightarrow> bool" where
  "between l u x \<longleftrightarrow> (\<exists>a. x = Fin a \<and> l \<le> val a \<and> val a \<le> u)"

lemma between_fl: "l \<le> r \<Longrightarrow> r \<le> u \<Longrightarrow> l \<in> f64_set \<Longrightarrow> u \<in> f64_set \<Longrightarrow> between l u (fl r)"
proof -
  assume r: "l \<le> r" "r \<le> u" and f: "l \<in> f64_set" "u \<in> f64_set"
  obtain a b where ab: "fl l = Fin a" "val a = l" "fl u = Fin b" "val b = u"
    using f fl_eq_Fin by metis
  have "Fin a \<le> fl r" "fl r \<le> Fin b" using fl_mono [OF r(1)] fl_mono [OF r(2)] ab by simp_all
  then show ?thesis using ab by (cases "fl r") (auto simp: between_def less_eq_double_def)
qed

lemma between_add:
  assumes "between l u x" "between l' u' y" "L \<le> l + l'" "u + u' \<le> U" "L \<in> f64_set" "U \<in> f64_set"
  shows "between L U (x + y)"
proof -
  obtain a b where "x = Fin a" "y = Fin b" "l \<le> val a" "val a \<le> u" "l' \<le> val b" "val b \<le> u'"
    using assms(1,2) by (auto simp: between_def)
  then show ?thesis using assms(3-6) by (auto simp: plus_double_def intro!: between_fl)
qed

lemma between_mult:
  assumes "between l u x" "between l' u' y" "0 \<le> l" "0 \<le> l'" "L \<le> l * l'" "u * u' \<le> U" "L \<in> f64_set" "U \<in> f64_set"
  shows "between L U (x * y)"
proof -
  obtain a b where ab: "x = Fin a" "y = Fin b" "l \<le> val a" "val a \<le> u" "l' \<le> val b" "val b \<le> u'"
    using assms(1,2) by (auto simp: between_def)
  then have "l * l' \<le> val a * val b" "val a * val b \<le> u * u'"
    using assms(3,4) by (auto intro!: mult_mono)
  then show ?thesis using ab assms(5-8) by (auto simp: times_double_def intro!: between_fl)
qed

lemma between_neg: "between l u x \<Longrightarrow> between (- u) (- l) (- x)"
  unfolding between_def uminus_double_def
proof (elim exE conjE)
  fix a assume a: "x = Fin a" "l \<le> val a" "val a \<le> u"
  obtain b where "fl (- val a) = Fin b" "val b = - val a"
    using fl_eq_Fin [OF exact_neg [OF val]] by blast
  then show "\<exists>b. fneg x = Fin b \<and> - u \<le> val b \<and> val b \<le> - l" using a by auto
qed

lemma mult_neg_right: "x * (- y) = - (x * (y :: double))"
proof (cases x; cases y)
  fix a b assume xy: "x = Fin a" "y = Fin b"
  obtain c where c: "fl (- val b) = Fin c" "val c = - val b"
    using fl_eq_Fin [OF exact_neg [OF val]] by blast
  then show ?thesis using xy fl_neg [of "val a * val b"] by (simp add: times_double_def uminus_double_def)
next
  fix a assume xy: "x = PInf" "y = Fin a"
  obtain c where c: "fl (- val a) = Fin c" "val c = - val a"
    using fl_eq_Fin [OF exact_neg [OF val]] by blast
  then show ?thesis using xy by (auto simp: times_double_def uminus_double_def)
next
  fix a assume xy: "x = NInf" "y = Fin a"
  obtain c where c: "fl (- val a) = Fin c" "val c = - val a"
    using fl_eq_Fin [OF exact_neg [OF val]] by blast
  then show ?thesis using xy by (auto simp: times_double_def uminus_double_def)
qed (auto simp: times_double_def uminus_double_def)

lemma ln_ovf: "ln ovf \<le> 1024"
proof -
  have "ln ovf = 1024 * ln 2" unfolding ovf_def by (subst ln_realpow) simp_all
  moreover have "ln (2::real) \<le> 2 - 1" by (rule ln_le_minus_one) simp
  ultimately show ?thesis by simp
qed

text \<open>The logarithm of a finite number from one on is a small finite number.\<close>

lemma log_finite: "1 \<le> val a \<Longrightarrow> between 0 1024 (log_d (Fin a))"
proof -
  assume a: "1 \<le> val a"
  have "ln (val a) \<le> ln ovf" using a val_bound [of a] by (intro ln_mono) auto
  then have "ln (val a) \<le> 1024" using ln_ovf by linarith
  then have "between 0 1024 (fl (ln (val a)))"
    using a by (intro between_fl) (auto intro: exact_zero exact_numeral)
  then show ?thesis using a by simp
qed

lemma pow_d_1: "pow_d x 1 = x"
  by (cases x) (simp_all add: numeral_eq_Suc)

lemma dadd_zero [simp]: "x + (0::double) = x"
proof (cases x)
  case (Fin a)
  then show ?thesis using fl_eq_Fin [OF exact_zero] by (auto simp: double_defs)
qed (use fl_eq_Fin [OF exact_zero] in \<open>auto simp: double_defs\<close>)

lemma dzero_add: "(0::double) + x = x"
  by (simp add: dadd_commute [of 0 x])

lemma dmult_zero [simp]: "0 * Fin a = (0::double)" "Fin a * 0 = (0::double)"
  using fl_eq_Fin [OF exact_zero] by (auto simp: double_defs)

lemma dmult_one [simp]: "fl 1 * x = x" "x * fl 1 = x"
  using fl_eq_Fin [OF exact_one] by (cases x; auto simp: double_defs)+

lemma fl_pow: "x \<in> f64_set \<Longrightarrow> pow_d (fl x) (Suc n) = fl (x ^ Suc n)"
  using fl_eq_Fin [of x] by auto

lemma exact_inverse_pow2: "j \<le> 1074 \<Longrightarrow> 1 / 2 ^ j \<in> f64_set"
  using f64_setI [of 1 j] by simp

lemma between_mult_neg:
  assumes "between l u x" "between (- u') 0 y" "0 \<le> l" "0 \<le> u'" "u * u' \<le> U" "U \<in> f64_set"
  shows "between (- U) 0 (x * y)"
proof -
  obtain a b where ab: "x = Fin a" "y = Fin b" "0 \<le> val a" "val a \<le> u" "- u' \<le> val b" "val b \<le> 0"
    using assms(1-3) by (auto simp: between_def)
  then have "val a * - val b \<le> u * u'" using assms by (intro mult_mono) auto
  moreover have "val a * val b \<le> 0" using ab by (simp add: mult_nonneg_nonpos)
  ultimately show ?thesis using ab assms(5,6)
    by (auto simp: times_double_def intro!: between_fl exact_zero exact_neg)
qed

lemma between_pow:
  assumes "between 0 u x"
  shows "between 1 1 (pow_d x 0)" "between 0 u (pow_d x 1)" 
    "u ^ 2 \<in> f64_set \<Longrightarrow> between 0 (u ^ 2) (pow_d x 2)"
proof -
  obtain a where a: "x = Fin a" "0 \<le> val a" "val a \<le> u" using assms by (auto simp: between_def)
  show "between 1 1 (pow_d x 0)" by (simp add: between_fl exact_one)
  show "between 0 u (pow_d x 1)" using assms by (simp only: pow_d_1)
  have "val a ^ 2 \<le> u ^ 2" using a by (intro power_mono) auto
  then show "between 0 (u ^ 2) (pow_d x 2)" if "u ^ 2 \<in> f64_set"
    using a that by (auto simp: numeral_2_eq_2 intro!: between_fl exact_zero)
qed

lemma between_weaken: "between l u x \<Longrightarrow> L \<le> l \<Longrightarrow> u \<le> U \<Longrightarrow> between L U x"
  by (auto simp: between_def)

lemma between_not_gt: "between l u x \<Longrightarrow> u \<le> r \<Longrightarrow> r \<in> f64_set \<Longrightarrow> \<not> fl r < x"
  using fl_eq_Fin [of r] by (auto simp: between_def less_double_def)

lemma log_negative: "between l u x \<Longrightarrow> u < 0 \<Longrightarrow> log_d x = NaN"
  by (auto simp: between_def)

lemma dlinear: "\<not> is_nan x \<Longrightarrow> \<not> is_nan y \<Longrightarrow> (x::double) < y \<or> x = y \<or> y < x"
  by (metis dantisym dnot_less)

lemma dmult_mono_not_less: "nonneg w \<Longrightarrow> (x::double) \<le> y \<Longrightarrow> \<not> w * y < w * x"
proof (cases w)
  case (Fin a)
  assume w: "nonneg w" and xy: "x \<le> y"
  show ?thesis
  proof (cases x; cases y)
    fix b c assume bc: "x = Fin b" "y = Fin c"
    then have "val a * val b \<le> val a * val c" using w xy Fin
      by (auto simp: less_eq_double_def intro!: mult_left_mono)
    then have "fl (val a * val b) \<le> fl (val a * val c)" by (rule fl_mono)
    then show ?thesis using bc Fin dless_not_le by (auto simp: times_double_def)
  qed (use w xy Fin in \<open>auto simp: times_double_def less_eq_double_def\<close>)
next
  case PInf
  assume "x \<le> y"
  then show ?thesis using PInf by (cases x; cases y) (auto simp: times_double_def less_eq_double_def)
qed (auto simp: times_double_def)

lemma dadd_mono_not_less: "\<not> (b::double) < a \<Longrightarrow> \<not> d < c \<Longrightarrow> \<not> b + d < a + c"
proof (cases "is_nan a \<or> is_nan b \<or> is_nan c \<or> is_nan d")
  case True
  then show ?thesis by (auto simp: is_nan_iff plus_double_def)
    (cases a; cases b; cases c; cases d; simp)+
next
  case False
  assume "\<not> b < a" "\<not> d < c"
  then have "a \<le> b" "c \<le> d" using False by (auto simp: dnot_less)
  then show ?thesis by (rule dadd_mono)
qed

lemma between_le: "between 0 u x \<Longrightarrow> 0 \<le> x" and between_not_nan: "between l u x \<Longrightarrow> \<not> is_nan x"
  by (auto simp: between_def)

text \<open>Rounding to nearest errs by at most half a unit in the last place.\<close>

lemma rnd_error: "\<bar>rnd x - x\<bar> \<le> 2 powr of_int (ulp_exp x) / 2"
proof -
  let ?u = "2 powr of_int (ulp_exp x) :: real"
  have u: "0 < ?u" by simp
  have "rnd x - x = (of_int (rne (x / ?u)) - x / ?u) * ?u"
    unfolding rnd_def using u by (simp add: left_diff_distrib)
  then have "\<bar>rnd x - x\<bar> = \<bar>of_int (rne (x / ?u)) - x / ?u\<bar> * ?u" using u by (simp add: abs_mult)
  also have "\<dots> \<le> 1 / 2 * ?u" using rne_error [of "x / ?u"] u by (intro mult_right_mono) auto
  finally show ?thesis by simp
qed

lemma rnd_relative_error:
  assumes "1 / 2 ^ n \<le> \<bar>x\<bar>" "n \<le> 1000"
  shows "\<bar>rnd x - x\<bar> \<le> \<bar>x\<bar> / 2 ^ 53"
proof -
  have "0 < 1 / (2::real) ^ n" by simp
  then have "0 < \<bar>x\<bar>" using assms(1) by linarith
  then have x: "x \<noteq> 0" by simp
  have "2 powr - real n \<le> \<bar>x\<bar>" using assms by (simp add: powr_minus powr_realpow divide_inverse)
  then have "- real n \<le> log 2 \<bar>x\<bar>" using x by (simp add: le_log_iff)
  then have "- 1000 \<le> log 2 \<bar>x\<bar>" using assms(2) by linarith
  then have "- 1074 < ulp_exp x" unfolding ulp_exp_def by linarith
  from ulp_exp_le_abs [OF this x] have "2 powr of_int (ulp_exp x) * 2 ^ 52 \<le> \<bar>x\<bar>"
    by (simp add: powr_add)
  then have "2 powr of_int (ulp_exp x) / 2 \<le> \<bar>x\<bar> / 2 ^ 53" by (simp add: field_simps)
  with rnd_error [of x] show ?thesis by linarith
qed

lemma fl_less_Fin:
  assumes "x < val b" "1 / 2 ^ n \<le> \<bar>x\<bar>" "n \<le> 1000" "\<bar>x\<bar> / 2 ^ 53 < val b - x"
  shows "fl x < Fin b"
proof -
  have "rnd x < val b" using rnd_relative_error [OF assms(2,3)] assms(4) by linarith
  then show ?thesis using val_bound [of b]
    by (cases x rule: fl_cases) (auto simp: less_double_def)
qed

lemma mult_less_negative:
  assumes "val w \<le> - (1 / 2 ^ n)" "n \<le> 1000" "1 + 1 / 128 \<le> val f" "val f \<le> 2"
  shows "Fin w * Fin f < Fin w"
proof -
  define v where "v = - val w"
  define p where "p = v * val f"
  have "0 < 1 / (2::real) ^ n" by simp
  then have v: "0 < v" "1 / 2 ^ n \<le> v" using assms(1) unfolding v_def by linarith+
  have "v * (1 + 1 / 128) \<le> p" unfolding p_def using v assms(3) by (intro mult_left_mono) auto
  then have lower: "v + v / 128 \<le> p" by (simp add: algebra_simps)
  have upper: "p \<le> v * 2" unfolding p_def using v assms(4) by (intro mult_left_mono) auto
  have w: "val w * val f = - p" "val w = - v" by (simp_all add: p_def v_def)
  have "fl (- p) < Fin w"
    using lower upper v by (intro fl_less_Fin [OF _ _ assms(2)]) (auto simp: w)
  then show ?thesis by (simp add: times_double_def w(1))
qed

end
