(* ===== verification/Cost_Params.thy ===== *)
theory Cost_Params
  imports Float64
begin

text \<open>
  The planner's settings: the cost constants and enable flags that \<^verbatim>\<open>costsize.c\<close> declares as global
  variables and the two weights of \<^verbatim>\<open>pathnode.c\<close>, gathered in one record that every cost routine
  takes, and the power model \<^verbatim>\<open>count_power_cost\<close>.
\<close>

type_synonym Cost = double

subsection \<open>Global variables\<close>

record gucs =
  seq_page_cost :: double
  random_page_cost :: double
  cpu_tuple_cost :: double
  cpu_index_tuple_cost :: double
  cpu_operator_cost :: double
  parallel_tuple_cost :: double
  parallel_setup_cost :: double
  effective_cache_size :: int
  disable_cost :: Cost
  max_parallel_workers_per_gather :: int
  enable_seqscan :: bool
  enable_indexscan :: bool
  enable_indexonlyscan :: bool
  enable_bitmapscan :: bool
  enable_tidscan :: bool
  enable_sort :: bool
  enable_hashagg :: bool
  enable_nestloop :: bool
  enable_material :: bool
  enable_mergejoin :: bool
  enable_hashjoin :: bool
  enable_gathermerge :: bool
  time_weight :: double
  power_weight :: double
  work_mem :: int
  min_parallel_table_scan_size :: int
  min_parallel_index_scan_size :: int

definition default_gucs :: gucs where
  "default_gucs =
     \<lparr> seq_page_cost = fl 1, random_page_cost = fl 4, cpu_tuple_cost = fl 0.01,
       cpu_index_tuple_cost = fl 0.005, cpu_operator_cost = fl 0.0025,
       parallel_tuple_cost = fl 0.1, parallel_setup_cost = fl 1000,
       effective_cache_size = 524288, disable_cost = fl 10000000000,
       max_parallel_workers_per_gather = 2,
       enable_seqscan = True, enable_indexscan = True, enable_indexonlyscan = True,
       enable_bitmapscan = True, enable_tidscan = True, enable_sort = True, enable_hashagg = True,
       enable_nestloop = True, enable_material = True, enable_mergejoin = True,
       enable_hashjoin = True, enable_gathermerge = True,
       time_weight = fl 1, power_weight = fl 0, work_mem = 4096,
       min_parallel_table_scan_size = 1024, min_parallel_index_scan_size = 64 \<rparr>"

text \<open>The settings that make every cost constant a sensible charge.\<close>

definition gucs_ok :: "gucs \<Rightarrow> bool" where
  "gucs_ok g \<longleftrightarrow> nonneg (seq_page_cost g) \<and> nonneg (random_page_cost g) \<and> nonneg (cpu_tuple_cost g) \<and>
     nonneg (cpu_index_tuple_cost g) \<and> nonneg (cpu_operator_cost g) \<and> nonneg (parallel_tuple_cost g) \<and>
     nonneg (parallel_setup_cost g) \<and> nonneg (disable_cost g)"

lemma gucs_okD [nonneg_intros]:
  assumes "gucs_ok g"
  shows "nonneg (seq_page_cost g)" "nonneg (random_page_cost g)" "nonneg (cpu_tuple_cost g)"
    "nonneg (cpu_index_tuple_cost g)" "nonneg (cpu_operator_cost g)" "nonneg (parallel_tuple_cost g)"
    "nonneg (parallel_setup_cost g)" "nonneg (disable_cost g)"
  using assms by (simp_all add: gucs_ok_def)

lemma default_gucs_ok: "gucs_ok default_gucs"
  by (simp add: gucs_ok_def default_gucs_def nonneg_fl)

subsection \<open>The power model\<close>

abbreviation B0 :: double where "B0 \<equiv> fl 39.91"
abbreviation B1 :: double where "B1 \<equiv> - fl 0.000004582"
abbreviation B2 :: double where "B2 \<equiv> fl 0.000009017"
abbreviation B3 :: double where "B3 \<equiv> fl 0.0000000000002636"
abbreviation B4 :: double where "B4 \<equiv> - fl 0.0000000000008472"
abbreviation B5 :: double where "B5 \<equiv> - fl 0.000000000004072"

definition count_power_cost :: "double \<Rightarrow> double \<Rightarrow> double \<Rightarrow> int \<Rightarrow> Cost" where
  "count_power_cost io_cost cpu_cost time wh =
     (let fcd = dbl wh * fl 0.0552 + fl 0.00783;
          total_power_cost =
            (if wh \<noteq> 0 then
               B0
               + pow_d io_cost 1 * pow_d cpu_cost 0 * B1
               + (pow_d io_cost 0 * pow_d cpu_cost 1 * B2 + pow_d io_cost 0 * pow_d cpu_cost 1 * fcd * B2)
               + pow_d io_cost 2 * pow_d cpu_cost 0 * B3
               + (pow_d io_cost 0 * pow_d cpu_cost 2 * B4 + pow_d io_cost 0 * pow_d cpu_cost 2 * fcd * B4)
               + (pow_d io_cost 1 * pow_d cpu_cost 1 * B5 + pow_d io_cost 1 * pow_d cpu_cost 1 * fcd * B5)
             else
               B0
               + pow_d io_cost 1 * pow_d cpu_cost 0 * B1
               + pow_d io_cost 0 * pow_d cpu_cost 1 * B2
               + pow_d io_cost 2 * pow_d cpu_cost 0 * B3
               + pow_d io_cost 0 * pow_d cpu_cost 2 * B4
               + pow_d io_cost 1 * pow_d cpu_cost 1 * B5)
      in if total_power_cost > fl 80 then fl 45 else total_power_cost)"

lemma power_le_80: "\<not> fl 80 < count_power_cost io cpu t wh"
proof -
  have "\<not> fl 80 < fl 45" by (simp add: float_eval)
  then show ?thesis by (simp add: count_power_cost_def Let_def)
qed

text \<open>The coefficients lie below powers of two, which are representable.\<close>

lemma coefficient_bounds:
  "between 39 40 B0" "between (- (1 / 2 ^ 17)) 0 B1" "between 0 (1 / 2 ^ 16) B2" "between 0 (1 / 2 ^ 41) B3"
  "between (- (1 / 2 ^ 40)) 0 B4" "between (- (1 / 2 ^ 37)) 0 B5"
proof -
  have small: "between 0 (1 / 2 ^ j) (fl r)" if "0 \<le> r" "r \<le> 1 / 2 ^ j" "j \<le> 1074" for r and j :: nat
    using that by (intro between_fl exact_zero exact_inverse_pow2)
  show "between 39 40 B0" by (intro between_fl exact_numeral) simp_all
  show "between 0 (1 / 2 ^ 16) B2" by (rule small) simp_all
  show "between 0 (1 / 2 ^ 41) B3" by (rule small) simp_all
  have "between 0 (1 / 2 ^ 17) (fl 0.000004582)" by (rule small) simp_all
  from between_neg [OF this] show "between (- (1 / 2 ^ 17)) 0 B1" by simp
  have "between 0 (1 / 2 ^ 40) (fl 0.0000000000008472)" by (rule small) simp_all
  from between_neg [OF this] show "between (- (1 / 2 ^ 40)) 0 B4" by simp
  have "between 0 (1 / 2 ^ 37) (fl 0.000000000004072)" by (rule small) simp_all
  from between_neg [OF this] show "between (- (1 / 2 ^ 37)) 0 B5" by simp
qed

text \<open>The bounds are stated for plans that read at most a million pages and spend at most a million
  units of CPU cost.\<close>

lemma power_terms:
  assumes "between 0 1000000 io" "between 0 1000000 cpu"
  shows "between (- 8) 0 (pow_d io 1 * pow_d cpu 0 * B1)"
    "between 0 1000000 (pow_d io 0 * pow_d cpu 1)"
    "between 0 16 (pow_d io 0 * pow_d cpu 1 * B2)"
    "between 0 1 (pow_d io 2 * pow_d cpu 0 * B3)"
    "between 0 1000000000000 (pow_d io 0 * pow_d cpu 2)"
    "between (- 1) 0 (pow_d io 0 * pow_d cpu 2 * B4)"
    "between 0 1000000000000 (pow_d io 1 * pow_d cpu 1)"
    "between (- 8) 0 (pow_d io 1 * pow_d cpu 1 * B5)"
proof -
  have sq: "(1000000 :: real) ^ 2 \<in> f64_set" using exact_numeral [of "num.Bit0 num.One"] by (simp add: exact_numeral)
  note p = between_pow [OF assms(1)] between_pow [OF assms(2)]
  have io1: "between 0 1000000 (pow_d io 1 * pow_d cpu 0)"
    using p(2) p(4) by (rule between_mult) (simp_all add: exact_zero exact_numeral)
  have io2: "between 0 1000000000000 (pow_d io 2 * pow_d cpu 0)"
    using p(3) [OF sq] p(4) by (rule between_mult) (simp_all add: exact_zero exact_numeral)
  show cpu1: "between 0 1000000 (pow_d io 0 * pow_d cpu 1)"
    using p(1) p(5) by (rule between_mult) (simp_all add: exact_zero exact_numeral)
  show cpu2: "between 0 1000000000000 (pow_d io 0 * pow_d cpu 2)"
    using p(1) p(6) [OF sq] by (rule between_mult) (simp_all add: exact_zero exact_numeral)
  show prod: "between 0 1000000000000 (pow_d io 1 * pow_d cpu 1)"
    using p(2) p(5) by (rule between_mult) (simp_all add: exact_zero exact_numeral)
  show "between (- 8) 0 (pow_d io 1 * pow_d cpu 0 * B1)"
    using io1 coefficient_bounds(2) by (rule between_mult_neg) (simp_all add: exact_numeral)
  show "between 0 16 (pow_d io 0 * pow_d cpu 1 * B2)"
    using cpu1 coefficient_bounds(3) by (rule between_mult) (simp_all add: exact_zero exact_numeral)
  show "between 0 1 (pow_d io 2 * pow_d cpu 0 * B3)"
    using io2 coefficient_bounds(4) by (rule between_mult) (simp_all add: exact_zero exact_one)
  show "between (- 1) 0 (pow_d io 0 * pow_d cpu 2 * B4)"
    using cpu2 coefficient_bounds(5) by (rule between_mult_neg) (simp_all add: exact_one)
  show "between (- 8) 0 (pow_d io 1 * pow_d cpu 1 * B5)"
    using prod coefficient_bounds(6) by (rule between_mult_neg) (simp_all add: exact_numeral)
qed

lemma power_scale:
  assumes "0 \<le> wh" "wh \<le> 15"
  shows "between 0 1 (dbl wh * fl 0.0552 + fl 0.00783)"
proof -
  have "between 0 15 (dbl wh)" unfolding dbl_def
    using assms by (intro between_fl exact_zero exact_numeral) simp_all
  moreover have "between 0 (1 / 16) (fl 0.0552)"
    using exact_inverse_pow2 [of 4] by (intro between_fl exact_zero) simp_all
  ultimately have "between 0 (15 / 16) (dbl wh * fl 0.0552)"
    by (rule between_mult) (use f64_setI [of 15 4] in \<open>simp_all add: exact_zero\<close>)
  moreover have "between 0 (1 / 64) (fl 0.00783)"
    using exact_inverse_pow2 [of 6] by (intro between_fl exact_zero) simp_all
  ultimately show ?thesis by (rule between_add) (simp_all add: exact_zero exact_one)
qed

lemma power_scaled_terms:
  assumes "between 0 1000000 io" "between 0 1000000 cpu" "between 0 1 fcd"
  shows "between 0 16 (pow_d io 0 * pow_d cpu 1 * fcd * B2)"
    "between (- 1) 0 (pow_d io 0 * pow_d cpu 2 * fcd * B4)"
    "between (- 8) 0 (pow_d io 1 * pow_d cpu 1 * fcd * B5)"
proof -
  note t = power_terms [OF assms(1,2)]
  have a: "between 0 1000000 (pow_d io 0 * pow_d cpu 1 * fcd)"
    using t(2) assms(3) by (rule between_mult) (simp_all add: exact_zero exact_numeral)
  have b: "between 0 1000000000000 (pow_d io 0 * pow_d cpu 2 * fcd)"
    using t(5) assms(3) by (rule between_mult) (simp_all add: exact_zero exact_numeral)
  have c: "between 0 1000000000000 (pow_d io 1 * pow_d cpu 1 * fcd)"
    using t(7) assms(3) by (rule between_mult) (simp_all add: exact_zero exact_numeral)
  show "between 0 16 (pow_d io 0 * pow_d cpu 1 * fcd * B2)"
    using a coefficient_bounds(3) by (rule between_mult) (simp_all add: exact_zero exact_numeral)
  show "between (- 1) 0 (pow_d io 0 * pow_d cpu 2 * fcd * B4)"
    using b coefficient_bounds(5) by (rule between_mult_neg) (simp_all add: exact_one)
  show "between (- 8) 0 (pow_d io 1 * pow_d cpu 1 * fcd * B5)"
    using c coefficient_bounds(6) by (rule between_mult_neg) (simp_all add: exact_numeral)
qed

text \<open>The shape of both sums, with the terms bounded.\<close>

lemma power_sum:
  assumes "between (- 8) 0 t1" "between 0 32 t2" "between 0 1 t3" "between (- 2) 0 t4" "between (- 16) 0 t5"
  shows "between 13 73 (B0 + t1 + t2 + t3 + t4 + t5)"
proof -
  note e = exact_neg exact_numeral exact_zero
  have "between 31 40 (B0 + t1)"
    using coefficient_bounds(1) assms(1) by (rule between_add) (simp_all add: e)
  then have "between 31 72 (B0 + t1 + t2)" using assms(2) by (rule between_add) (simp_all add: e)
  then have "between 31 73 (B0 + t1 + t2 + t3)" using assms(3) by (rule between_add) (simp_all add: e)
  then have "between 29 73 (B0 + t1 + t2 + t3 + t4)" using assms(4) by (rule between_add) (simp_all add: e)
  then show ?thesis using assms(5) by (rule between_add) (simp_all add: e)
qed

lemma power_bounds:
  assumes "between 0 1000000 io" "between 0 1000000 cpu" "0 \<le> wh" "wh \<le> 15"
  shows "between 13 73 (count_power_cost io cpu t wh)"
proof -
  let ?fcd = "dbl wh * fl 0.0552 + fl 0.00783"
  note t = power_terms [OF assms(1,2)]
  note s = power_scaled_terms [OF assms(1,2) power_scale [OF assms(3,4)]]
  note e = exact_neg exact_numeral exact_zero
  have t2: "between 0 32 (pow_d io 0 * pow_d cpu 1 * B2 + pow_d io 0 * pow_d cpu 1 * ?fcd * B2)"
    using t(3) s(1) by (rule between_add) (simp_all add: e)
  have t4: "between (- 2) 0 (pow_d io 0 * pow_d cpu 2 * B4 + pow_d io 0 * pow_d cpu 2 * ?fcd * B4)"
    using t(6) s(2) by (rule between_add) (simp_all add: e)
  have t5: "between (- 16) 0 (pow_d io 1 * pow_d cpu 1 * B5 + pow_d io 1 * pow_d cpu 1 * ?fcd * B5)"
    using t(8) s(3) by (rule between_add) (simp_all add: e)
  note w = power_sum [OF t(1) t2 t(4) t4 t5]
  have v: "between 13 73 (B0 + pow_d io 1 * pow_d cpu 0 * B1 + pow_d io 0 * pow_d cpu 1 * B2
      + pow_d io 2 * pow_d cpu 0 * B3 + pow_d io 0 * pow_d cpu 2 * B4 + pow_d io 1 * pow_d cpu 1 * B5)"
    using t by (intro power_sum) (auto elim: between_weaken)
  have no: "\<not> fl 80 < x" if "between 13 73 x" for x
    using that by (rule between_not_gt) (simp_all add: exact_numeral)
  show ?thesis
  proof (cases "wh = 0")
    case True
    then show ?thesis using v no [OF v]
      unfolding count_power_cost_def Let_def by (simp only: simp_thms if_True if_False)
  next
    case False
    then show ?thesis using w no [OF w]
      unfolding count_power_cost_def Let_def by (simp only: simp_thms if_True if_False)
  qed
qed

text \<open>Beyond that range the quadratic term with its negative coefficient takes over.\<close>

lemma power_zero_io:
  "count_power_cost 0 (Fin a) t 0 =
     (let p = B0 + Fin a * B2 + pow_d (Fin a) 2 * B4 in if p > fl 80 then fl 45 else p)"
proof -
  have "pow_d 0 1 = 0" "pow_d 0 2 = 0" "pow_d 0 0 = fl 1"
    by (simp_all add: zero_double_def numeral_2_eq_2 exact_zero fl_pow)
  moreover have "\<exists>b. B1 = Fin b" "\<exists>b. B3 = Fin b" "\<exists>b. B5 = Fin b"
    using coefficient_bounds by (auto simp: between_def)
  ultimately show ?thesis
    by (auto simp: count_power_cost_def pow_d_1 pow_d.simps(1) Let_def simp del: pow_d.simps(2-5) One_nat_def)
qed

lemma power_negative_bounds: "between (- 5822) (- 1649) (count_power_cost 0 (fl 80000000) t 0)"
proof -
  note e = exact_neg exact_numeral exact_zero exact_one
  have c1: "between 80000000 80000000 (fl 80000000)" by (intro between_fl) (simp_all add: e)
  then obtain a where a: "fl 80000000 = Fin a" "val a = 80000000" by (auto simp: between_def)
  have c2: "between 6400000000000000 6400000000000000 (pow_d (Fin a) 2)"
    by (simp add: a numeral_2_eq_2 between_fl e)
  have t2: "between 0 1221 (Fin a * B2)"
    using c1 [unfolded a] coefficient_bounds(3) by (rule between_mult) (simp_all add: e)
  have "between (1 / 2 ^ 41) (1 / 2 ^ 40) (fl 0.0000000000008472)"
    by (intro between_fl exact_inverse_pow2) simp_all
  with c2 have "between 2910 5822 (pow_d (Fin a) 2 * fl 0.0000000000008472)"
    by (rule between_mult) (simp_all add: e)
  then have t4: "between (- 5822) (- 2910) (pow_d (Fin a) 2 * B4)"
    unfolding mult_neg_right by (rule between_neg)
  have "between 39 1261 (B0 + Fin a * B2)"
    using coefficient_bounds(1) t2 by (rule between_add) (simp_all add: e)
  then have s: "between (- 5822) (- 1649) (B0 + Fin a * B2 + pow_d (Fin a) 2 * B4)"
    using t4 by (rule between_add) (simp_all add: e)
  have "\<not> fl 80 < B0 + Fin a * B2 + pow_d (Fin a) 2 * B4"
    using s by (rule between_not_gt) (simp_all add: e)
  with s show ?thesis unfolding a power_zero_io Let_def by (simp only: simp_thms if_True if_False)
qed

subsection \<open>Correctness\<close>

text \<open>
  C24: For a plan that reads at most a million pages, spends at most a million units of CPU cost and
  uses at most fifteen workers, the estimated power is a finite number between 13 and 73 watts, so the
  regression formula is not clamped there and has a logarithm.
\<close>

theorem count_power_cost_range:
  "between 0 1000000 io \<Longrightarrow> between 0 1000000 cpu \<Longrightarrow> 0 \<le> wh \<Longrightarrow> wh \<le> 15 \<Longrightarrow>
   between 13 73 (count_power_cost io cpu t wh)"
  by (rule power_bounds)

theorem count_power_cost_range_witness:
  "between 0 1000000 (fl 1000) \<and> between 0 1000000 (fl 500) \<and>
   between 13 73 (count_power_cost (fl 1000) (fl 500) 0 2)"
proof -
  have "between 0 1000000 (fl 1000)" "between 0 1000000 (fl 500)"
    by (intro between_fl exact_zero exact_numeral; simp)+
  with count_power_cost_range [of "fl 1000" "fl 500" 2 0] show ?thesis by simp
qed

text \<open>
  C20: The power never exceeds the 80 watts that the model takes as the maximum, whatever the inputs,
  and an idle plan is charged the constant of the regression.
\<close>

theorem count_power_cost_limits:
  "\<not> fl 80 < count_power_cost io cpu t wh \<and> count_power_cost 0 0 t 0 = B0"
proof -
  have "\<not> fl 80 < B0" using coefficient_bounds(1) by (rule between_not_gt) (simp_all add: exact_numeral)
  moreover obtain z where "(0::double) = Fin z" using fl_eq_Fin [OF exact_zero] zero_fl by auto
  ultimately have "count_power_cost 0 0 t 0 = B0"
    using power_zero_io [of z t] fl_pow [of 0 1] coefficient_bounds
    by (auto simp: Let_def between_def zero_fl [symmetric] exact_zero numeral_2_eq_2)
  then show ?thesis using power_le_80 by blast
qed


end
