(* ===== verification/Bitmapset.thy ===== *)
theory Bitmapset
  imports Prelude "HOL-Library.Word"
begin

text \<open>
  \<^verbatim>\<open>nodes/bitmapset.c\<close>: sets of small integers as arrays of 32-bit words, which the planner uses
  for every set of relations (\<^verbatim>\<open>Relids\<close>). A \<^verbatim>\<open>Bitmapset *\<close> is \<open>None\<close> for the null pointer and
  \<open>Some ws\<close> for an allocated set whose array \<^verbatim>\<open>words[0..nwords-1]\<close> is \<open>ws\<close>. The operations that
  recycle their inputs return the new array; the memory they free is not modelled.
  \<open>bms_set\<close> maps a bitmapset to the set of numbers it stands for, and each operation is proved
  to implement the operation on sets.
\<close>

unbundle bit_operations_syntax

subsection \<open>Data\<close>

type_synonym bitmapword = "32 word"
type_synonym bitmapset = "bitmapword list option"

datatype BMS_Comparison = BMS_EQUAL | BMS_SUBSET1 | BMS_SUBSET2 | BMS_DIFFERENT

datatype BMS_Membership = BMS_EMPTY_SET | BMS_SINGLETON | BMS_MULTIPLE

definition BITS_PER_BITMAPWORD :: nat where
  "BITS_PER_BITMAPWORD = 32"

definition WORDNUM :: "int \<Rightarrow> nat" where
  "WORDNUM x = nat x div BITS_PER_BITMAPWORD"

definition BITNUM :: "int \<Rightarrow> nat" where
  "BITNUM x = nat x mod BITS_PER_BITMAPWORD"

definition RIGHTMOST_ONE :: "bitmapword \<Rightarrow> bitmapword" where
  "RIGHTMOST_ONE x = x AND (- x)"

definition HAS_MULTIPLE_ONES :: "bitmapword \<Rightarrow> bool" where
  "HAS_MULTIPLE_ONES x \<longleftrightarrow> RIGHTMOST_ONE x \<noteq> x"

definition rightmost_one_pos :: "nat list" where
  "rightmost_one_pos =
    [0, 0, 1, 0, 2, 0, 1, 0, 3, 0, 1, 0, 2, 0, 1, 0,
     4, 0, 1, 0, 2, 0, 1, 0, 3, 0, 1, 0, 2, 0, 1, 0,
     5, 0, 1, 0, 2, 0, 1, 0, 3, 0, 1, 0, 2, 0, 1, 0,
     4, 0, 1, 0, 2, 0, 1, 0, 3, 0, 1, 0, 2, 0, 1, 0,
     6, 0, 1, 0, 2, 0, 1, 0, 3, 0, 1, 0, 2, 0, 1, 0,
     4, 0, 1, 0, 2, 0, 1, 0, 3, 0, 1, 0, 2, 0, 1, 0,
     5, 0, 1, 0, 2, 0, 1, 0, 3, 0, 1, 0, 2, 0, 1, 0,
     4, 0, 1, 0, 2, 0, 1, 0, 3, 0, 1, 0, 2, 0, 1, 0,
     7, 0, 1, 0, 2, 0, 1, 0, 3, 0, 1, 0, 2, 0, 1, 0,
     4, 0, 1, 0, 2, 0, 1, 0, 3, 0, 1, 0, 2, 0, 1, 0,
     5, 0, 1, 0, 2, 0, 1, 0, 3, 0, 1, 0, 2, 0, 1, 0,
     4, 0, 1, 0, 2, 0, 1, 0, 3, 0, 1, 0, 2, 0, 1, 0,
     6, 0, 1, 0, 2, 0, 1, 0, 3, 0, 1, 0, 2, 0, 1, 0,
     4, 0, 1, 0, 2, 0, 1, 0, 3, 0, 1, 0, 2, 0, 1, 0,
     5, 0, 1, 0, 2, 0, 1, 0, 3, 0, 1, 0, 2, 0, 1, 0,
     4, 0, 1, 0, 2, 0, 1, 0, 3, 0, 1, 0, 2, 0, 1, 0]"

definition number_of_ones :: "nat list" where
  "number_of_ones =
    [0, 1, 1, 2, 1, 2, 2, 3, 1, 2, 2, 3, 2, 3, 3, 4,
     1, 2, 2, 3, 2, 3, 3, 4, 2, 3, 3, 4, 3, 4, 4, 5,
     1, 2, 2, 3, 2, 3, 3, 4, 2, 3, 3, 4, 3, 4, 4, 5,
     2, 3, 3, 4, 3, 4, 4, 5, 3, 4, 4, 5, 4, 5, 5, 6,
     1, 2, 2, 3, 2, 3, 3, 4, 2, 3, 3, 4, 3, 4, 4, 5,
     2, 3, 3, 4, 3, 4, 4, 5, 3, 4, 4, 5, 4, 5, 5, 6,
     2, 3, 3, 4, 3, 4, 4, 5, 3, 4, 4, 5, 4, 5, 5, 6,
     3, 4, 4, 5, 4, 5, 5, 6, 4, 5, 5, 6, 5, 6, 6, 7,
     1, 2, 2, 3, 2, 3, 3, 4, 2, 3, 3, 4, 3, 4, 4, 5,
     2, 3, 3, 4, 3, 4, 4, 5, 3, 4, 4, 5, 4, 5, 5, 6,
     2, 3, 3, 4, 3, 4, 4, 5, 3, 4, 4, 5, 4, 5, 5, 6,
     3, 4, 4, 5, 4, 5, 5, 6, 4, 5, 5, 6, 5, 6, 6, 7,
     2, 3, 3, 4, 3, 4, 4, 5, 3, 4, 4, 5, 4, 5, 5, 6,
     3, 4, 4, 5, 4, 5, 5, 6, 4, 5, 5, 6, 5, 6, 6, 7,
     3, 4, 4, 5, 4, 5, 5, 6, 4, 5, 5, 6, 5, 6, 6, 7,
     4, 5, 5, 6, 5, 6, 6, 7, 5, 6, 6, 7, 6, 7, 7, 8]"

abbreviation negative_member :: string where
  "negative_member \<equiv> ''negative bitmapset member not allowed''"

subsection \<open>Operations that leave their inputs untouched\<close>

definition bms_copy :: "bitmapset \<Rightarrow> bitmapset" where
  "bms_copy a = a"

definition bms_is_empty :: "bitmapset \<Rightarrow> bool" where
  "bms_is_empty a = (case a of None \<Rightarrow> True | Some ws \<Rightarrow> list_all (\<lambda>w. w = 0) ws)"

text \<open>The loops over the words of a shorter and a longer set, word by word.\<close>

fun words_equal :: "bitmapword list \<Rightarrow> bitmapword list \<Rightarrow> bool" where
  "words_equal (s # shorter) (l # longer) = (if s \<noteq> l then False else words_equal shorter longer)"
| "words_equal [] longer = list_all (\<lambda>w. w = 0) longer"
| "words_equal (s # shorter) [] = False"

definition bms_equal :: "bitmapset \<Rightarrow> bitmapset \<Rightarrow> bool" where
  "bms_equal a b =
     (case a of
        None \<Rightarrow> (case b of None \<Rightarrow> True | Some _ \<Rightarrow> bms_is_empty b)
      | Some aw \<Rightarrow>
          (case b of None \<Rightarrow> bms_is_empty a
           | Some bw \<Rightarrow>
               if length aw \<le> length bw then words_equal aw bw else words_equal bw aw))"

definition bms_make_singleton :: "int \<Rightarrow> bitmapset ereport" where
  "bms_make_singleton x =
     (if x < 0 then Inl negative_member
      else Inr (Some ((replicate (WORDNUM x + 1) 0)[WORDNUM x := push_bit (BITNUM x) 1])))"

text \<open>\<^verbatim>\<open>for (i = 0; i < otherlen; i++) result->words[i] op= other->words[i]\<close>\<close>

fun words_update :: "(bitmapword \<Rightarrow> bitmapword \<Rightarrow> bitmapword) \<Rightarrow> bitmapword list \<Rightarrow> bitmapword list \<Rightarrow> bitmapword list" where
  "words_update f (r # result) (x # other) = f r x # words_update f result other"
| "words_update f result [] = result"
| "words_update f [] other = []"

definition bms_union :: "bitmapset \<Rightarrow> bitmapset \<Rightarrow> bitmapset" where
  "bms_union a b =
     (case a of None \<Rightarrow> bms_copy b
      | Some aw \<Rightarrow>
          (case b of None \<Rightarrow> bms_copy a
           | Some bw \<Rightarrow>
               (let (result, other) = (if length aw \<le> length bw then (bw, aw) else (aw, bw))
                in Some (words_update (OR) result other))))"

definition bms_intersect :: "bitmapset \<Rightarrow> bitmapset \<Rightarrow> bitmapset" where
  "bms_intersect a b =
     (case a of None \<Rightarrow> None
      | Some aw \<Rightarrow>
          (case b of None \<Rightarrow> None
           | Some bw \<Rightarrow>
               (let (result, other) = (if length aw \<le> length bw then (aw, bw) else (bw, aw))
                in Some (words_update (AND) result other))))"

definition bms_difference :: "bitmapset \<Rightarrow> bitmapset \<Rightarrow> bitmapset" where
  "bms_difference a b =
     (case a of None \<Rightarrow> None
      | Some aw \<Rightarrow>
          (case b of None \<Rightarrow> bms_copy a
           | Some bw \<Rightarrow> Some (words_update (\<lambda>r x. r AND NOT x) aw bw)))"

fun words_subset :: "bitmapword list \<Rightarrow> bitmapword list \<Rightarrow> bool" where
  "words_subset (a # as) (b # bs) = (if a AND NOT b \<noteq> 0 then False else words_subset as bs)"
| "words_subset (a # as) [] = (if a \<noteq> 0 then False else words_subset as [])"
| "words_subset [] bs = True"

definition bms_is_subset :: "bitmapset \<Rightarrow> bitmapset \<Rightarrow> bool" where
  "bms_is_subset a b =
     (case a of None \<Rightarrow> True
      | Some aw \<Rightarrow> (case b of None \<Rightarrow> bms_is_empty a | Some bw \<Rightarrow> words_subset aw bw))"

text \<open>
  The three loops of \<^verbatim>\<open>bms_subset_compare\<close>: over the common words, then over the extra words of
  whichever set is longer. \<open>result\<close> is the status so far; leaving a loop with
  \<^verbatim>\<open>return BMS_DIFFERENT\<close> ends the recursion.
\<close>

fun subset_compare_loop :: "BMS_Comparison \<Rightarrow> bitmapword list \<Rightarrow> bitmapword list \<Rightarrow> BMS_Comparison" where
  "subset_compare_loop result (aword # as) (bword # bs) =
     (if aword AND NOT bword \<noteq> 0 \<and> result = BMS_SUBSET1 then BMS_DIFFERENT
      else
        let result1 = (if aword AND NOT bword \<noteq> 0 then BMS_SUBSET2 else result)
        in if bword AND NOT aword \<noteq> 0 \<and> result1 = BMS_SUBSET2 then BMS_DIFFERENT
           else subset_compare_loop (if bword AND NOT aword \<noteq> 0 then BMS_SUBSET1 else result1) as bs)"
| "subset_compare_loop result (aword # as) [] =
     (if aword \<noteq> 0 then
        (if result = BMS_SUBSET1 then BMS_DIFFERENT else subset_compare_loop BMS_SUBSET2 as [])
      else subset_compare_loop result as [])"
| "subset_compare_loop result [] (bword # bs) =
     (if bword \<noteq> 0 then
        (if result = BMS_SUBSET2 then BMS_DIFFERENT else subset_compare_loop BMS_SUBSET1 [] bs)
      else subset_compare_loop result [] bs)"
| "subset_compare_loop result [] [] = result"

definition bms_subset_compare :: "bitmapset \<Rightarrow> bitmapset \<Rightarrow> BMS_Comparison" where
  "bms_subset_compare a b =
     (case a of
        None \<Rightarrow> (case b of None \<Rightarrow> BMS_EQUAL
                 | Some _ \<Rightarrow> if bms_is_empty b then BMS_EQUAL else BMS_SUBSET1)
      | Some aw \<Rightarrow>
          (case b of None \<Rightarrow> if bms_is_empty a then BMS_EQUAL else BMS_SUBSET2
           | Some bw \<Rightarrow> subset_compare_loop BMS_EQUAL aw bw))"

definition test_bit_of :: "bitmapword list \<Rightarrow> int \<Rightarrow> bool" where
  "test_bit_of ws x = (if WORDNUM x \<ge> length ws then False
                       else (ws ! WORDNUM x) AND push_bit (BITNUM x) 1 \<noteq> 0)"

definition bms_is_member :: "int \<Rightarrow> bitmapset \<Rightarrow> bool ereport" where
  "bms_is_member x a =
     (if x < 0 then Inl negative_member
      else case a of None \<Rightarrow> Inr False | Some ws \<Rightarrow> Inr (test_bit_of ws x))"

fun words_overlap :: "bitmapword list \<Rightarrow> bitmapword list \<Rightarrow> bool" where
  "words_overlap (a # as) (b # bs) = (if a AND b \<noteq> 0 then True else words_overlap as bs)"
| "words_overlap _ _ = False"

definition bms_overlap :: "bitmapset \<Rightarrow> bitmapset \<Rightarrow> bool" where
  "bms_overlap a b =
     (case (a, b) of (Some aw, Some bw) \<Rightarrow> words_overlap aw bw | _ \<Rightarrow> False)"

fun overlap_list_loop :: "bitmapword list \<Rightarrow> int list \<Rightarrow> bool ereport" where
  "overlap_list_loop ws [] = Inr False"
| "overlap_list_loop ws (x # xs) =
     (if x < 0 then Inl negative_member
      else if test_bit_of ws x then Inr True else overlap_list_loop ws xs)"

definition bms_overlap_list :: "bitmapset \<Rightarrow> int list \<Rightarrow> bool ereport" where
  "bms_overlap_list a b =
     (case a of None \<Rightarrow> Inr False | Some ws \<Rightarrow> if b = [] then Inr False else overlap_list_loop ws b)"

fun words_nonempty_difference :: "bitmapword list \<Rightarrow> bitmapword list \<Rightarrow> bool" where
  "words_nonempty_difference (a # as) (b # bs) =
     (if a AND NOT b \<noteq> 0 then True else words_nonempty_difference as bs)"
| "words_nonempty_difference (a # as) [] = (if a \<noteq> 0 then True else words_nonempty_difference as [])"
| "words_nonempty_difference [] bs = False"

definition bms_nonempty_difference :: "bitmapset \<Rightarrow> bitmapset \<Rightarrow> bool" where
  "bms_nonempty_difference a b =
     (case a of None \<Rightarrow> False
      | Some aw \<Rightarrow> (case b of None \<Rightarrow> \<not> bms_is_empty a | Some bw \<Rightarrow> words_nonempty_difference aw bw))"

lemma unat_shift8_less: "w \<noteq> 0 \<Longrightarrow> unat (drop_bit 8 w) < unat w" for w :: bitmapword
proof -
  assume "w \<noteq> 0"
  then have "0 < unat w" by (simp add: unat_gt_0)
  moreover have "unat (drop_bit 8 w) = drop_bit 8 (unat w)" by (rule unat_drop_bit_eq)
  ultimately show ?thesis by (simp add: drop_bit_eq_div del: drop_bit_numeral_bit0)
qed

text \<open>
  \<^verbatim>\<open>while ((w & 255) == 0) { w >>= 8; result += 8; } result += rightmost_one_pos[w & 255];\<close>
  The C loop would not end at zero; every caller has tested \<^verbatim>\<open>w != 0\<close>, and at zero the model stops.
\<close>

function scan_bytes :: "bitmapword \<Rightarrow> nat \<Rightarrow> nat" where
  "scan_bytes w result =
     (if w \<noteq> 0 \<and> w AND 255 = 0 then scan_bytes (drop_bit 8 w) (result + 8)
      else result + rightmost_one_pos ! unat (w AND 255))"
  by pat_completeness auto
termination
  by (relation "measure (\<lambda>(w, _). unat w)") (auto simp: unat_shift8_less)

declare scan_bytes.simps [simp del]

fun singleton_loop :: "bitmapword list \<Rightarrow> nat \<Rightarrow> nat option \<Rightarrow> nat option ereport" where
  "singleton_loop [] wordnum result = Inr result"
| "singleton_loop (w # ws) wordnum result =
     (if w \<noteq> 0 then
        (if result \<noteq> None \<or> HAS_MULTIPLE_ONES w then Inl ''bitmapset has multiple members''
         else singleton_loop ws (Suc wordnum) (Some (scan_bytes w (wordnum * BITS_PER_BITMAPWORD))))
      else singleton_loop ws (Suc wordnum) result)"

definition bms_singleton_member :: "bitmapset \<Rightarrow> nat ereport" where
  "bms_singleton_member a =
     (case a of None \<Rightarrow> Inl ''bitmapset is empty''
      | Some ws \<Rightarrow>
          (case singleton_loop ws 0 None of
             Inl e \<Rightarrow> Inl e
           | Inr None \<Rightarrow> Inl ''bitmapset is empty''
           | Inr (Some result) \<Rightarrow> Inr result))"

text \<open>\<^verbatim>\<open>bms_get_singleton_member\<close> returns a flag and, when it is set, writes \<^verbatim>\<open>*member\<close>.\<close>

definition bms_get_singleton_member :: "bitmapset \<Rightarrow> nat option" where
  "bms_get_singleton_member a =
     (case a of None \<Rightarrow> None
      | Some ws \<Rightarrow> (case singleton_loop ws 0 None of Inl e \<Rightarrow> None | Inr r \<Rightarrow> r))"

text \<open>\<^verbatim>\<open>while (w != 0) { result += number_of_ones[w & 255]; w >>= 8; }\<close>\<close>

function count_bytes :: "bitmapword \<Rightarrow> nat \<Rightarrow> nat" where
  "count_bytes w result =
     (if w \<noteq> 0 then count_bytes (drop_bit 8 w) (result + number_of_ones ! unat (w AND 255))
      else result)"
  by pat_completeness auto
termination
  by (relation "measure (\<lambda>(w, _). unat w)") (auto simp: unat_shift8_less)

declare count_bytes.simps [simp del]

definition bms_num_members :: "bitmapset \<Rightarrow> nat" where
  "bms_num_members a =
     (case a of None \<Rightarrow> 0 | Some ws \<Rightarrow> foldl (\<lambda>result w. count_bytes w result) 0 ws)"

fun membership_loop :: "bitmapword list \<Rightarrow> BMS_Membership \<Rightarrow> BMS_Membership" where
  "membership_loop [] result = result"
| "membership_loop (w # ws) result =
     (if w \<noteq> 0 then
        (if result \<noteq> BMS_EMPTY_SET \<or> HAS_MULTIPLE_ONES w then BMS_MULTIPLE
         else membership_loop ws BMS_SINGLETON)
      else membership_loop ws result)"

definition bms_membership :: "bitmapset \<Rightarrow> BMS_Membership" where
  "bms_membership a = (case a of None \<Rightarrow> BMS_EMPTY_SET | Some ws \<Rightarrow> membership_loop ws BMS_EMPTY_SET)"

subsection \<open>Operations that recycle their inputs\<close>

definition bms_add_member :: "bitmapset \<Rightarrow> int \<Rightarrow> bitmapset ereport" where
  "bms_add_member a x =
     (if x < 0 then Inl negative_member
      else case a of None \<Rightarrow> bms_make_singleton x
      | Some ws \<Rightarrow>
          (let wordnum = WORDNUM x;
               ws' = (if wordnum \<ge> length ws then ws @ replicate (wordnum + 1 - length ws) 0 else ws)
           in Inr (Some (ws'[wordnum := (ws' ! wordnum) OR push_bit (BITNUM x) 1]))))"

definition bms_del_member :: "bitmapset \<Rightarrow> int \<Rightarrow> bitmapset ereport" where
  "bms_del_member a x =
     (if x < 0 then Inl negative_member
      else case a of None \<Rightarrow> Inr None
      | Some ws \<Rightarrow>
          (if WORDNUM x < length ws
           then Inr (Some (ws[WORDNUM x := (ws ! WORDNUM x) AND NOT (push_bit (BITNUM x) 1)]))
           else Inr (Some ws)))"

definition bms_add_members :: "bitmapset \<Rightarrow> bitmapset \<Rightarrow> bitmapset" where
  "bms_add_members a b =
     (case a of None \<Rightarrow> bms_copy b
      | Some aw \<Rightarrow>
          (case b of None \<Rightarrow> a
           | Some bw \<Rightarrow>
               (let (result, other) = (if length aw < length bw then (bw, aw) else (aw, bw))
                in Some (words_update (OR) result other))))"

definition bms_int_members :: "bitmapset \<Rightarrow> bitmapset \<Rightarrow> bitmapset" where
  "bms_int_members a b =
     (case a of None \<Rightarrow> None
      | Some aw \<Rightarrow>
          (case b of None \<Rightarrow> None
           | Some bw \<Rightarrow>
               (let shortlen = min (length aw) (length bw)
                in Some (words_update (AND) (take shortlen aw) bw @ replicate (length aw - shortlen) 0))))"

definition bms_del_members :: "bitmapset \<Rightarrow> bitmapset \<Rightarrow> bitmapset" where
  "bms_del_members a b =
     (case a of None \<Rightarrow> None
      | Some aw \<Rightarrow>
          (case b of None \<Rightarrow> a
           | Some bw \<Rightarrow> Some (words_update (\<lambda>r x. r AND NOT x) aw bw)))"

definition bms_join :: "bitmapset \<Rightarrow> bitmapset \<Rightarrow> bitmapset" where
  "bms_join a b =
     (case a of None \<Rightarrow> b
      | Some aw \<Rightarrow>
          (case b of None \<Rightarrow> a
           | Some bw \<Rightarrow>
               (let (result, other) = (if length aw < length bw then (bw, aw) else (aw, bw))
                in Some (words_update (OR) result other))))"

text \<open>The result of \<^verbatim>\<open>bms_first_member\<close> is the number it returns (-1 for none) and the modified set.\<close>

fun first_member_loop :: "bitmapword list \<Rightarrow> nat \<Rightarrow> int \<times> bitmapword list" where
  "first_member_loop [] wordnum = (- 1, [])"
| "first_member_loop (w # ws) wordnum =
     (if w \<noteq> 0 then
        (int (scan_bytes (RIGHTMOST_ONE w) (wordnum * BITS_PER_BITMAPWORD)),
         (w AND NOT (RIGHTMOST_ONE w)) # ws)
      else let (r, ws') = first_member_loop ws (Suc wordnum) in (r, w # ws'))"

definition bms_first_member :: "bitmapset \<Rightarrow> int \<times> bitmapset" where
  "bms_first_member a =
     (case a of None \<Rightarrow> (- 1, None)
      | Some ws \<Rightarrow> let (r, ws') = first_member_loop ws 0 in (r, Some ws'))"

text \<open>
  \<^verbatim>\<open>bms_next_member\<close>: the loop starts at the word of \<^verbatim>\<open>prevbit + 1\<close> with the mask that drops the
  bits before it; later words use the full mask.
\<close>

fun next_member_loop :: "bitmapword list \<Rightarrow> nat \<Rightarrow> bitmapword \<Rightarrow> int" where
  "next_member_loop [] wordnum msk = - 2"
| "next_member_loop (w # ws) wordnum msk =
     (if w AND msk \<noteq> 0 then int (scan_bytes (w AND msk) (wordnum * BITS_PER_BITMAPWORD))
      else next_member_loop ws (Suc wordnum) (NOT 0))"

definition bms_next_member :: "bitmapset \<Rightarrow> int \<Rightarrow> int" where
  "bms_next_member a prevbit =
     (case a of None \<Rightarrow> - 2
      | Some ws \<Rightarrow>
          next_member_loop (drop (WORDNUM (prevbit + 1)) ws) (WORDNUM (prevbit + 1))
            (push_bit (BITNUM (prevbit + 1)) (NOT 0)))"

text \<open>
  \<^verbatim>\<open>bms_hash_value\<close> strips trailing zero words and applies \<^verbatim>\<open>hash_any\<close> to the bytes of the rest;
  the hash function is an argument.
\<close>

definition bms_hash_value :: "(bitmapword list \<Rightarrow> 32 word) \<Rightarrow> bitmapset \<Rightarrow> 32 word" where
  "bms_hash_value hash_any a =
     (case a of None \<Rightarrow> 0
      | Some ws \<Rightarrow>
          (let kept = rev (dropWhile (\<lambda>w. w = 0) (rev ws))
           in if kept = [] then 0 else hash_any kept))"

subsection \<open>The set a bitmapset stands for\<close>

definition words_bit :: "bitmapword list \<Rightarrow> nat \<Rightarrow> bool" where
  "words_bit ws x \<longleftrightarrow> x div 32 < length ws \<and> bit (ws ! (x div 32)) (x mod 32)"

definition bms_set :: "bitmapset \<Rightarrow> nat set" where
  "bms_set a = (case a of None \<Rightarrow> {} | Some ws \<Rightarrow> {x. words_bit ws x})"

lemma bms_set_simps [simp]:
  "bms_set None = {}" "x \<in> bms_set (Some ws) \<longleftrightarrow> words_bit ws x"
  by (simp_all add: bms_set_def)

lemma words_bit_Nil [simp]: "\<not> words_bit [] x"
  by (simp add: words_bit_def)

lemma words_bit_Cons [simp]:
  "words_bit (w # ws) x \<longleftrightarrow> (if x < 32 then bit w x else words_bit ws (x - 32))"
  by (cases "x < 32") (auto simp: words_bit_def le_div_geq le_mod_geq)

lemma bit_lt_32: "bit (w :: bitmapword) n \<Longrightarrow> n < 32"
  using bit_imp_le_length [of w n] by simp

text \<open>A fact about all numbers splits into one about the first word and one about the rest.\<close>

lemma all_words_split: "(\<forall>x. P x) \<longleftrightarrow> (\<forall>x < 32. P x) \<and> (\<forall>x. P (x + (32::nat)))"
  by (metis add.commute le_add_diff_inverse not_less)

lemma words_bit_shift [simp]: "words_bit (w # ws) (x + 32) = words_bit ws x"
  by simp

lemma word_eq_32: "a = b \<longleftrightarrow> (\<forall>x < 32. bit a x = bit b x)" for a b :: bitmapword
  using bit_lt_32 by (auto simp: bit_eq_iff)

lemma words_bit_zero: "list_all (\<lambda>w. w = 0) ws \<longleftrightarrow> (\<forall>x. \<not> words_bit ws x)"
proof (induction ws)
  case (Cons w ws)
  then show ?case by (subst all_words_split) (auto simp: word_eq_32 [of w 0])
qed simp

lemma and_not_eq_0: "a AND NOT b = 0 \<longleftrightarrow> (\<forall>x < 32. bit a x \<longrightarrow> bit b x)" for a b :: bitmapword
  using bit_lt_32 [of a] by (auto simp: bit_eq_iff bit_and_iff bit_not_iff)

lemma and_eq_0: "a AND b = 0 \<longleftrightarrow> (\<forall>x < 32. \<not> (bit a x \<and> bit b x))" for a b :: bitmapword
  using bit_lt_32 [of a] by (auto simp: bit_eq_iff bit_and_iff)

lemma words_equal_iff:
  "length s \<le> length l \<Longrightarrow> words_equal s l \<longleftrightarrow> (\<forall>x. words_bit s x = words_bit l x)"
proof (induction s l rule: words_equal.induct)
  case (1 s shorter l longer)
  then show ?case
    by (subst all_words_split) (auto simp: word_eq_32 [of s l])
qed (auto simp: words_bit_zero)

lemma words_subset_iff: "words_subset a b \<longleftrightarrow> (\<forall>x. words_bit a x \<longrightarrow> words_bit b x)"
proof (induction a b rule: words_subset.induct)
  case (1 a as b bs)
  then show ?case by (subst all_words_split) (auto simp: and_not_eq_0)
next
  case (2 a as)
  then show ?case by (subst all_words_split) (auto simp: word_eq_32 [of a 0])
qed simp

lemma words_nonempty_difference_iff: "words_nonempty_difference a b \<longleftrightarrow> \<not> words_subset a b"
  by (induction a b rule: words_nonempty_difference.induct) auto

lemma words_overlap_iff: "words_overlap a b \<longleftrightarrow> \<not> (\<forall>x. \<not> (words_bit a x \<and> words_bit b x))"
proof (induction a b rule: words_overlap.induct)
  case (1 a as b bs)
  then show ?case by (subst all_words_split) (auto simp: and_eq_0)
qed auto

lemma words_bit_update:
  "(\<And>p q n. n < 32 \<Longrightarrow> bit (f p q) n \<longleftrightarrow> F (bit p n) (bit q n)) \<Longrightarrow>
   words_bit (words_update f r s) x \<longleftrightarrow>
     (if x div 32 < length r \<and> x div 32 < length s then F (words_bit r x) (words_bit s x)
      else words_bit r x)"
proof (induction f r s arbitrary: x rule: words_update.induct)
  case (1 f r result y other)
  then show ?case by (cases "x < 32") (auto simp: le_div_geq)
qed (auto simp: words_bit_def)

lemma words_bit_beyond: "length ws \<le> x div 32 \<Longrightarrow> \<not> words_bit ws x"
  by (simp add: words_bit_def)

lemma or_bits: "n < 32 \<Longrightarrow> bit (p OR q) n \<longleftrightarrow> bit p n \<or> bit q n" for p q :: bitmapword
  by (simp add: bit_or_iff)

lemma and_bits: "n < 32 \<Longrightarrow> bit (p AND q) n \<longleftrightarrow> bit p n \<and> bit q n" for p q :: bitmapword
  by (simp add: bit_and_iff)

lemma diff_bits: "n < 32 \<Longrightarrow> bit (p AND NOT q) n \<longleftrightarrow> bit p n \<and> \<not> bit q n" for p q :: bitmapword
  by (simp add: bit_and_iff bit_not_iff)

lemma words_or:
  "length s \<le> length r \<Longrightarrow> words_bit (words_update (OR) r s) x \<longleftrightarrow> words_bit r x \<or> words_bit s x"
  using words_bit_beyond [of s x]
  by (subst words_bit_update [where F = "(\<or>)"]) (auto simp: or_bits dest: words_bit_beyond)

lemma words_and:
  "length r \<le> length s \<Longrightarrow> words_bit (words_update (AND) r s) x \<longleftrightarrow> words_bit r x \<and> words_bit s x"
  using words_bit_beyond [of r x]
  by (subst words_bit_update [where F = "(\<and>)"]) (auto simp: and_bits not_less)

lemma words_diff:
  "words_bit (words_update (\<lambda>r x. r AND NOT x) r s) x \<longleftrightarrow> words_bit r x \<and> \<not> words_bit s x"
  using words_bit_beyond [of r x] words_bit_beyond [of s x]
  by (subst words_bit_update [where F = "\<lambda>p q. p \<and> \<not> q"]) (auto simp: diff_bits not_less)

subsection \<open>The byte tables and the scans that use them\<close>

lemma rightmost_table:
  "list_all2 (\<lambda>(b::int) p. bit b p \<and> list_all (\<lambda>n. \<not> bit b n) [0..<p]) [1..255] (tl rightmost_one_pos)"
  by code_simp

lemma ones_table:
  "list_all2 (\<lambda>(b::int) c. c = length (filter (bit b) [0..<8])) [0..255] number_of_ones"
  by code_simp

lemma byte_bit: "bit (unat (w AND 255)) n \<longleftrightarrow> n < 8 \<and> bit w n" for w :: bitmapword
proof -
  have "w AND 255 = take_bit 8 w" using take_bit_eq_mask [of 8 w] by (simp add: mask_numeral)
  then show ?thesis using bit_lt_32 [of w n] by (auto simp: bit_unsigned_iff bit_take_bit_iff)
qed

lemma byte_less: "unat (w AND 255) < 256" for w :: bitmapword
proof -
  have "w AND 255 = take_bit 8 w" using take_bit_eq_mask [of 8 w] by (simp add: mask_numeral)
  then show ?thesis using take_bit_nat_less_exp [of 8 "unat w"] by (simp add: unsigned_take_bit_eq)
qed

lemma rightmost_one_pos_correct:
  assumes "0 < b" "b < 256"
  shows "bit b (rightmost_one_pos ! b) \<and> (\<forall>n < rightmost_one_pos ! b. \<not> bit b n)"
proof -
  have "(\<lambda>(b::int) p. bit b p \<and> list_all (\<lambda>n. \<not> bit b n) [0..<p])
          ([1..255] ! (b - 1)) (tl rightmost_one_pos ! (b - 1))"
    by (rule list_all2_nthD [OF rightmost_table]) (use assms in simp)
  moreover have "[1..255] ! (b - 1) = int b" using assms by (simp add: nth_upto)
  moreover have "tl rightmost_one_pos ! (b - 1) = rightmost_one_pos ! b"
    using assms by (simp add: nth_tl rightmost_one_pos_def del: nth_Cons')
  ultimately show ?thesis by (auto simp: list_all_iff bit_of_nat_iff)
qed

lemma number_of_ones_correct:
  assumes "b < 256"
  shows "number_of_ones ! b = length (filter (bit b) [0..<8])"
proof -
  have "number_of_ones ! b = length (filter (bit ([0..255::int] ! b)) [0..<8])"
    by (rule list_all2_nthD [OF ones_table]) (use assms in simp)
  moreover have "bit (int b) = bit b" by (auto simp: bit_of_nat_iff)
  ultimately show ?thesis using assms by (simp add: nth_upto del: upt_rec_numeral)
qed

definition lowest_bit :: "bitmapword \<Rightarrow> nat \<Rightarrow> bool" where
  "lowest_bit w n \<longleftrightarrow> bit w n \<and> (\<forall>m < n. \<not> bit w m)"

lemma lowest_bit_exists: "w \<noteq> 0 \<Longrightarrow> \<exists>n. lowest_bit w n"
  unfolding lowest_bit_def using exists_least_iff [of "bit w"] by (auto simp: bit_eq_iff)

lemma scan_bytes_lowest: "w \<noteq> 0 \<Longrightarrow> \<exists>n. lowest_bit w n \<and> scan_bytes w r = r + n"
proof (induction w r rule: scan_bytes.induct)
  case (1 w r)
  show ?case
  proof (cases "w AND 255 = 0")
    case True
    then have low: "\<not> bit w n" if "n < 8" for n using byte_bit [of w n] that by simp
    have "drop_bit 8 w \<noteq> 0"
    proof
      assume *: "drop_bit 8 w = 0"
      have "\<not> bit w n" for n
        using arg_cong [OF *, where f = "\<lambda>v. bit v (n - 8)"] low [of n]
        by (cases "n < 8") (auto simp: bit_drop_bit_eq simp del: drop_bit_numeral_bit0)
      then show False using 1(2) by (auto simp: bit_eq_iff)
    qed
    with 1 True obtain n where n: "lowest_bit (drop_bit 8 w) n"
      "scan_bytes (drop_bit 8 w) (r + 8) = r + 8 + n" by auto
    have "lowest_bit w (8 + n)"
      unfolding lowest_bit_def
    proof (intro conjI allI impI)
      show "bit w (8 + n)" using n by (simp add: lowest_bit_def bit_drop_bit_eq)
      show "\<not> bit w m" if "m < 8 + n" for m
      proof (cases "m < 8")
        case False
        then have "\<not> bit (drop_bit 8 w) (m - 8)" using n that by (auto simp: lowest_bit_def)
        then show ?thesis using False by (simp add: bit_drop_bit_eq)
      qed (rule low)
    qed
    then show ?thesis using n True 1(2) by (subst scan_bytes.simps) auto
  next
    case False
    then have "0 < unat (w AND 255)" by (simp add: unat_gt_0)
    from rightmost_one_pos_correct [OF this byte_less]
    have "lowest_bit w (rightmost_one_pos ! unat (w AND 255))"
      by (auto simp: lowest_bit_def byte_bit)
    then show ?thesis using False by (subst scan_bytes.simps) auto
  qed
qed

lemma lowest_bit_unique: "lowest_bit w m \<Longrightarrow> lowest_bit w n \<Longrightarrow> m = n"
  by (metis lowest_bit_def linorder_neqE_nat)

lemma scan_bytes_eq: "lowest_bit w n \<Longrightarrow> scan_bytes w r = r + n"
proof -
  assume *: "lowest_bit w n"
  then have "w \<noteq> 0" by (auto simp: lowest_bit_def)
  from scan_bytes_lowest [OF this] show ?thesis using lowest_bit_unique [OF *] by auto
qed

lemma bit_minus_one:
  assumes "lowest_bit w k"
  shows "bit (w - 1) n \<longleftrightarrow> n < k \<or> (k < n \<and> bit w n)"
proof -
  let ?h = "w AND NOT (push_bit k 1)"
  have k: "bit w k" "k < 32" "\<And>m. m < k \<Longrightarrow> \<not> bit w m"
    using assms bit_lt_32 by (auto simp: lowest_bit_def)
  have "w = ?h OR push_bit k 1"
    using k by (auto simp: word_eq_32 bit_or_iff bit_and_iff bit_not_iff bit_exp_iff)
  also have "\<dots> = ?h + push_bit k 1"
    by (rule disjunctive_add_eq_or [symmetric]) (simp add: and.assoc)
  finally have "w - 1 = ?h + mask k" by (simp add: mask_eq_exp_minus_1 push_bit_eq_mult)
  also have "\<dots> = ?h OR mask k"
    by (rule disjunctive_add_eq_or) (use k in \<open>auto simp: bit_eq_iff bit_and_iff bit_mask_iff\<close>)
  finally show ?thesis using k bit_lt_32 [of w n]
    by (auto simp: bit_or_iff bit_and_iff bit_not_iff bit_mask_iff bit_exp_iff)
qed

lemma bit_rightmost_one:
  assumes "lowest_bit w k"
  shows "bit (RIGHTMOST_ONE w) n \<longleftrightarrow> n = k"
proof -
  have "- w = NOT (w - 1)" by (simp add: not_eq_complement)
  then show ?thesis using bit_minus_one [OF assms, of n] assms bit_lt_32 [of w n]
    by (auto simp: RIGHTMOST_ONE_def bit_and_iff bit_not_iff lowest_bit_def)
qed

lemma finite_bits [simp]: "finite {n. bit (w :: bitmapword) n}"
  by (rule finite_subset [of _ "{..<32}"]) (auto dest: bit_lt_32)

lemma number_of_ones_card: "number_of_ones ! unat (w AND 255) = card {n. n < 8 \<and> bit w n}" for w :: bitmapword
proof -
  have "length (filter (bit (unat (w AND 255))) [0..<8]) = card {n. n < 8 \<and> bit w n}"
    by (simp add: length_filter_conv_card byte_bit cong: conj_cong del: upt_rec_numeral)
  then show ?thesis using number_of_ones_correct [OF byte_less [of w]] by simp
qed

lemma bits_split_byte:
  "{n. bit w n} = {n. n < 8 \<and> bit w n} \<union> (\<lambda>n. n + 8) ` {n. bit (drop_bit 8 w) n}" for w :: bitmapword
proof (intro set_eqI iffI)
  fix n assume n: "n \<in> {n. bit w n}"
  show "n \<in> {n. n < 8 \<and> bit w n} \<union> (\<lambda>n. n + 8) ` {n. bit (drop_bit 8 w) n}"
  proof (cases "n < 8")
    case False
    then have "n = (n - 8) + 8" "bit (drop_bit 8 w) (n - 8)" using n by (auto simp: bit_drop_bit_eq)
    then show ?thesis by blast
  qed (use n in simp)
qed (auto simp: bit_drop_bit_eq add.commute simp del: drop_bit_numeral_bit0)

lemma card_bits_split:
  "card {n. bit w n} = card {n. n < 8 \<and> bit w n} + card {n. bit (drop_bit 8 w) n}" for w :: bitmapword
  by (subst bits_split_byte, subst card_Un_disjoint) (auto simp: card_image)

lemma count_bytes_card: "count_bytes w r = r + card {n. bit w n}"
proof (induction w r rule: count_bytes.induct)
  case (1 w r)
  then show ?case using number_of_ones_card [of w] card_bits_split [of w]
    by (subst count_bytes.simps) (auto simp del: drop_bit_numeral_bit0)
qed

subsection \<open>Predicates\<close>

lemma bms_is_empty_iff: "bms_is_empty a \<longleftrightarrow> bms_set a = {}"
  by (cases a) (auto simp: bms_is_empty_def words_bit_zero)

lemma bms_equal_iff: "bms_equal a b \<longleftrightarrow> bms_set a = bms_set b"
proof (cases a)
  case (Some aw)
  show ?thesis
  proof (cases b)
    case (Some bw)
    then show ?thesis using \<open>a = Some aw\<close> by (auto simp: bms_equal_def words_equal_iff)
  qed (use Some in \<open>auto simp: bms_equal_def bms_is_empty_iff\<close>)
qed (auto simp: bms_equal_def bms_is_empty_iff split: option.split)

lemma bms_is_subset_iff: "bms_is_subset a b \<longleftrightarrow> bms_set a \<subseteq> bms_set b"
  by (auto simp: bms_is_subset_def bms_is_empty_iff words_subset_iff split: option.split)

lemma bms_overlap_iff: "bms_overlap a b \<longleftrightarrow> bms_set a \<inter> bms_set b \<noteq> {}"
  by (auto simp: bms_overlap_def words_overlap_iff disjoint_iff split: option.split)

lemma bms_nonempty_difference_iff: "bms_nonempty_difference a b \<longleftrightarrow> bms_set a - bms_set b \<noteq> {}"
  by (auto simp: bms_nonempty_difference_def bms_is_empty_iff words_nonempty_difference_iff
      words_subset_iff split: option.split)

text \<open>The status of \<open>subset_compare_loop\<close> as the pair of the two inclusions established so far.\<close>

definition comparison_of :: "bool \<Rightarrow> bool \<Rightarrow> BMS_Comparison" where
  "comparison_of le ge = (if le then (if ge then BMS_EQUAL else BMS_SUBSET1)
                          else (if ge then BMS_SUBSET2 else BMS_DIFFERENT))"

lemma subset_compare_loop_left:
  "le \<or> ge \<Longrightarrow> subset_compare_loop (comparison_of le ge) a [] = comparison_of (le \<and> words_subset a []) ge"
proof (induction a arbitrary: le)
  case (Cons aw as)
  from Cons(2) Cons(1) [of False] Cons(1) [of le] show ?case
    by (cases "aw = 0"; cases le; cases ge) (simp_all add: comparison_of_def)
qed simp

lemma subset_compare_loop_right:
  "le \<or> ge \<Longrightarrow> subset_compare_loop (comparison_of le ge) [] b = comparison_of le (ge \<and> words_subset b [])"
proof (induction b arbitrary: ge)
  case (Cons bw bs)
  from Cons(2) Cons(1) [of False] Cons(1) [of ge] show ?case
    by (cases "bw = 0"; cases le; cases ge) (simp_all add: comparison_of_def)
qed simp

lemma subset_compare_loop_eq:
  "le \<or> ge \<Longrightarrow> subset_compare_loop (comparison_of le ge) a b =
     comparison_of (le \<and> words_subset a b) (ge \<and> words_subset b a)"
proof (induction a b arbitrary: le ge rule: list_induct2')
  case (4 aw as bw bs)
  from 4(2) 4(1) [of "le \<and> aw AND NOT bw = 0" "ge \<and> bw AND NOT aw = 0"] show ?case
    by (cases "aw AND NOT bw = 0"; cases "bw AND NOT aw = 0"; cases le; cases ge)
      (simp_all add: comparison_of_def)
next
  case (2 aw as)
  then show ?case using subset_compare_loop_left [of le ge "aw # as"] by simp
next
  case (3 bw bs)
  then show ?case using subset_compare_loop_right [of le ge "bw # bs"] by simp
qed simp

lemma bms_subset_compare_eq:
  "bms_subset_compare a b = comparison_of (bms_set a \<subseteq> bms_set b) (bms_set b \<subseteq> bms_set a)"
proof (cases a)
  case (Some aw)
  show ?thesis
  proof (cases b)
    case (Some bw)
    then show ?thesis using \<open>a = Some aw\<close> subset_compare_loop_eq [of True True aw bw]
      by (simp add: bms_subset_compare_def comparison_of_def words_subset_iff subset_iff)
  qed (use Some in \<open>auto simp: bms_subset_compare_def bms_is_empty_iff comparison_of_def\<close>)
qed (auto simp: bms_subset_compare_def bms_is_empty_iff comparison_of_def split: option.split)

subsection \<open>Members\<close>

lemma test_bit_of_iff: "0 \<le> x \<Longrightarrow> test_bit_of ws x \<longleftrightarrow> words_bit ws (nat x)"
  by (auto simp: test_bit_of_def words_bit_def WORDNUM_def BITNUM_def BITS_PER_BITMAPWORD_def
      and_exp_eq_0_iff_not_bit)

lemma bms_is_member_eq:
  "bms_is_member x a = (if x < 0 then Inl negative_member else Inr (nat x \<in> bms_set a))"
  by (auto simp: bms_is_member_def test_bit_of_iff split: option.split)

lemma overlap_list_loop_eq:
  "\<forall>x \<in> set xs. 0 \<le> x \<Longrightarrow> overlap_list_loop ws xs = Inr (\<exists>x \<in> set xs. words_bit ws (nat x))"
  by (induction xs) (auto simp: test_bit_of_iff)

lemma words_bit_list_update:
  "i < length ws \<Longrightarrow> words_bit (ws[i := v]) x \<longleftrightarrow> (if x div 32 = i then bit v (x mod 32) else words_bit ws x)"
  by (auto simp: words_bit_def)

lemma div_mod_32: "x div 32 = n div 32 \<Longrightarrow> x mod 32 = n mod 32 \<longleftrightarrow> x = (n::nat)"
  by (metis div_mult_mod_eq)

lemma words_bit_append_zeros: "words_bit (ws @ replicate n 0) x \<longleftrightarrow> words_bit ws x"
  by (auto simp: words_bit_def nth_append)

lemma words_bit_zeros: "\<not> words_bit (replicate n 0) x"
  by (auto simp: words_bit_def)

lemmas bit_position = WORDNUM_def BITNUM_def BITS_PER_BITMAPWORD_def

lemma words_bit_single:
  "words_bit ((replicate (Suc (n div 32)) 0)[n div 32 := 2 ^ (n mod 32)]) x \<longleftrightarrow> x = n"
  by (subst words_bit_list_update) (auto simp: words_bit_zeros bit_exp_iff div_mod_32 simp del: replicate_Suc)

lemma bms_make_singleton_set:
  "0 \<le> x \<Longrightarrow> \<exists>s. bms_make_singleton x = Inr s \<and> bms_set s = {nat x}"
  by (auto simp: bms_make_singleton_def bit_position words_bit_single set_eq_iff
      simp del: replicate_Suc list_update.simps)

lemma words_bit_set:
  "n div 32 < length ws \<Longrightarrow>
   words_bit (ws[n div 32 := ws ! (n div 32) OR 2 ^ (n mod 32)]) x \<longleftrightarrow> x = n \<or> words_bit ws x"
  using div_mod_32 [of x n]
  by (subst words_bit_list_update) (auto simp: bit_or_iff bit_exp_iff words_bit_def)

lemma words_bit_clear:
  "n div 32 < length ws \<Longrightarrow>
   words_bit (ws[n div 32 := ws ! (n div 32) AND NOT (2 ^ (n mod 32))]) x \<longleftrightarrow> x \<noteq> n \<and> words_bit ws x"
  using div_mod_32 [of x n]
  by (subst words_bit_list_update) (auto simp: bit_and_iff bit_not_iff bit_exp_iff words_bit_def)

lemma bms_add_member_set:
  "0 \<le> x \<Longrightarrow> \<exists>s. bms_add_member a x = Inr s \<and> bms_set s = insert (nat x) (bms_set a)"
proof (cases a)
  case (Some ws)
  assume "0 \<le> x"
  then show ?thesis
    using Some words_bit_set [of "nat x" ws]
      words_bit_set [of "nat x" "ws @ replicate (Suc (nat x div 32) - length ws) 0"]
    by (auto simp: bms_add_member_def Let_def bit_position words_bit_append_zeros set_eq_iff)
qed (use bms_make_singleton_set in \<open>auto simp: bms_add_member_def\<close>)

lemma bms_del_member_set:
  "0 \<le> x \<Longrightarrow> \<exists>s. bms_del_member a x = Inr s \<and> bms_set s = bms_set a - {nat x}"
proof (cases a)
  case (Some ws)
  assume "0 \<le> x"
  then show ?thesis using Some words_bit_clear [of "nat x" ws] words_bit_beyond [of ws "nat x"]
    by (auto simp: bms_del_member_def bit_position set_eq_iff)
qed (simp add: bms_del_member_def)

subsection \<open>Set algebra\<close>

lemma bms_union_set: "bms_set (bms_union a b) = bms_set a \<union> bms_set b"
  by (auto simp: bms_union_def bms_copy_def words_or set_eq_iff split: option.split)

lemma bms_add_members_set: "bms_set (bms_add_members a b) = bms_set a \<union> bms_set b"
  by (auto simp: bms_add_members_def bms_copy_def words_or set_eq_iff split: option.split)

lemma bms_join_set: "bms_set (bms_join a b) = bms_set a \<union> bms_set b"
  by (auto simp: bms_join_def words_or set_eq_iff split: option.split)

lemma bms_intersect_set: "bms_set (bms_intersect a b) = bms_set a \<inter> bms_set b"
  by (auto simp: bms_intersect_def words_and set_eq_iff split: option.split)

lemma bms_difference_set: "bms_set (bms_difference a b) = bms_set a - bms_set b"
  by (auto simp: bms_difference_def bms_copy_def words_diff set_eq_iff split: option.split)

lemma bms_del_members_set: "bms_set (bms_del_members a b) = bms_set a - bms_set b"
  by (auto simp: bms_del_members_def words_diff set_eq_iff split: option.split)

lemma words_bit_length: "words_bit ws x \<Longrightarrow> x div 32 < length ws"
  by (simp add: words_bit_def)

lemma words_bit_take: "words_bit (take n ws) x \<longleftrightarrow> x div 32 < n \<and> words_bit ws x"
  by (auto simp: words_bit_def)

lemma bms_int_members_set: "bms_set (bms_int_members a b) = bms_set a \<inter> bms_set b"
  by (auto simp: bms_int_members_def Let_def words_bit_append_zeros words_and words_bit_take set_eq_iff
      split: option.split dest: words_bit_length)

subsection \<open>Counting and searching\<close>

lemma words_set_Nil [simp]: "Collect (words_bit []) = {}"
  by simp

lemma words_set_Cons:
  "{x. words_bit (w # ws) x} = {n. bit w n} \<union> (\<lambda>x. x + 32) ` {x. words_bit ws x}"
proof (intro set_eqI iffI)
  fix x assume x: "x \<in> {x. words_bit (w # ws) x}"
  show "x \<in> {n. bit w n} \<union> (\<lambda>x. x + 32) ` {x. words_bit ws x}"
  proof (cases "x < 32")
    case False
    then have "x = (x - 32) + 32" "words_bit ws (x - 32)" using x by auto
    then show ?thesis by blast
  qed (use x in simp)
qed (auto dest: bit_lt_32)

lemma words_set_finite: "finite {x. words_bit ws x}"
proof (induction ws)
  case (Cons w ws)
  then show ?case by (simp only: words_set_Cons finite_Un finite_bits finite_imageI)
qed simp

lemma words_set_card: "card {x. words_bit (w # ws) x} = card {n. bit w n} + card {x. words_bit ws x}"
  unfolding words_set_Cons
  by (subst card_Un_disjoint) (auto simp: card_image words_set_finite dest: bit_lt_32)

lemma count_words_card: "foldl (\<lambda>result w. count_bytes w result) r ws = r + card {x. words_bit ws x}"
proof (induction ws arbitrary: r)
  case (Cons w ws)
  then show ?case by (simp only: foldl.simps count_bytes_card words_set_card add.assoc)
qed simp

lemma bms_set_finite: "finite (bms_set a)"
  by (cases a) (simp_all add: bms_set_def words_set_finite)

lemma bms_num_members_card: "bms_num_members a = card (bms_set a)"
  by (cases a) (simp_all add: bms_num_members_def bms_set_def count_words_card)

lemma bits_empty: "{n. bit w n} = {} \<longleftrightarrow> w = 0" for w :: bitmapword
  using bit_lt_32 [of w] by (auto simp: word_eq_32)

lemma has_multiple_ones_iff: "w \<noteq> 0 \<Longrightarrow> HAS_MULTIPLE_ONES w \<longleftrightarrow> card {n. bit w n} \<noteq> 1"
proof -
  assume "w \<noteq> 0"
  then obtain k where k: "lowest_bit w k" using lowest_bit_exists by blast
  have "RIGHTMOST_ONE w = w \<longleftrightarrow> {n. bit w n} = {k}"
    using bit_lt_32 [of w] bit_lt_32 [of "RIGHTMOST_ONE w"]
    unfolding word_eq_32 set_eq_iff mem_Collect_eq bit_rightmost_one [OF k] by blast
  moreover have "card {n. bit w n} = 1 \<longleftrightarrow> {n. bit w n} = {k}"
    using k by (metis One_nat_def card_1_singleton_iff lowest_bit_def mem_Collect_eq singletonD)
  ultimately show ?thesis by (simp add: HAS_MULTIPLE_ONES_def)
qed

definition membership_of :: "nat \<Rightarrow> BMS_Membership" where
  "membership_of n = (if n = 0 then BMS_EMPTY_SET else if n = 1 then BMS_SINGLETON else BMS_MULTIPLE)"

lemma membership_of_multiple: "2 \<le> n \<Longrightarrow> membership_of n = BMS_MULTIPLE"
  by (simp add: membership_of_def)

lemma card_bits_0: "card {n. bit w n} = 0 \<longleftrightarrow> w = 0" for w :: bitmapword
  using bits_empty [of w] by simp

lemma membership_loop_eq:
  "k \<le> 1 \<Longrightarrow> membership_loop ws (membership_of k) = membership_of (k + card {x. words_bit ws x})"
proof (induction ws arbitrary: k)
  case (Cons w ws)
  show ?case
  proof (cases "w = 0")
    case True
    then show ?thesis using Cons words_set_card [of w ws] card_bits_0 [of w] by simp
  next
    case False
    then have pos: "0 < card {n. bit w n}" using card_bits_0 [of w] by linarith
    consider "k = 0" "card {n. bit w n} = 1" | "2 \<le> k + card {n. bit w n}"
      using pos Cons(2) by linarith
    then show ?thesis
    proof cases
      case 1
      then show ?thesis using Cons(1) [of 1] False words_set_card [of w ws]
        by (simp add: membership_of_def has_multiple_ones_iff del: words_bit_Cons)
    next
      case 2
      then have "membership_loop (w # ws) (membership_of k) = BMS_MULTIPLE"
        using False pos Cons(2) by (auto simp: membership_of_def has_multiple_ones_iff)
      moreover have "2 \<le> k + card {x. words_bit (w # ws) x}"
        using 2 words_set_card [of w ws] by linarith
      ultimately show ?thesis by (simp only: membership_of_multiple)
    qed
  qed
qed simp

lemma bms_membership_eq: "bms_membership a = membership_of (card (bms_set a))"
proof (cases a)
  case (Some ws)
  then show ?thesis using membership_loop_eq [of 0 ws]
    by (simp add: bms_membership_def bms_set_def membership_of_def)
qed (simp add: bms_membership_def membership_of_def)

text \<open>Loops that run from word number \<open>k\<close> on see the numbers shifted by \<open>32 * k\<close>.\<close>

definition shifted :: "nat \<Rightarrow> bitmapword list \<Rightarrow> nat set" where
  "shifted k ws = (\<lambda>x. k * 32 + x) ` {x. words_bit ws x}"

lemma shifted_Nil [simp]: "shifted k [] = {}"
  by (simp add: shifted_def)

lemma shifted_Cons: "shifted k (w # ws) = (\<lambda>x. k * 32 + x) ` {n. bit w n} \<union> shifted (Suc k) ws"
  unfolding shifted_def words_set_Cons by (auto simp: image_Un image_image add_ac)

lemma shifted_0: "shifted 0 ws = bms_set (Some ws)"
  by (simp add: shifted_def bms_set_def)

lemma shifted_bound: "x \<in> shifted k ws \<Longrightarrow> k * 32 \<le> x"
  by (auto simp: shifted_def)

text \<open>The least member of the words from number \<open>k\<close> on.\<close>

lemma scan_word_least:
  assumes "w \<noteq> 0"
  shows "\<exists>x. x \<in> shifted k (w # ws) \<and> (\<forall>y \<in> shifted k (w # ws). x \<le> y) \<and> scan_bytes w (k * 32) = x
    \<and> lowest_bit w (x - k * 32) \<and> k * 32 \<le> x"
proof -
  obtain n where n: "lowest_bit w n" using lowest_bit_exists [OF assms] by blast
  have "k * 32 + n \<le> y" if "y \<in> shifted k (w # ws)" for y
  proof -
    consider m where "bit w m" "y = k * 32 + m" | "y \<in> shifted (Suc k) ws"
      using \<open>y \<in> shifted k (w # ws)\<close> by (auto simp: shifted_Cons)
    then show ?thesis
    proof cases
      case 1
      then show ?thesis using n by (auto simp: lowest_bit_def not_less [symmetric])
    next
      case 2
      then show ?thesis using shifted_bound [OF 2] n bit_lt_32 [of w n] by (auto simp: lowest_bit_def)
    qed
  qed
  moreover have "k * 32 + n \<in> shifted k (w # ws)" using n by (auto simp: shifted_Cons lowest_bit_def)
  ultimately show ?thesis using n by (intro exI [of _ "k * 32 + n"]) (auto simp: scan_bytes_eq)
qed

lemma scan_word_Min: "w \<noteq> 0 \<Longrightarrow> scan_bytes w (k * 32) = Min (shifted k (w # ws))"
proof -
  assume "w \<noteq> 0"
  from scan_word_least [OF this, of k ws] obtain x where
    "x \<in> shifted k (w # ws)" "\<forall>y \<in> shifted k (w # ws). x \<le> y" "scan_bytes w (k * 32) = x" by blast
  moreover have "finite (shifted k (w # ws))" unfolding shifted_def using words_set_finite by blast
  ultimately show ?thesis by (metis Min_eqI)
qed

lemma shifted_finite: "finite (shifted k ws)"
  unfolding shifted_def using words_set_finite by blast

lemma shifted_zero_Cons: "shifted k (0 # ws) = shifted (Suc k) ws"
  by (simp add: shifted_Cons)

lemma shifted_empty_Cons: "w \<noteq> 0 \<Longrightarrow> shifted k (w # ws) \<noteq> {}"
  using bits_empty [of w] by (simp add: shifted_Cons)

definition least_from :: "nat set \<Rightarrow> int \<Rightarrow> int" where
  "least_from S none = (if S = {} then none else int (Min S))"

lemma next_member_full: "next_member_loop ws k (NOT 0) = least_from (shifted k ws) (- 2)"
proof (induction ws arbitrary: k)
  case (Cons w ws)
  then show ?case
    by (cases "w = 0")
      (simp_all add: least_from_def shifted_zero_Cons shifted_empty_Cons BITS_PER_BITMAPWORD_def
        flip: scan_word_Min)
qed (simp add: least_from_def)

lemma next_member_masked:
  "next_member_loop ws k (push_bit j (NOT 0)) = least_from {x \<in> shifted k ws. k * 32 + j \<le> x} (- 2)"
  if "j < 32"
proof (cases ws)
  case (Cons w ws')
  let ?w = "w AND push_bit j (NOT 0)"
  have "bit ?w n \<longleftrightarrow> bit w n \<and> j \<le> n" for n
    using bit_lt_32 [of w n] by (auto simp: bit_and_iff bit_push_bit_iff bit_not_iff bit_mask_iff)
  then have "{x \<in> shifted k ws. k * 32 + j \<le> x} = shifted k (?w # ws')"
    using shifted_bound [of _ "Suc k" ws'] that by (fastforce simp: Cons shifted_Cons)
  then show ?thesis
    by (cases "?w = 0")
      (simp_all add: Cons least_from_def next_member_full [simplified] shifted_zero_Cons shifted_empty_Cons
        BITS_PER_BITMAPWORD_def scan_word_Min [of _ k ws'])
qed (simp add: least_from_def)

lemma shifted_drop: "shifted k (drop k ws) = {x \<in> bms_set (Some ws). k * 32 \<le> x}"
proof (intro set_eqI iffI)
  fix x assume x: "x \<in> {x \<in> bms_set (Some ws). k * 32 \<le> x}"
  then obtain y where "x = k * 32 + y" by (auto dest: le_Suc_ex)
  then show "x \<in> shifted k (drop k ws)" using x by (auto simp: shifted_def words_bit_def)
qed (auto simp: shifted_def words_bit_def)

lemma bms_next_member_eq:
  "- 1 \<le> p \<Longrightarrow> bms_next_member a p = least_from {x \<in> bms_set a. p < int x} (- 2)"
proof (cases a)
  case (Some ws)
  assume p: "- 1 \<le> p"
  let ?n = "nat (p + 1)"
  have "x \<ge> ?n div 32 * 32 + ?n mod 32 \<longleftrightarrow> p < int x" for x using p by (simp add: nat_le_iff) linarith
  moreover have "?n div 32 * 32 \<le> x" if "p < int x" for x
    using that p div_mult_mod_eq [of ?n 32] by linarith
  ultimately have "{x \<in> shifted (?n div 32) (drop (?n div 32) ws). ?n div 32 * 32 + ?n mod 32 \<le> x}
    = {x \<in> bms_set a. p < int x}"
    by (auto simp: shifted_drop Some)
  then show ?thesis using Some p next_member_masked [of "?n mod 32"]
    by (simp add: bms_next_member_def bit_position)
qed (simp add: bms_next_member_def least_from_def)

lemma card_shifted: "card (shifted k ws) = card {x. words_bit ws x}"
  by (simp add: shifted_def card_image)

abbreviation multiple_members :: string where
  "multiple_members \<equiv> ''bitmapset has multiple members''"

lemma singleton_loop_Some:
  "singleton_loop ws k (Some m) = (if shifted k ws = {} then Inr (Some m) else Inl multiple_members)"
proof (induction ws arbitrary: k)
  case (Cons w ws)
  then show ?case by (cases "w = 0") (simp_all add: shifted_zero_Cons shifted_empty_Cons)
qed simp

lemma singleton_loop_None:
  "singleton_loop ws k None =
     (if shifted k ws = {} then Inr None
      else if card (shifted k ws) = 1 then Inr (Some (Min (shifted k ws)))
      else Inl multiple_members)"
proof (induction ws arbitrary: k)
  case (Cons w ws)
  show ?case
  proof (cases "w = 0")
    case True
    then show ?thesis using Cons by (simp add: shifted_zero_Cons)
  next
    case False
    have c: "card (shifted k (w # ws)) = card {n. bit w n} + card (shifted (Suc k) ws)"
      using words_set_card [of w ws] by (simp only: card_shifted)
    have "card (shifted (Suc k) ws) = 0 \<longleftrightarrow> shifted (Suc k) ws = {}"
      using shifted_finite by simp
    moreover have "0 < card {n. bit w n}" using False card_bits_0 [of w] by linarith
    ultimately have "card (shifted k (w # ws)) = 1 \<longleftrightarrow>
        card {n. bit w n} = 1 \<and> shifted (Suc k) ws = {}" using c by linarith
    then show ?thesis using False scan_word_Min [OF False, of k ws]
      by (simp add: singleton_loop_Some shifted_empty_Cons has_multiple_ones_iff BITS_PER_BITMAPWORD_def)
  qed
qed simp

lemma bms_singleton_member_eq:
  "bms_singleton_member a =
     (if bms_set a = {} then Inl ''bitmapset is empty''
      else if card (bms_set a) = 1 then Inr (Min (bms_set a)) else Inl multiple_members)"
proof (cases a)
  case (Some ws)
  then show ?thesis by (simp add: bms_singleton_member_def singleton_loop_None shifted_0)
qed (simp add: bms_singleton_member_def)

lemma bms_get_singleton_member_eq:
  "bms_get_singleton_member a = (if card (bms_set a) = 1 then Some (Min (bms_set a)) else None)"
proof (cases a)
  case (Some ws)
  then show ?thesis by (auto simp: bms_get_singleton_member_def singleton_loop_None shifted_0)
qed (simp add: bms_get_singleton_member_def)

lemma first_member_loop_eq:
  "first_member_loop ws k = (r, ws') \<Longrightarrow>
   r = least_from (shifted k ws) (- 1) \<and> shifted k ws' = shifted k ws - {nat r}"
proof (induction ws arbitrary: k r ws')
  case (Cons w ws)
  show ?case
  proof (cases "w = 0")
    case True
    then show ?thesis using Cons by (auto simp: shifted_zero_Cons split: prod.splits)
  next
    case False
    then obtain n where n: "lowest_bit w n" using lowest_bit_exists by blast
    have "lowest_bit (RIGHTMOST_ONE w) n" by (auto simp: lowest_bit_def bit_rightmost_one [OF n])
    then have r: "r = int (k * 32 + n)" and ws': "ws' = (w AND NOT (RIGHTMOST_ONE w)) # ws"
      using Cons(2) False by (auto simp: scan_bytes_eq BITS_PER_BITMAPWORD_def)
    have "k * 32 + n = Min (shifted k (w # ws))"
      using scan_word_Min [OF False, of k ws] n by (simp add: scan_bytes_eq)
    moreover have "shifted k ws' = shifted k (w # ws) - {k * 32 + n}"
    proof -
      have "{m. bit (w AND NOT (RIGHTMOST_ONE w)) m} = {m. bit w m} - {n}"
        using bit_lt_32 [of w] by (auto simp: bit_and_iff bit_not_iff bit_rightmost_one [OF n])
      then have "shifted k ws' = (\<lambda>x. k * 32 + x) ` ({m. bit w m} - {n}) \<union> shifted (Suc k) ws"
        by (simp only: ws' shifted_Cons)
      moreover have "k * 32 + n \<notin> shifted (Suc k) ws"
        using shifted_bound [of "k * 32 + n" "Suc k" ws] n bit_lt_32 [of w n] by (auto simp: lowest_bit_def)
      ultimately show ?thesis by (auto simp: shifted_Cons)
    qed
    ultimately show ?thesis using r False by (simp add: least_from_def shifted_empty_Cons)
  qed
qed (simp add: least_from_def)

lemma bms_first_member_eq:
  "fst (bms_first_member a) = least_from (bms_set a) (- 1)"
  "bms_set (snd (bms_first_member a)) = bms_set a - {nat (fst (bms_first_member a))}"
proof -
  have "fst (bms_first_member a) = least_from (bms_set a) (- 1) \<and>
    bms_set (snd (bms_first_member a)) = bms_set a - {nat (fst (bms_first_member a))}"
  proof (cases a)
    case (Some ws)
    obtain r ws' where "first_member_loop ws 0 = (r, ws')" by fastforce
    with first_member_loop_eq [OF this] Some show ?thesis
      by (simp add: bms_first_member_def shifted_0)
  qed (simp add: bms_first_member_def least_from_def)
  then show "fst (bms_first_member a) = least_from (bms_set a) (- 1)"
    "bms_set (snd (bms_first_member a)) = bms_set a - {nat (fst (bms_first_member a))}" by auto
qed

subsection \<open>Hash values\<close>

definition strip_zeros :: "bitmapword list \<Rightarrow> bitmapword list" where
  "strip_zeros ws = rev (dropWhile (\<lambda>w. w = 0) (rev ws))"

lemma strip_zeros_simps:
  "strip_zeros [] = []"
  "strip_zeros (w # ws) = (if w = 0 \<and> strip_zeros ws = [] then [] else w # strip_zeros ws)"
  by (auto simp: strip_zeros_def dropWhile_append)

lemma strip_zeros_empty: "list_all (\<lambda>w. w = 0) ws \<Longrightarrow> strip_zeros ws = []"
  by (induction ws) (auto simp: strip_zeros_simps)

lemma strip_zeros_equal: "words_equal s l \<Longrightarrow> strip_zeros s = strip_zeros l"
  by (induction s l rule: words_equal.induct) (auto simp: strip_zeros_simps strip_zeros_empty split: if_splits)

lemma bms_hash_value_strip:
  "bms_hash_value h (Some ws) = (if strip_zeros ws = [] then 0 else h (strip_zeros ws))"
  by (simp add: bms_hash_value_def strip_zeros_def Let_def)

lemma bms_hash_value_cong: "bms_equal a b \<Longrightarrow> bms_hash_value h a = bms_hash_value h b"
  by (auto simp: bms_equal_def bms_is_empty_def bms_hash_value_strip strip_zeros_empty
      bms_hash_value_def [of h None] dest: strip_zeros_equal split: option.splits if_splits)

subsection \<open>Iteration\<close>

lemma least_from_cases:
  assumes "finite S"
  obtains "S = {}" "least_from S d = d"
  | x where "x \<in> S" "\<forall>y \<in> S. x \<le> y" "least_from S d = int x"
proof (cases "S = {}")
  case False
  then show thesis using that(2) [of "Min S"] assms by (simp add: least_from_def)
qed (use that(1) in \<open>simp add: least_from_def\<close>)

lemma members_above_finite: "finite {x \<in> bms_set a. p < int x}"
  using bms_set_finite [of a] by simp

lemma next_member_decreases:
  assumes "- 1 \<le> p" "0 \<le> bms_next_member a p"
  shows "{x \<in> bms_set a. bms_next_member a p < int x} \<subset> {x \<in> bms_set a. p < int x}"
  using members_above_finite [of a p]
proof (cases rule: least_from_cases [of _ "- 2"])
  case (2 x)
  then show ?thesis using bms_next_member_eq [OF assms(1), of a] by auto
qed (use assms bms_next_member_eq [OF assms(1), of a] in simp)

text \<open>
  The loop that the comment of \<^verbatim>\<open>bms_next_member\<close> prescribes:
  \<^verbatim>\<open>x = -1; while ((x = bms_next_member(inputset, x)) >= 0) process member x;\<close>
  The list holds the members in the order in which they are processed.
\<close>

function bms_iterate :: "bitmapset \<Rightarrow> int \<Rightarrow> int list" where
  "bms_iterate a x =
     (let y = bms_next_member a x in if - 1 \<le> x \<and> 0 \<le> y then y # bms_iterate a y else [])"
  by pat_completeness auto
termination
  by (relation "measure (\<lambda>(a, p). card {x \<in> bms_set a. p < int x})")
    (auto intro!: psubset_card_mono members_above_finite next_member_decreases)

declare bms_iterate.simps [simp del]

lemma bms_iterate_eq:
  "- 1 \<le> p \<Longrightarrow> bms_iterate a p = map int (sorted_list_of_set {x \<in> bms_set a. p < int x})"
proof (induction a p rule: bms_iterate.induct)
  case (1 a p)
  show ?case using members_above_finite [of a p]
  proof (cases rule: least_from_cases [of _ "- 2"])
    case 1
    then show ?thesis using bms_next_member_eq [OF "1.prems", of a]
      by (subst bms_iterate.simps) (simp only: Let_def, simp)
  next
    case (2 x)
    then have y: "bms_next_member a p = int x" using bms_next_member_eq [OF "1.prems", of a] by simp
    let ?S = "{z \<in> bms_set a. p < int z}"
    have "Min ?S = x" using 2 members_above_finite [of a p] by (intro Min_eqI) auto
    moreover have "?S - {x} = {z \<in> bms_set a. int x < int z}" using 2 by (auto simp: le_less)
    moreover have "?S \<noteq> {}" using 2 by blast
    ultimately have "sorted_list_of_set ?S = x # sorted_list_of_set {z \<in> bms_set a. int x < int z}"
      using sorted_list_of_set_nonempty [of ?S] members_above_finite [of a p] by simp
    then show ?thesis using y 1 by (subst bms_iterate.simps) (simp add: Let_def)
  qed
qed

subsection \<open>The interface of relation sets\<close>

text \<open>
  What the planner relies on when it compares the sets of relations of two paths: subset and
  equality tests agree with the sets, and the four-valued comparison summarises both inclusions.
\<close>

locale set_comparison =
  fixes members :: "'r \<Rightarrow> nat set"
    and is_subset :: "'r \<Rightarrow> 'r \<Rightarrow> bool"
    and is_equal :: "'r \<Rightarrow> 'r \<Rightarrow> bool"
    and subset_compare :: "'r \<Rightarrow> 'r \<Rightarrow> BMS_Comparison"
  assumes is_subset_iff: "is_subset a b \<longleftrightarrow> members a \<subseteq> members b"
    and is_equal_iff: "is_equal a b \<longleftrightarrow> members a = members b"
    and subset_compare_iff:
      "subset_compare a b = comparison_of (members a \<subseteq> members b) (members b \<subseteq> members a)"
begin

lemma compare_subset1: "subset_compare a b \<in> {BMS_EQUAL, BMS_SUBSET1} \<longleftrightarrow> is_subset a b"
  by (simp add: subset_compare_iff is_subset_iff comparison_of_def)

lemma compare_subset2: "subset_compare a b \<in> {BMS_EQUAL, BMS_SUBSET2} \<longleftrightarrow> is_subset b a"
  by (simp add: subset_compare_iff is_subset_iff comparison_of_def)

lemma compare_equal: "subset_compare a b = BMS_EQUAL \<longleftrightarrow> is_equal a b"
  by (auto simp: subset_compare_iff is_equal_iff comparison_of_def)

lemma compare_refl: "subset_compare a a = BMS_EQUAL"
  by (simp add: compare_equal is_equal_iff)

lemma compare_swap:
  "subset_compare b a = (case subset_compare a b of BMS_SUBSET1 \<Rightarrow> BMS_SUBSET2 | BMS_SUBSET2 \<Rightarrow> BMS_SUBSET1 | c \<Rightarrow> c)"
  by (simp add: subset_compare_iff comparison_of_def)

lemma subset_trans: "is_subset a b \<Longrightarrow> is_subset b c \<Longrightarrow> is_subset a c"
  by (auto simp: is_subset_iff)

end

interpretation relids: set_comparison bms_set bms_is_subset bms_equal bms_subset_compare
  by unfold_locales (rule bms_is_subset_iff bms_equal_iff bms_subset_compare_eq)+

lemma comparison_of_sets:
  "comparison_of (A \<subseteq> B) (B \<subseteq> A) =
     (if A = B then BMS_EQUAL else if A \<subset> B then BMS_SUBSET1
      else if B \<subset> A then BMS_SUBSET2 else BMS_DIFFERENT)"
  by (auto simp: comparison_of_def)

subsection \<open>Correctness\<close>

text \<open>
  C21: Every operation that combines two sets computes the set operation it is named after: the
  union (fresh, recycling the left input, or recycling both), the intersection (fresh or in place)
  and the difference (fresh or in place), whatever the lengths of the two word arrays and
  whether or not either input is the null pointer.
\<close>

theorem bms_set_algebra:
  "bms_set (bms_union a b) = bms_set a \<union> bms_set b \<and>
   bms_set (bms_add_members a b) = bms_set a \<union> bms_set b \<and>
   bms_set (bms_join a b) = bms_set a \<union> bms_set b \<and>
   bms_set (bms_intersect a b) = bms_set a \<inter> bms_set b \<and>
   bms_set (bms_int_members a b) = bms_set a \<inter> bms_set b \<and>
   bms_set (bms_difference a b) = bms_set a - bms_set b \<and>
   bms_set (bms_del_members a b) = bms_set a - bms_set b"
  by (simp add: bms_union_set bms_add_members_set bms_join_set bms_intersect_set
      bms_int_members_set bms_difference_set bms_del_members_set)

text \<open>
  C17: The comparisons decide the relations between the sets: equality (logical, so that the
  null pointer equals an allocated set without members), inclusion, overlap, nonempty difference
  and emptiness; and the single pass of \<^verbatim>\<open>bms_subset_compare\<close> returns what the two inclusion tests
  together say.
\<close>

theorem bms_comparisons:
  "(bms_equal a b = (bms_set a = bms_set b)) \<and>
   (bms_is_subset a b = (bms_set a \<subseteq> bms_set b)) \<and>
   (bms_overlap a b = (bms_set a \<inter> bms_set b \<noteq> {})) \<and>
   (bms_nonempty_difference a b = (bms_set a - bms_set b \<noteq> {})) \<and>
   (bms_is_empty a = (bms_set a = {})) \<and>
   bms_subset_compare a b =
     (if bms_set a = bms_set b then BMS_EQUAL
      else if bms_set a \<subset> bms_set b then BMS_SUBSET1
      else if bms_set b \<subset> bms_set a then BMS_SUBSET2 else BMS_DIFFERENT)"
  by (intro conjI bms_equal_iff bms_is_subset_iff bms_overlap_iff bms_nonempty_difference_iff
      bms_is_empty_iff) (simp add: bms_subset_compare_eq comparison_of_sets)

text \<open>
  C18: The iteration that \<^verbatim>\<open>bms_next_member\<close> supports visits every member once, in increasing order,
  and stops: the loop that starts at -1 processes the sorted list of the members. Each step returns
  the smallest member above the previous one, or -2.
\<close>

theorem bms_next_member_iterates:
  "bms_iterate a (- 1) = map int (sorted_list_of_set (bms_set a))"
  by (simp add: bms_iterate_eq)

text \<open>
  C22: The counting operations agree with the number of members: \<^verbatim>\<open>bms_num_members\<close> returns it,
  \<^verbatim>\<open>bms_membership\<close> classifies it as zero, one or more, \<^verbatim>\<open>bms_singleton_member\<close> returns the member of
  a one-element set and raises the right error on any other, and \<^verbatim>\<open>bms_get_singleton_member\<close>
  succeeds on the one-element sets only.
\<close>

theorem bms_counting:
  "bms_num_members a = card (bms_set a) \<and>
   bms_membership a =
     (if card (bms_set a) = 0 then BMS_EMPTY_SET
      else if card (bms_set a) = 1 then BMS_SINGLETON else BMS_MULTIPLE) \<and>
   bms_singleton_member a =
     (if card (bms_set a) = 0 then Inl ''bitmapset is empty''
      else if card (bms_set a) = 1 then Inr (Min (bms_set a))
      else Inl ''bitmapset has multiple members'') \<and>
   bms_get_singleton_member a = (if card (bms_set a) = 1 then Some (Min (bms_set a)) else None)"
  using bms_set_finite [of a]
  by (simp add: bms_num_members_card bms_membership_eq membership_of_def bms_singleton_member_eq
      bms_get_singleton_member_eq)

text \<open>
  C23: The operations on one member. A negative number is refused by all of them; otherwise a new set
  holds exactly that number, adding and deleting change exactly that number (enlarging the word
  array when needed), and the membership test reads it.
\<close>

theorem bms_single_members:
  "(if x < 0
    then bms_make_singleton x = Inl negative_member \<and> bms_add_member a x = Inl negative_member \<and>
      bms_del_member a x = Inl negative_member \<and> bms_is_member x a = Inl negative_member
    else (\<exists>s. bms_make_singleton x = Inr s \<and> bms_set s = {nat x}) \<and>
      (\<exists>s. bms_add_member a x = Inr s \<and> bms_set s = insert (nat x) (bms_set a)) \<and>
      (\<exists>s. bms_del_member a x = Inr s \<and> bms_set s = bms_set a - {nat x}) \<and>
      bms_is_member x a = Inr (nat x \<in> bms_set a))"
proof (cases "x < 0")
  case True
  then show ?thesis
    by (simp add: bms_make_singleton_def bms_add_member_def bms_del_member_def bms_is_member_def)
next
  case False
  then show ?thesis
    using bms_make_singleton_set [of x] bms_add_member_set [of x a] bms_del_member_set [of x a]
    by (simp add: bms_is_member_eq)
qed

text \<open>
  \<^verbatim>\<open>bms_first_member\<close> returns the smallest member and removes it from the set, or returns -1 and
  leaves the set empty.
\<close>

lemma bms_first_member_pops:
  "(case bms_first_member a of (r, a') \<Rightarrow>
      if bms_set a = {} then r = - 1 \<and> bms_set a' = {}
      else r = int (Min (bms_set a)) \<and> bms_set a' = bms_set a - {Min (bms_set a)})"
proof -
  obtain r a' where e: "bms_first_member a = (r, a')" by fastforce
  have "r = least_from (bms_set a) (- 1)" "bms_set a' = bms_set a - {nat r}"
    using bms_first_member_eq [of a] by (simp_all add: e)
  then show ?thesis by (simp add: e least_from_def)
qed

text \<open>
  Sets that \<^verbatim>\<open>bms_equal\<close> calls equal have the same hash value, whatever the byte hash function
  is: trailing zero words do not count, and neither does the difference between a null pointer and
  an allocated empty set.
\<close>

theorem bms_hash_value_respects_equal:
  "bms_equal a b \<Longrightarrow> bms_hash_value h a = bms_hash_value h b"
  by (rule bms_hash_value_cong)

theorem bms_hash_value_respects_equal_witness:
  "bms_equal (Some [5, 0]) (Some [5]) \<and>
   bms_hash_value (\<lambda>ws. of_nat (length ws)) (Some [5, 0]) = bms_hash_value (\<lambda>ws. of_nat (length ws)) (Some [5])"
  using bms_hash_value_respects_equal [of "Some [5, 0]" "Some [5]" "\<lambda>ws. of_nat (length ws)"]
  by (simp add: bms_equal_def)

end
