(* ===== verification/Qual_Cost.thy ===== *)
theory Qual_Cost
  imports Cost_Params Bitmapset
begin

text \<open>
  The evaluation cost of qualification clauses (\<^verbatim>\<open>cost_qual_eval\<close>, \<^verbatim>\<open>cost_qual_eval_node\<close> and
  \<^verbatim>\<open>cost_qual_eval_walker\<close> of \<^verbatim>\<open>costsize.c\<close>, with \<^verbatim>\<open>expression_tree_walker\<close> of \<^verbatim>\<open>nodeFuncs.c\<close> and
  \<^verbatim>\<open>estimate_array_length\<close> of \<^verbatim>\<open>selfuncs.c\<close>). An expression is a \<open>Node\<close> with the constructors that can
  occur in a clause. A \<^verbatim>\<open>RestrictInfo\<close> carries its address, under which the field \<^verbatim>\<open>eval_cost\<close> that the
  walker writes lives in a store: two lists that share a clause share the cached cost. The system
  catalogs are a parameter.
\<close>

subsection \<open>Data\<close>

type_synonym Oid = nat

abbreviation InvalidOid :: Oid where "InvalidOid \<equiv> 0"

record QualCost =
  startup :: Cost
  per_tuple :: Cost

datatype Node =
    Var (varno: nat) (varattno: int) (vartype: Oid) (vartypmod: int)
  | Param | CaseTestExpr | CoerceToDomainValue | SetToDefault
  | SQLValueFunction | NextValueExpr | CurrentOfExpr
  | Const (constisnull: bool) (constarray_nitems: int)
  | is_Aggref: Aggref (aggargs: "Node list")
  | GroupingFunc (groupargs: "Node list")
  | WindowFunc (winargs: "Node list")
  | ArrayRef (refupperindexpr: "Node list") (reflowerindexpr: "Node list") (refexpr: Node)
      (refassgnexpr: "Node option")
  | FuncExpr (funcid: Oid) (funcargs: "Node list")
  | NamedArgExpr (namedarg: Node)
  | OpExpr (opno: Oid) (opfuncid: Oid) (opargs: "Node list")
  | DistinctExpr (distinctopno: Oid) (distinctopfuncid: Oid) (distinctargs: "Node list")
  | NullIfExpr (nullifopno: Oid) (nullifopfuncid: Oid) (nullifargs: "Node list")
  | ScalarArrayOpExpr (saopno: Oid) (saopfuncid: Oid) (saopargs: "Node list")
  | BoolExpr (boolargs: "Node list")
  | is_SubLink: SubLink
  | SubPlan (subplan_startup_cost: Cost) (subplan_per_call_cost: Cost)
  | AlternativeSubPlan (subplan1: Node) (other_subplans: "Node list")
  | FieldSelect (fieldarg: Node)
  | FieldStore (storearg: Node) (newvals: "Node list")
  | RelabelType (relabelarg: Node)
  | CoerceViaIO (resulttype: Oid) (ioarg: Node)
  | ArrayCoerceExpr (elemfuncid: Oid) (arraycoercearg: Node)
  | ConvertRowtypeExpr (rowarg: Node)
  | CollateExpr (collatearg: Node)
  | CaseExpr (casearg: "Node option") (whens: "(Node \<times> Node) list") (defresult: "Node option")
  | ArrayExpr (multidims: bool) (elements: "Node list")
  | RowExpr (rowargs: "Node list")
  | RowCompareExpr (opnos: "Oid list") (largs: "Node list") (rargs: "Node list")
  | CoalesceExpr (coalesceargs: "Node list")
  | MinMaxExpr (minmaxargs: "Node list")
  | XmlExpr (named_args: "Node list") (xmlargs: "Node list")
  | NullTest (nulltestarg: Node)
  | BooleanTest (booltestarg: Node)
  | CoerceToDomain (domainarg: Node)
  | TargetEntry (tleexpr: Node)
  | PlaceHolderVar (phid: nat) (phexpr: Node)
  | RestrictInfo (rinfo_address: nat) (clause: Node) (orclause: "Node option") (is_pushed_down: bool)
      (pseudoconstant: bool) (left_relids: bitmapset) (right_relids: bitmapset)

text \<open>What the costing reads from \<^verbatim>\<open>pg_proc\<close>, \<^verbatim>\<open>pg_operator\<close> and \<^verbatim>\<open>pg_type\<close>.\<close>

record catalog =
  procost :: "Oid \<Rightarrow> double option"
  get_opcode :: "Oid \<Rightarrow> Oid"
  type_input :: "Oid \<Rightarrow> Oid"
  type_output :: "Oid \<Rightarrow> Oid"
  exprType :: "Node \<Rightarrow> Oid"

type_synonym eval_cache = "nat \<Rightarrow> QualCost"

subsection \<open>Operations\<close>

definition get_func_cost :: "catalog \<Rightarrow> Oid \<Rightarrow> double ereport" where
  "get_func_cost cat f =
     (case procost cat f of None \<Rightarrow> Inl ''cache lookup failed for function'' | Some c \<Rightarrow> Inr c)"

fun strip_array_coercion :: "Node \<Rightarrow> Node" where
  "strip_array_coercion (ArrayCoerceExpr f a) =
     (if f = InvalidOid then strip_array_coercion a else ArrayCoerceExpr f a)"
| "strip_array_coercion (RelabelType a) = strip_array_coercion a"
| "strip_array_coercion n = n"

definition estimate_array_length :: "Node \<Rightarrow> int" where
  "estimate_array_length a =
     (case strip_array_coercion a of
        Const isnull nitems \<Rightarrow> if isnull then 0 else nitems
      | ArrayExpr multi es \<Rightarrow> if \<not> multi then int (length es) else 10
      | _ \<Rightarrow> 10)"

text \<open>The subexpressions that \<^verbatim>\<open>expression_tree_walker\<close> hands to the walker, in its order. A list that
  is handed over as a whole is walked through at once, since the walker charges nothing for a list.\<close>

fun walker_children :: "Node \<Rightarrow> Node list" where
  "walker_children (Aggref args) = args"
| "walker_children (GroupingFunc args) = args"
| "walker_children (WindowFunc args) = args"
| "walker_children (ArrayRef us ls e a) = us @ ls @ [e] @ (case a of None \<Rightarrow> [] | Some x \<Rightarrow> [x])"
| "walker_children (FuncExpr _ args) = args"
| "walker_children (NamedArgExpr a) = [a]"
| "walker_children (OpExpr _ _ args) = args"
| "walker_children (DistinctExpr _ _ args) = args"
| "walker_children (NullIfExpr _ _ args) = args"
| "walker_children (ScalarArrayOpExpr _ _ args) = args"
| "walker_children (BoolExpr args) = args"
| "walker_children (FieldSelect a) = [a]"
| "walker_children (FieldStore a vs) = a # vs"
| "walker_children (RelabelType a) = [a]"
| "walker_children (CoerceViaIO _ a) = [a]"
| "walker_children (ArrayCoerceExpr _ a) = [a]"
| "walker_children (ConvertRowtypeExpr a) = [a]"
| "walker_children (CollateExpr a) = [a]"
| "walker_children (CaseExpr a ws d) =
     (case a of None \<Rightarrow> [] | Some x \<Rightarrow> [x]) @ concat (map (\<lambda>(e, r). [e, r]) ws) @
     (case d of None \<Rightarrow> [] | Some x \<Rightarrow> [x])"
| "walker_children (ArrayExpr _ es) = es"
| "walker_children (RowExpr args) = args"
| "walker_children (RowCompareExpr _ ls rs) = ls @ rs"
| "walker_children (CoalesceExpr args) = args"
| "walker_children (MinMaxExpr args) = args"
| "walker_children (XmlExpr ns args) = ns @ args"
| "walker_children (NullTest a) = [a]"
| "walker_children (BooleanTest a) = [a]"
| "walker_children (CoerceToDomain a) = [a]"
| "walker_children (TargetEntry a) = [a]"
| "walker_children (PlaceHolderVar _ a) = [a]"
| "walker_children _ = []"

definition add_per_tuple :: "Cost \<Rightarrow> QualCost \<Rightarrow> QualCost" where
  "add_per_tuple c q = q\<lparr> per_tuple := per_tuple q + c \<rparr>"

definition add_qual_cost :: "QualCost \<Rightarrow> QualCost \<Rightarrow> QualCost" where
  "add_qual_cost q c = \<lparr> startup = startup q + startup c, per_tuple = per_tuple q + per_tuple c \<rparr>"

definition zero_cost :: QualCost where
  "zero_cost = \<lparr> startup = 0, per_tuple = 0 \<rparr>"

text \<open>\<^verbatim>\<open>set_opfuncid\<close> and \<^verbatim>\<open>set_sa_opfuncid\<close> fill the field in when it is unset.\<close>

definition set_opfuncid :: "catalog \<Rightarrow> Oid \<Rightarrow> Oid \<Rightarrow> Oid" where
  "set_opfuncid cat opr f = (if f = InvalidOid then get_opcode cat opr else f)"

definition charge_func :: "gucs \<Rightarrow> catalog \<Rightarrow> Oid \<Rightarrow> QualCost \<Rightarrow> QualCost ereport" where
  "charge_func g cat f q = ebind (get_func_cost cat f) (\<lambda>c. Inr (add_per_tuple (c * cpu_operator_cost g) q))"

text \<open>The part of the walker that charges a node before its children are visited.\<close>

fun charge_node :: "gucs \<Rightarrow> catalog \<Rightarrow> Node \<Rightarrow> QualCost \<Rightarrow> QualCost ereport" where
  "charge_node g cat (FuncExpr f _) q = charge_func g cat f q"
| "charge_node g cat (OpExpr opr f _) q = charge_func g cat (set_opfuncid cat opr f) q"
| "charge_node g cat (DistinctExpr opr f _) q = charge_func g cat (set_opfuncid cat opr f) q"
| "charge_node g cat (NullIfExpr opr f _) q = charge_func g cat (set_opfuncid cat opr f) q"
| "charge_node g cat (ScalarArrayOpExpr opr f args) q =
     ebind (get_func_cost cat (set_opfuncid cat opr f)) (\<lambda>c.
       Inr (add_per_tuple (c * cpu_operator_cost g * dbl (estimate_array_length (args ! 1)) * fl 0.5) q))"
| "charge_node g cat (CoerceViaIO t a) q =
     ebind (charge_func g cat (type_input cat t) q) (\<lambda>q1.
       charge_func g cat (type_output cat (exprType cat a)) q1)"
| "charge_node g cat (ArrayCoerceExpr f a) q =
     (if f \<noteq> InvalidOid then
        ebind (get_func_cost cat f) (\<lambda>c.
          Inr (add_per_tuple (c * cpu_operator_cost g * dbl (estimate_array_length a)) q))
      else Inr q)"
| "charge_node g cat (RowCompareExpr ops _ _) q =
     foldl (\<lambda>r opr. ebind r (charge_func g cat (get_opcode cat opr))) (Inr q) ops"
| "charge_node g cat (MinMaxExpr _) q = Inr (add_per_tuple (cpu_operator_cost g) q)"
| "charge_node g cat SQLValueFunction q = Inr (add_per_tuple (cpu_operator_cost g) q)"
| "charge_node g cat (XmlExpr _ _) q = Inr (add_per_tuple (cpu_operator_cost g) q)"
| "charge_node g cat (CoerceToDomain _) q = Inr (add_per_tuple (cpu_operator_cost g) q)"
| "charge_node g cat NextValueExpr q = Inr (add_per_tuple (cpu_operator_cost g) q)"
| "charge_node g cat CurrentOfExpr q = Inr (q\<lparr> startup := startup q + disable_cost g \<rparr>)"
| "charge_node g cat _ q = Inr q"

lemma walker_children_size: "size_list size (walker_children n) \<le> size n"
proof (cases n)
  case (CaseExpr a ws d)
  have "size_list size (concat (map (\<lambda>(e, r). [e, r]) ws)) = size_list (size_prod size size) ws"
    by (induction ws) auto
  then show ?thesis using CaseExpr by (auto split: option.split)
qed (auto split: option.split)

definition pseudoconstant_cost :: "bool \<Rightarrow> QualCost \<Rightarrow> QualCost" where
  "pseudoconstant_cost ps q =
     (if ps then \<lparr> startup = startup q + per_tuple q, per_tuple = 0 \<rparr> else q)"

text \<open>For an OR clause the marked-up tree is walked, so that the contained clauses get their cost too.\<close>

definition restrict_clause :: "Node \<Rightarrow> Node" where
  "restrict_clause r = (case orclause r of Some oc \<Rightarrow> oc | None \<Rightarrow> clause r)"

lemma restrict_clause_size: "is_RestrictInfo r \<Longrightarrow> size (restrict_clause r) < size r"
  by (cases r) (auto simp: restrict_clause_def split: option.split)

lemma alternative_size: "is_AlternativeSubPlan n \<Longrightarrow> size (subplan1 n) < size n"
  by (cases n) auto

text \<open>The walker with the context's running total and the store of cached costs.\<close>

function cost_qual_eval_walker ::
    "gucs \<Rightarrow> catalog \<Rightarrow> Node \<Rightarrow> eval_cache \<times> QualCost \<Rightarrow> (eval_cache \<times> QualCost) ereport"
  and walk_children ::
    "gucs \<Rightarrow> catalog \<Rightarrow> Node list \<Rightarrow> eval_cache \<times> QualCost \<Rightarrow> (eval_cache \<times> QualCost) ereport"
where
  "cost_qual_eval_walker g cat node (cache, tot) =
     (if is_RestrictInfo node then
        (if startup (cache (rinfo_address node)) < 0 then
           ebind (cost_qual_eval_walker g cat (restrict_clause node) (cache, zero_cost))
             (\<lambda>(cache1, loc).
               let cost = pseudoconstant_cost (pseudoconstant node) loc
               in Inr (cache1(rinfo_address node := cost), add_qual_cost tot cost))
         else Inr (cache, add_qual_cost tot (cache (rinfo_address node))))
      else if is_Aggref node \<or> is_WindowFunc node then Inr (cache, tot)
      else if is_SubLink node then Inl ''cannot handle unplanned sub-select''
      else if is_SubPlan node then
        Inr (cache, \<lparr> startup = startup tot + subplan_startup_cost node,
                      per_tuple = per_tuple tot + subplan_per_call_cost node \<rparr>)
      else if is_AlternativeSubPlan node then cost_qual_eval_walker g cat (subplan1 node) (cache, tot)
      else if is_PlaceHolderVar node then Inr (cache, tot)
      else ebind (charge_node g cat node tot) (\<lambda>tot1.
             walk_children g cat (walker_children node) (cache, tot1)))"
| "walk_children g cat [] st = Inr st"
| "walk_children g cat (n # ns) st =
     ebind (cost_qual_eval_walker g cat n st) (walk_children g cat ns)"
  by pat_completeness auto
termination
  by (relation "measure (\<lambda>x. case x of Inl (g, cat, n, st) \<Rightarrow> 2 * size n + 1
        | Inr (g, cat, ns, st) \<Rightarrow> 2 * size_list size ns)")
    (auto simp: restrict_clause_size alternative_size le_imp_less_Suc [OF mult_le_mono2 [OF walker_children_size]]
      simp del: walker_children.simps)

declare cost_qual_eval_walker.simps [simp del] walk_children.simps(2) [simp del]

definition cost_qual_eval :: "gucs \<Rightarrow> catalog \<Rightarrow> Node list \<Rightarrow> eval_cache \<Rightarrow> (eval_cache \<times> QualCost) ereport" where
  "cost_qual_eval g cat quals cache = walk_children g cat quals (cache, zero_cost)"

definition cost_qual_eval_node :: "gucs \<Rightarrow> catalog \<Rightarrow> Node \<Rightarrow> eval_cache \<Rightarrow> (eval_cache \<times> QualCost) ereport" where
  "cost_qual_eval_node g cat qual cache = cost_qual_eval_walker g cat qual (cache, zero_cost)"

subsection \<open>The cost without the cache\<close>

function qual_cost :: "gucs \<Rightarrow> catalog \<Rightarrow> Node \<Rightarrow> QualCost \<Rightarrow> QualCost ereport"
  and qual_costs :: "gucs \<Rightarrow> catalog \<Rightarrow> Node list \<Rightarrow> QualCost \<Rightarrow> QualCost ereport"
where
  "qual_cost g cat node tot =
     (if is_RestrictInfo node then
        ebind (qual_cost g cat (restrict_clause node) zero_cost)
          (\<lambda>loc. Inr (add_qual_cost tot (pseudoconstant_cost (pseudoconstant node) loc)))
      else if is_Aggref node \<or> is_WindowFunc node then Inr tot
      else if is_SubLink node then Inl ''cannot handle unplanned sub-select''
      else if is_SubPlan node then
        Inr \<lparr> startup = startup tot + subplan_startup_cost node,
              per_tuple = per_tuple tot + subplan_per_call_cost node \<rparr>
      else if is_AlternativeSubPlan node then qual_cost g cat (subplan1 node) tot
      else if is_PlaceHolderVar node then Inr tot
      else ebind (charge_node g cat node tot) (qual_costs g cat (walker_children node)))"
| "qual_costs g cat [] tot = Inr tot"
| "qual_costs g cat (n # ns) tot = ebind (qual_cost g cat n tot) (qual_costs g cat ns)"
  by pat_completeness auto
termination
  by (relation "measure (\<lambda>x. case x of Inl (g, cat, n, tot) \<Rightarrow> 2 * size n + 1
        | Inr (g, cat, ns, tot) \<Rightarrow> 2 * size_list size ns)")
    (auto simp: restrict_clause_size alternative_size le_imp_less_Suc [OF mult_le_mono2 [OF walker_children_size]]
      simp del: walker_children.simps)

declare qual_cost.simps [simp del]

text \<open>What the cache must hold: for a clause in the planner's memory, either nothing yet or its cost.\<close>

inductive subnode :: "Node \<Rightarrow> Node \<Rightarrow> bool" where
  subnode_refl: "subnode n n"
| subnode_child: "c \<in> set (walker_children n) \<Longrightarrow> subnode c m \<Longrightarrow> subnode n m"
| subnode_clause: "is_RestrictInfo n \<Longrightarrow> subnode (restrict_clause n) m \<Longrightarrow> subnode n m"
| subnode_plan: "is_AlternativeSubPlan n \<Longrightarrow> subnode (subplan1 n) m \<Longrightarrow> subnode n m"

definition in_memory :: "(nat \<Rightarrow> Node) \<Rightarrow> Node \<Rightarrow> bool" where
  "in_memory mem n \<longleftrightarrow> (\<forall>m. subnode n m \<and> is_RestrictInfo m \<longrightarrow> mem (rinfo_address m) = m)"

definition rinfo_cost :: "gucs \<Rightarrow> catalog \<Rightarrow> Node \<Rightarrow> QualCost ereport" where
  "rinfo_cost g cat r = ebind (qual_cost g cat (restrict_clause r) zero_cost)
     (\<lambda>loc. Inr (pseudoconstant_cost (pseudoconstant r) loc))"

definition cache_ok :: "gucs \<Rightarrow> catalog \<Rightarrow> (nat \<Rightarrow> Node) \<Rightarrow> eval_cache \<Rightarrow> bool" where
  "cache_ok g cat mem cache \<longleftrightarrow>
     (\<forall>a. startup (cache a) < 0 \<or> rinfo_cost g cat (mem a) = Inr (cache a))"

definition agrees :: "gucs \<Rightarrow> catalog \<Rightarrow> (nat \<Rightarrow> Node) \<Rightarrow> QualCost ereport \<Rightarrow> (eval_cache \<times> QualCost) ereport \<Rightarrow> bool" where
  "agrees g cat mem r w \<longleftrightarrow>
     (case r of Inl e \<Rightarrow> w = Inl e | Inr t \<Rightarrow> (\<exists>cache. w = Inr (cache, t) \<and> cache_ok g cat mem cache))"

lemma in_memory_parts:
  assumes "in_memory mem n"
  shows "c \<in> set (walker_children n) \<Longrightarrow> in_memory mem c"
    "is_RestrictInfo n \<Longrightarrow> in_memory mem (restrict_clause n)"
    "is_RestrictInfo n \<Longrightarrow> mem (rinfo_address n) = n"
    "is_AlternativeSubPlan n \<Longrightarrow> in_memory mem (subplan1 n)"
  using assms unfolding in_memory_def by (blast intro: subnode.intros)+

lemma agrees_simps:
  "agrees g cat mem (Inl e) w \<longleftrightarrow> w = Inl e"
  "agrees g cat mem (Inr t) w \<longleftrightarrow> (\<exists>cache. w = Inr (cache, t) \<and> cache_ok g cat mem cache)"
  by (simp_all add: agrees_def)

lemma agrees_bind:
  "agrees g cat mem r w \<Longrightarrow> (\<And>t c. r = Inr t \<Longrightarrow> cache_ok g cat mem c \<Longrightarrow> agrees g cat mem (f t) (h (c, t))) \<Longrightarrow>
   agrees g cat mem (ebind r f) (ebind w h)"
proof (cases r)
  case (Inr t)
  assume "agrees g cat mem r w" and f: "\<And>t c. r = Inr t \<Longrightarrow> cache_ok g cat mem c \<Longrightarrow> agrees g cat mem (f t) (h (c, t))"
  then obtain c where "w = Inr (c, t)" "cache_ok g cat mem c" using Inr by (auto simp: agrees_simps)
  then show ?thesis using f [OF Inr] Inr by simp
qed (simp add: agrees_simps)

lemma cache_ok_update: "cache_ok g cat mem c \<Longrightarrow> rinfo_cost g cat (mem a) = Inr q \<Longrightarrow> cache_ok g cat mem (c(a := q))"
  by (auto simp: cache_ok_def)

lemma walker_agrees:
  "in_memory mem n \<Longrightarrow> cache_ok g cat mem cache \<Longrightarrow>
     agrees g cat mem (qual_cost g cat n tot) (cost_qual_eval_walker g cat n (cache, tot))"
  "\<forall>n \<in> set ns. in_memory mem n \<Longrightarrow> cache_ok g cat mem cache \<Longrightarrow>
     agrees g cat mem (qual_costs g cat ns tot) (walk_children g cat ns (cache, tot))"
proof (induction g cat n tot and g cat ns tot arbitrary: cache and cache rule: qual_cost_qual_costs.induct)
  case (1 g cat n tot)
  show ?case
  proof (cases "is_RestrictInfo n")
    case True
    note mem = in_memory_parts(2,3) [OF "1.prems"(1) True]
    have rc: "qual_cost g cat n tot = ebind (rinfo_cost g cat n) (\<lambda>q. Inr (add_qual_cost tot q))"
      using True by (cases "qual_cost g cat (restrict_clause n) zero_cost")
        (simp_all add: qual_cost.simps [of g cat n] rinfo_cost_def)
    show ?thesis
    proof (cases "startup (cache (rinfo_address n)) < 0")
      case False
      then have "rinfo_cost g cat n = Inr (cache (rinfo_address n))"
        using "1.prems"(2) mem by (auto simp: cache_ok_def)
      then show ?thesis using rc False True "1.prems"(2)
        by (simp add: cost_qual_eval_walker.simps agrees_simps)
    next
      case neg: True
      have "agrees g cat mem (qual_cost g cat (restrict_clause n) zero_cost)
          (cost_qual_eval_walker g cat (restrict_clause n) (cache, zero_cost))"
        by (rule "1.IH"(1) [OF True mem(1) "1.prems"(2)])
      then show ?thesis using rc True neg mem(2)
        by (cases "qual_cost g cat (restrict_clause n) zero_cost")
          (auto simp: agrees_simps cost_qual_eval_walker.simps [of g cat n] rinfo_cost_def Let_def
            intro!: cache_ok_update)
    qed
  next
    case False
    note n = False
    show ?thesis
    proof (cases "is_AlternativeSubPlan n")
      case True
      then obtain a b where a: "n = AlternativeSubPlan a b" unfolding is_AlternativeSubPlan_def by blast
      then have "in_memory mem a" using in_memory_parts(4) [OF "1.prems"(1)] by simp
      then have "agrees g cat mem (qual_cost g cat a tot) (cost_qual_eval_walker g cat a (cache, tot))"
        using "1.IH"(2) [OF _ _ _ _ _ _ "1.prems"(2)] a by simp
      then show ?thesis using a
        by (simp add: qual_cost.simps [of g cat "AlternativeSubPlan a b"]
            cost_qual_eval_walker.simps [of g cat "AlternativeSubPlan a b"])
    next
      case False
      have children: "\<forall>c \<in> set (walker_children n). in_memory mem c"
        using in_memory_parts(1) [OF "1.prems"(1)] by blast
      show ?thesis
        unfolding qual_cost.simps [of g cat n] cost_qual_eval_walker.simps [of g cat n]
        using n False "1.prems"(2) "1.IH"(3) [OF n _ _ _ False _ _ children "1.prems"(2)]
        by (cases "charge_node g cat n tot") (auto simp: agrees_simps)
    qed
  qed
next
  case (3 g cat n ns tot)
  then show ?case by (auto simp: walk_children.simps intro!: agrees_bind)
qed (simp add: agrees_simps)

subsection \<open>Costs are never below zero\<close>

definition node_ok :: "Node \<Rightarrow> bool" where
  "node_ok n \<longleftrightarrow> (\<forall>m. subnode n m \<longrightarrow>
     (is_Const m \<longrightarrow> 0 \<le> constarray_nitems m) \<and>
     (is_ScalarArrayOpExpr m \<longrightarrow> length (saopargs m) = 2) \<and>
     (is_SubPlan m \<longrightarrow> nonneg (subplan_startup_cost m) \<and> nonneg (subplan_per_call_cost m)))"

definition catalog_ok :: "catalog \<Rightarrow> bool" where
  "catalog_ok cat \<longleftrightarrow> (\<forall>f c. procost cat f = Some c \<longrightarrow> nonneg c)"

definition qual_nonneg :: "QualCost \<Rightarrow> bool" where
  "qual_nonneg q \<longleftrightarrow> nonneg (startup q) \<and> nonneg (per_tuple q)"

lemma node_ok_parts:
  assumes "node_ok n"
  shows "c \<in> set (walker_children n) \<Longrightarrow> node_ok c" "is_RestrictInfo n \<Longrightarrow> node_ok (restrict_clause n)"
    "is_AlternativeSubPlan n \<Longrightarrow> node_ok (subplan1 n)"
    "is_SubPlan n \<Longrightarrow> nonneg (subplan_startup_cost n) \<and> nonneg (subplan_per_call_cost n)"
  using assms unfolding node_ok_def by (blast intro: subnode.intros)+

lemma qual_nonneg_intros:
  "qual_nonneg zero_cost"
  "qual_nonneg q \<Longrightarrow> nonneg c \<Longrightarrow> qual_nonneg (add_per_tuple c q)"
  "qual_nonneg q \<Longrightarrow> qual_nonneg r \<Longrightarrow> qual_nonneg (add_qual_cost q r)"
  "qual_nonneg q \<Longrightarrow> qual_nonneg (pseudoconstant_cost ps q)"
  by (simp_all add: qual_nonneg_def zero_cost_def add_per_tuple_def add_qual_cost_def
      pseudoconstant_cost_def nonneg_add)

lemma strip_array_coercion_ok: "node_ok a \<Longrightarrow> node_ok (strip_array_coercion a)"
proof (induction a rule: strip_array_coercion.induct)
  case (1 f a)
  then show ?case using node_ok_parts(1) [of "ArrayCoerceExpr f a" a] by simp
next
  case (2 a)
  then show ?case using node_ok_parts(1) [of "RelabelType a" a] by simp
qed simp_all

lemma estimate_array_length_nonneg: "node_ok a \<Longrightarrow> 0 \<le> estimate_array_length a"
proof -
  assume "node_ok a"
  then have ok: "node_ok (strip_array_coercion a)" by (rule strip_array_coercion_ok)
  show ?thesis
  proof (cases "is_Const (strip_array_coercion a)")
    case True
    then obtain b k where c: "strip_array_coercion a = Const b k" unfolding is_Const_def by blast
    then have "0 \<le> k" using ok subnode_refl [of "Const b k"] unfolding node_ok_def by fastforce
    then show ?thesis using c by (simp add: estimate_array_length_def)
  next
    case False
    then show ?thesis by (cases "strip_array_coercion a") (simp_all add: estimate_array_length_def)
  qed
qed

lemma charge_func_nonneg:
  "gucs_ok g \<Longrightarrow> catalog_ok cat \<Longrightarrow> qual_nonneg q \<Longrightarrow> charge_func g cat f q = Inr r \<Longrightarrow> qual_nonneg r"
  by (auto simp: charge_func_def get_func_cost_def catalog_ok_def ebind_Inr_iff split: option.splits
      intro!: qual_nonneg_intros nonneg_intros)

lemma charge_funcs_nonneg:
  "gucs_ok g \<Longrightarrow> catalog_ok cat \<Longrightarrow> qual_nonneg q \<Longrightarrow>
   foldl (\<lambda>r opr. ebind r (charge_func g cat (h opr))) (Inr q) ops = Inr r \<Longrightarrow> qual_nonneg r"
proof (induction ops arbitrary: q)
  case (Cons opr ops)
  have err: "foldl (\<lambda>r opr. ebind r (charge_func g cat (h opr))) (Inl e) ops = Inl e" for e
    by (induction ops) simp_all
  show ?case
  proof (cases "charge_func g cat (h opr) q")
    case (Inl e)
    then show ?thesis using Cons.prems err by simp
  next
    case (Inr q1)
    have "qual_nonneg q1" by (rule charge_func_nonneg [OF Cons.prems(1-3) Inr])
    then show ?thesis using Cons Inr by simp
  qed
qed simp

lemma get_func_cost_nonneg: "catalog_ok cat \<Longrightarrow> get_func_cost cat f = Inr c \<Longrightarrow> nonneg c"
  by (auto simp: get_func_cost_def catalog_ok_def split: option.splits)

lemma charge_node_nonneg:
  assumes "gucs_ok g" "catalog_ok cat" "node_ok n" "qual_nonneg q" "charge_node g cat n q = Inr r"
  shows "qual_nonneg r"
proof (cases n)
  case (ScalarArrayOpExpr opr f args)
  then have "length args = 2" using assms(3) subnode_refl [of n] unfolding node_ok_def by fastforce
  then have "args ! 1 \<in> set args" by simp
  then have "0 \<le> estimate_array_length (args ! 1)"
    using ScalarArrayOpExpr node_ok_parts(1) [OF assms(3)] estimate_array_length_nonneg by simp
  then show ?thesis using assms(1,2,4,5) ScalarArrayOpExpr
    by (auto simp: ebind_Inr_iff dest: get_func_cost_nonneg intro!: qual_nonneg_intros(2) nonneg_intros)
next
  case (ArrayCoerceExpr f a)
  then have "0 \<le> estimate_array_length a"
    using node_ok_parts(1) [OF assms(3)] estimate_array_length_nonneg by simp
  then show ?thesis using assms(1,2,4,5) ArrayCoerceExpr
    by (auto simp: ebind_Inr_iff dest: get_func_cost_nonneg intro!: qual_nonneg_intros(2) nonneg_intros
        split: if_splits)
next
  case (CoerceViaIO t a)
  then obtain q1 where q1: "charge_func g cat (type_input cat t) q = Inr q1"
    "charge_func g cat (type_output cat (exprType cat a)) q1 = Inr r"
    using assms(5) by (auto simp: ebind_Inr_iff)
  show ?thesis by (rule charge_func_nonneg [OF assms(1,2) charge_func_nonneg [OF assms(1,2,4) q1(1)] q1(2)])
next
  case (RowCompareExpr ops ls rs)
  then show ?thesis using charge_funcs_nonneg [OF assms(1,2,4)] assms(5) by simp
qed (use assms(1,4,5) charge_func_nonneg [OF assms(1,2,4)] in
    \<open>auto simp: qual_nonneg_def add_per_tuple_def nonneg_add gucs_okD\<close>)

lemma qual_cost_nonneg:
  "gucs_ok g \<Longrightarrow> catalog_ok cat \<Longrightarrow> node_ok n \<Longrightarrow> qual_nonneg tot \<Longrightarrow> qual_cost g cat n tot = Inr r \<Longrightarrow> qual_nonneg r"
  "gucs_ok g \<Longrightarrow> catalog_ok cat \<Longrightarrow> \<forall>n \<in> set ns. node_ok n \<Longrightarrow> qual_nonneg tot \<Longrightarrow>
   qual_costs g cat ns tot = Inr r \<Longrightarrow> qual_nonneg r"
proof (induction g cat n tot and g cat ns tot arbitrary: r and r rule: qual_cost_qual_costs.induct)
  case (1 g cat n tot)
  note parts = node_ok_parts [OF "1.prems"(3)]
  consider (rinfo) "is_RestrictInfo n" | (plan) "is_SubPlan n" "\<not> is_RestrictInfo n"
    | (alt) "is_AlternativeSubPlan n" "\<not> is_RestrictInfo n" "\<not> is_SubPlan n"
    | (other) "\<not> is_RestrictInfo n" "\<not> is_SubPlan n" "\<not> is_AlternativeSubPlan n" by blast
  then show ?case
  proof cases
    case rinfo
    then obtain loc where "qual_cost g cat (restrict_clause n) zero_cost = Inr loc"
      "r = add_qual_cost tot (pseudoconstant_cost (pseudoconstant n) loc)"
      using "1.prems"(5) by (auto simp: qual_cost.simps [of g cat n] ebind_Inr_iff)
    then show ?thesis using "1.IH"(1) [OF rinfo "1.prems"(1,2) parts(2) [OF rinfo] qual_nonneg_intros(1)]
        "1.prems"(4) by (auto intro: qual_nonneg_intros)
  next
    case plan
    then obtain a b where "n = SubPlan a b" unfolding is_SubPlan_def by blast
    then show ?thesis using "1.prems"(4,5) parts(4)
      by (auto simp: qual_cost.simps [of g cat "SubPlan a b"] qual_nonneg_def intro: nonneg_add)
  next
    case alt
    then obtain a b where n: "n = AlternativeSubPlan a b" unfolding is_AlternativeSubPlan_def by blast
    then have "qual_cost g cat a tot = Inr r" using "1.prems"(5)
      by (simp add: qual_cost.simps [of g cat "AlternativeSubPlan a b"])
    then show ?thesis using "1.IH"(2) [OF _ _ _ _ _ "1.prems"(1,2) _ "1.prems"(4)] parts(3) n by simp
  next
    case other
    have children: "\<forall>c \<in> set (walker_children n). node_ok c" using parts(1) by blast
    show ?thesis
    proof (cases "charge_node g cat n tot")
      case (Inr t)
      have "qual_nonneg t" by (rule charge_node_nonneg [OF "1.prems"(1-4) Inr])
      then show ?thesis using "1.IH"(3) [OF other(1) _ _ other(2,3) _ Inr "1.prems"(1,2) children]
          "1.prems"(4,5) other Inr unfolding qual_cost.simps [of g cat n] by (auto split: if_splits)
    qed (use "1.prems"(4,5) other in \<open>auto simp: qual_cost.simps [of g cat n] split: if_splits\<close>)
  qed
next
  case (3 g cat n ns tot)
  from "3.prems"(5) obtain t where t: "qual_cost g cat n tot = Inr t" "qual_costs g cat ns t = Inr r"
    by (auto simp: ebind_Inr_iff)
  have "qual_nonneg t" using "3.IH"(1) "3.prems" t(1) by simp
  then show ?case using "3.IH"(2) [OF t(1) "3.prems"(1,2)] "3.prems"(3) t(2) by simp
qed simp

subsection \<open>Correctness\<close>

text \<open>
  C14: The costs cached in the clauses are transparent. As long as the cache of every clause in memory is
  either unset or holds that clause's cost, evaluating a list of clauses returns what a walk that
  recomputes everything returns, the same error included, and leaves the cache in such a state; so
  the order and the number of earlier evaluations do not influence a cost.
\<close>

theorem cost_qual_eval_cache_transparent:
  "cache_ok g cat mem cache \<Longrightarrow> \<forall>q \<in> set quals. in_memory mem q \<Longrightarrow>
   (case qual_costs g cat quals zero_cost of
      Inl e \<Rightarrow> cost_qual_eval g cat quals cache = Inl e
    | Inr c \<Rightarrow> \<exists>cache'. cost_qual_eval g cat quals cache = Inr (cache', c) \<and> cache_ok g cat mem cache')"
  using walker_agrees(2) [of quals mem g cat cache zero_cost] unfolding cost_qual_eval_def agrees_def by blast

definition example_catalog :: catalog where
  "example_catalog = \<lparr> procost = (\<lambda>f. if f = 65 then Some (fl 1) else None), get_opcode = (\<lambda>_. 65),
     type_input = (\<lambda>_. 0), type_output = (\<lambda>_. 0), exprType = (\<lambda>_. 0) \<rparr>"

definition example_clause :: Node where
  "example_clause = RestrictInfo 7 (OpExpr 96 0 [Var 1 1 23 (- 1), Const False 0]) None False False None None"

definition unset_cache :: eval_cache where
  "unset_cache = (\<lambda>_. \<lparr> startup = fl (- 1), per_tuple = fl (- 1) \<rparr>)"

lemma unset_cache_ok: "cache_ok g cat mem unset_cache"
proof -
  have "fl (- 1) < 0" by (simp add: float_eval)
  then show ?thesis by (simp add: cache_ok_def unset_cache_def)
qed

lemma subnode_leaf: "subnode (Var n a t tm) m \<longleftrightarrow> m = Var n a t tm" "subnode (Const b k) m \<longleftrightarrow> m = Const b k"
  by (subst subnode.simps, simp)+

lemma subnode_op:
  "subnode (OpExpr opr f args) m \<longleftrightarrow> m = OpExpr opr f args \<or> (\<exists>c \<in> set args. subnode c m)"
  by (subst subnode.simps, simp, blast)

lemma subnode_rinfo:
  "subnode (RestrictInfo ad cl orcl pushed ps lr rr) m \<longleftrightarrow>
     m = RestrictInfo ad cl orcl pushed ps lr rr \<or>
     subnode (restrict_clause (RestrictInfo ad cl orcl pushed ps lr rr)) m"
  by (subst subnode.simps, simp)

lemma example_in_memory: "in_memory (\<lambda>_. example_clause) example_clause"
  unfolding in_memory_def
proof (intro allI impI)
  fix m assume m: "subnode example_clause m \<and> is_RestrictInfo m"
  then have "m = example_clause \<or> m = OpExpr 96 0 [Var 1 1 23 (- 1), Const False 0] \<or> m = Var 1 1 23 (- 1) \<or> m = Const False 0"
    unfolding example_clause_def subnode_rinfo
    by (simp add: restrict_clause_def subnode_op subnode_leaf)
  then show "example_clause = m" using m by (elim disjE) simp_all
qed

lemma example_cost:
  "qual_costs default_gucs example_catalog [example_clause] zero_cost =
     Inr \<lparr> startup = 0, per_tuple = fl 0.0025 \<rparr>"
  by (simp add: example_clause_def example_catalog_def qual_cost.simps restrict_clause_def
      charge_func_def get_func_cost_def set_opfuncid_def zero_cost_def add_per_tuple_def
      add_qual_cost_def pseudoconstant_cost_def default_gucs_def dzero_add)

theorem cost_qual_eval_cache_transparent_witness:
  "\<exists>cache'. cost_qual_eval default_gucs example_catalog [example_clause] unset_cache =
     Inr (cache', \<lparr> startup = 0, per_tuple = fl 0.0025 \<rparr>)"
  using cost_qual_eval_cache_transparent [of default_gucs example_catalog "\<lambda>_. example_clause" unset_cache
      "[example_clause]"] example_in_memory unset_cache_ok example_cost by auto

text \<open>
  C26: With non-negative cost settings and catalog costs, a clause list never gets a startup or per-tuple
  cost that compares below zero.
\<close>

theorem cost_qual_eval_nonneg:
  "gucs_ok g \<Longrightarrow> catalog_ok cat \<Longrightarrow> cache_ok g cat mem cache \<Longrightarrow>
   \<forall>q \<in> set quals. in_memory mem q \<and> node_ok q \<Longrightarrow>
   cost_qual_eval g cat quals cache = Inr (cache', c) \<Longrightarrow> \<not> startup c < 0 \<and> \<not> per_tuple c < 0"
proof -
  assume a: "gucs_ok g" "catalog_ok cat" "cache_ok g cat mem cache" "\<forall>q \<in> set quals. in_memory mem q \<and> node_ok q"
    "cost_qual_eval g cat quals cache = Inr (cache', c)"
  then have "agrees g cat mem (qual_costs g cat quals zero_cost) (cost_qual_eval g cat quals cache)"
    unfolding cost_qual_eval_def by (intro walker_agrees(2)) auto
  then have "qual_costs g cat quals zero_cost = Inr c"
    using a(5) by (auto simp: agrees_def split: sum.splits)
  from qual_cost_nonneg(2) [OF a(1,2) _ qual_nonneg_intros(1) this] show ?thesis
    using a(4) by (simp add: qual_nonneg_def nonneg_def)
qed

lemma example_node_ok: "node_ok example_clause"
  unfolding node_ok_def
proof (intro allI impI)
  fix m assume "subnode example_clause m"
  then have "m = example_clause \<or> m = OpExpr 96 0 [Var 1 1 23 (- 1), Const False 0] \<or> m = Var 1 1 23 (- 1) \<or> m = Const False 0"
    unfolding example_clause_def subnode_rinfo
    by (simp add: restrict_clause_def subnode_op subnode_leaf)
  then show "(is_Const m \<longrightarrow> 0 \<le> constarray_nitems m) \<and> (is_ScalarArrayOpExpr m \<longrightarrow> length (saopargs m) = 2) \<and>
      (is_SubPlan m \<longrightarrow> nonneg (subplan_startup_cost m) \<and> nonneg (subplan_per_call_cost m))"
    by (elim disjE) (simp_all add: example_clause_def)
qed

lemma example_catalog_ok: "catalog_ok example_catalog"
  by (auto simp: catalog_ok_def example_catalog_def nonneg_fl split: if_splits)

theorem cost_qual_eval_nonneg_witness:
  "\<exists>cache' c. cost_qual_eval default_gucs example_catalog [example_clause] unset_cache = Inr (cache', c) \<and>
     \<not> startup c < 0 \<and> \<not> per_tuple c < 0"
proof -
  have "agrees default_gucs example_catalog (\<lambda>_. example_clause)
      (qual_costs default_gucs example_catalog [example_clause] zero_cost)
      (cost_qual_eval default_gucs example_catalog [example_clause] unset_cache)"
    unfolding cost_qual_eval_def using example_in_memory unset_cache_ok by (intro walker_agrees(2)) auto
  then obtain cache' c where
    e: "cost_qual_eval default_gucs example_catalog [example_clause] unset_cache = Inr (cache', c)"
    unfolding example_cost agrees_simps by auto
  then show ?thesis
    using cost_qual_eval_nonneg [OF default_gucs_ok example_catalog_ok unset_cache_ok _ e,
        of "\<lambda>_. example_clause"] example_in_memory example_node_ok by auto
qed

end
