(* ===== verification/Paths.thy ===== *)
theory Paths
  imports Qual_Cost "HOL-Library.Sublist"
begin

text \<open>
  Access paths and their comparison: the structs of \<^verbatim>\<open>nodes/relation.h\<close> as records, the cost
  comparisons at the head of \<^verbatim>\<open>util/pathnode.c\<close>, which weigh time against power, and the comparison
  and selection of paths by sort order in \<^verbatim>\<open>path/pathkeys.c\<close>. A \<^verbatim>\<open>Path\<close> refers to the part of its
  \<^verbatim>\<open>RelOptInfo\<close> that costing reads (\<open>RelOptBase\<close>); the path lists of a relation are in \<open>RelOptInfo\<close>,
  which extends it. Sort keys are canonical, so a \<^verbatim>\<open>PathKey\<close> is its address. The log messages of the
  comparisons are not modelled.
\<close>

subsection \<open>Data\<close>

type_synonym Relids = bitmapset
type_synonym PathKey = nat
type_synonym BlockNumber = "32 word"

datatype CostSelector = STARTUP_COST | TOTAL_COST

datatype PathCostComparison = COSTS_EQUAL | COSTS_BETTER1 | COSTS_BETTER2 | COSTS_DIFFERENT

datatype PathKeysComparison = PATHKEYS_EQUAL | PATHKEYS_BETTER1 | PATHKEYS_BETTER2 | PATHKEYS_DIFFERENT

datatype NodeTag =
    T_SeqScan | T_SampleScan | T_IndexScan | T_IndexOnlyScan | T_BitmapHeapScan | T_BitmapAnd | T_BitmapOr
  | T_TidScan | T_SubqueryScan | T_FunctionScan | T_TableFuncScan | T_ValuesScan | T_CteScan
  | T_WorkTableScan | T_Gather | T_GatherMerge | T_RecursiveUnion | T_Append | T_MergeAppend
  | T_Material | T_Sort | T_Agg | T_WindowAgg | T_Group | T_NestLoop | T_MergeJoin | T_HashJoin | T_Result
  | T_NamedTuplestoreScan | T_CustomScan

datatype RelOptKind =
  RELOPT_BASEREL | RELOPT_JOINREL | RELOPT_OTHER_MEMBER_REL | RELOPT_UPPER_REL | RELOPT_DEADREL

record PathTarget =
  target_exprs :: "Node list"
  target_cost :: QualCost
  target_width :: int

record ParamPathInfo =
  ppi_req_outer :: Relids
  ppi_rows :: double
  ppi_clauses :: "Node list"

record RelOptBase =
  reloptkind :: RelOptKind
  relids :: Relids
  rel_rows :: double
  consider_startup :: bool
  consider_param_startup :: bool
  consider_parallel :: bool
  reltarget :: PathTarget
  lateral_relids :: Relids
  relid :: nat
  reltablespace :: Oid
  min_attr :: int
  max_attr :: int
  attr_widths :: "int list"
  pages :: BlockNumber
  tuples :: double
  allvisfrac :: double
  rel_parallel_workers :: int
  baserestrictinfo :: "Node list"
  baserestrictcost :: QualCost

text \<open>The struct in which a \<^verbatim>\<open>Path\<close> is embedded, with the fields that the costing of other nodes
  looks up in it by a cast.\<close>

datatype path_node =
    T_Path
  | T_IndexPath "Node list"
  | T_BitmapHeapPath "Node list option"
  | T_HashPath int
  | T_UniquePath
  | T_ProjectionPath NodeTag path_node
  | T_CustomPath bool
  | T_OtherPath

record Path =
  path_node :: path_node
  pathtype :: NodeTag
  parent :: RelOptBase
  pathtarget :: PathTarget
  param_info :: "ParamPathInfo option"
  parallel_aware :: bool
  parallel_safe :: bool
  parallel_workers :: int
  rows :: double
  startup_cost :: Cost
  total_cost :: Cost
  io_cost :: Cost
  cpu_cost :: Cost
  power_cost :: Cost
  pathkeys :: "PathKey list"

record RelOptInfo = RelOptBase +
  pathlist :: "Path list"
  ppilist :: "ParamPathInfo list"
  partial_pathlist :: "Path list"
  cheapest_startup_path :: "Path option"
  cheapest_total_path :: "Path option"
  cheapest_unique_path :: "Path option"
  cheapest_parameterized_paths :: "Path list"
  joininfo :: "Node list"

definition PATH_REQ_OUTER :: "Path \<Rightarrow> Relids" where
  "PATH_REQ_OUTER p = (case param_info p of None \<Rightarrow> None | Some ppi \<Rightarrow> ppi_req_outer ppi)"

definition STD_FUZZ_FACTOR :: double where
  "STD_FUZZ_FACTOR = fl 1.01"

subsection \<open>Comparison of costs\<close>

text \<open>\<^verbatim>\<open>Cost total_cost1 = time_weight * log(path1->total_cost) + power_weight * log(path1->power_cost);\<close>\<close>

definition weighted_cost :: "gucs \<Rightarrow> Path \<Rightarrow> Cost" where
  "weighted_cost g p = time_weight g * log_d (total_cost p) + power_weight g * log_d (power_cost p)"

definition compare_path_costs :: "gucs \<Rightarrow> Path \<Rightarrow> Path \<Rightarrow> CostSelector \<Rightarrow> int" where
  "compare_path_costs g path1 path2 criterion =
     (let total_cost1 = weighted_cost g path1; total_cost2 = weighted_cost g path2
      in if criterion = STARTUP_COST then
           (if startup_cost path1 < startup_cost path2 then - 1
            else if startup_cost path1 > startup_cost path2 then 1
            else if total_cost1 < total_cost2 then - 1
            else if total_cost1 > total_cost2 then 1
            else 0)
         else
           (if total_cost1 < total_cost2 then - 1
            else if total_cost1 > total_cost2 then 1
            else if startup_cost path1 < startup_cost path2 then - 1
            else if startup_cost path1 > startup_cost path2 then 1
            else 0))"

definition fractional_cost :: "gucs \<Rightarrow> Path \<Rightarrow> double \<Rightarrow> Cost" where
  "fractional_cost g p fraction =
     (let cost = startup_cost p + fraction * (total_cost p - startup_cost p)
      in if power_weight g > 0 then cost + fraction * power_cost p else cost)"

definition compare_fractional_path_costs :: "gucs \<Rightarrow> Path \<Rightarrow> Path \<Rightarrow> double \<Rightarrow> int" where
  "compare_fractional_path_costs g path1 path2 fraction =
     (if fraction \<le> 0 \<or> fraction \<ge> 1 then compare_path_costs g path1 path2 TOTAL_COST
      else let cost1 = fractional_cost g path1 fraction; cost2 = fractional_cost g path2 fraction
           in if cost1 < cost2 then - 1 else if cost1 > cost2 then 1 else 0)"

text \<open>\<^verbatim>\<open>scale_path_costs\<close> writes its two results through pointers.\<close>

definition scale_path_costs :: "Path \<Rightarrow> Path \<Rightarrow> Cost \<times> Cost" where
  "scale_path_costs path1 path2 =
     (let total_cost1 = total_cost path1; total_cost2 = total_cost path2;
          power_cost1 = power_cost path1; power_cost2 = power_cost path2;
          total_min = (if total_cost1 > total_cost2 then total_cost2 else total_cost1);
          total_max = (if total_cost1 > total_cost2 then total_cost1 else total_cost2);
          power_min = (if power_cost1 > power_cost2 then power_cost2 else power_cost1);
          power_max = (if power_cost1 > power_cost2 then power_cost1 else power_cost2);
          power_diff0 = power_max - power_min;
          power_diff = (if power_diff0 = 0 then 1 else power_diff0);
          total_diff = total_max - total_min;
          r = total_diff / power_diff
      in ((power_cost1 - power_min) * r + total_min, (power_cost2 - power_min) * r + total_min))"

definition CONSIDER_PATH_STARTUP_COST :: "Path \<Rightarrow> bool" where
  "CONSIDER_PATH_STARTUP_COST p =
     (if param_info p = None then consider_startup (parent p) else consider_param_startup (parent p))"

definition compare_path_costs_fuzzily :: "gucs \<Rightarrow> Path \<Rightarrow> Path \<Rightarrow> double \<Rightarrow> PathCostComparison" where
  "compare_path_costs_fuzzily g path1 path2 fuzz_factor =
     (let total_cost1 = weighted_cost g path1; total_cost2 = weighted_cost g path2
      in if total_cost1 > total_cost2 * fuzz_factor then
           (if CONSIDER_PATH_STARTUP_COST path1 \<and> startup_cost path2 > startup_cost path1 * fuzz_factor
            then COSTS_DIFFERENT else COSTS_BETTER2)
         else if total_cost2 > total_cost1 * fuzz_factor then
           (if CONSIDER_PATH_STARTUP_COST path2 \<and> startup_cost path1 > startup_cost path2 * fuzz_factor
            then COSTS_DIFFERENT else COSTS_BETTER1)
         else if startup_cost path1 > startup_cost path2 * fuzz_factor then COSTS_BETTER2
         else if startup_cost path2 > startup_cost path1 * fuzz_factor then COSTS_BETTER1
         else COSTS_EQUAL)"

subsection \<open>Comparison of sort orders\<close>

text \<open>The \<^verbatim>\<open>forboth\<close> loop and the tests after it.\<close>

fun pathkeys_loop :: "PathKey list \<Rightarrow> PathKey list \<Rightarrow> PathKeysComparison" where
  "pathkeys_loop (k1 # ks1) (k2 # ks2) = (if k1 \<noteq> k2 then PATHKEYS_DIFFERENT else pathkeys_loop ks1 ks2)"
| "pathkeys_loop (k1 # ks1) [] = PATHKEYS_BETTER1"
| "pathkeys_loop [] (k2 # ks2) = PATHKEYS_BETTER2"
| "pathkeys_loop [] [] = PATHKEYS_EQUAL"

definition compare_pathkeys :: "PathKey list \<Rightarrow> PathKey list \<Rightarrow> PathKeysComparison" where
  "compare_pathkeys keys1 keys2 = (if keys1 = keys2 then PATHKEYS_EQUAL else pathkeys_loop keys1 keys2)"

definition pathkeys_contained_in :: "PathKey list \<Rightarrow> PathKey list \<Rightarrow> bool" where
  "pathkeys_contained_in keys1 keys2 =
     (case compare_pathkeys keys1 keys2 of
        PATHKEYS_EQUAL \<Rightarrow> True | PATHKEYS_BETTER2 \<Rightarrow> True | _ \<Rightarrow> False)"

definition get_cheapest_path_for_pathkeys ::
    "gucs \<Rightarrow> Path list \<Rightarrow> PathKey list \<Rightarrow> Relids \<Rightarrow> CostSelector \<Rightarrow> bool \<Rightarrow> Path option" where
  "get_cheapest_path_for_pathkeys g paths keys required_outer cost_criterion require_parallel_safe =
     foldl (\<lambda>matched_path path.
       if (case matched_path of None \<Rightarrow> False | Some m \<Rightarrow> compare_path_costs g m path cost_criterion \<le> 0)
       then matched_path
       else if require_parallel_safe \<and> \<not> parallel_safe path then matched_path
       else if pathkeys_contained_in keys (pathkeys path) \<and> bms_is_subset (PATH_REQ_OUTER path) required_outer
       then Some path else matched_path) None paths"

definition get_cheapest_fractional_path_for_pathkeys ::
    "gucs \<Rightarrow> Path list \<Rightarrow> PathKey list \<Rightarrow> Relids \<Rightarrow> double \<Rightarrow> Path option" where
  "get_cheapest_fractional_path_for_pathkeys g paths keys required_outer fraction =
     foldl (\<lambda>matched_path path.
       if (case matched_path of None \<Rightarrow> False | Some m \<Rightarrow> compare_fractional_path_costs g m path fraction \<le> 0)
       then matched_path
       else if pathkeys_contained_in keys (pathkeys path) \<and> bms_is_subset (PATH_REQ_OUTER path) required_outer
       then Some path else matched_path) None paths"

fun get_cheapest_parallel_safe_total_inner :: "Path list \<Rightarrow> Path option" where
  "get_cheapest_parallel_safe_total_inner [] = None"
| "get_cheapest_parallel_safe_total_inner (innerpath # paths) =
     (if parallel_safe innerpath \<and> bms_is_empty (PATH_REQ_OUTER innerpath) then Some innerpath
      else get_cheapest_parallel_safe_total_inner paths)"

subsection \<open>Monotonicity of the weighted cost\<close>

text \<open>A path that is no more expensive in time and in power has no greater weighted cost.\<close>

lemma weighted_cost_mono:
  assumes "nonneg (time_weight g)" "nonneg (power_weight g)"
    and "0 < total_cost p" "total_cost p \<le> total_cost q" "0 < power_cost p" "power_cost p \<le> power_cost q"
  shows "\<not> weighted_cost g q < weighted_cost g p"
  unfolding weighted_cost_def using assms
  by (intro dadd_mono_not_less dmult_mono_not_less log_mono)

subsection \<open>The cost comparison is an order\<close>

text \<open>
  A three-way comparison that orders the paths for which it is meaningful. A scan that keeps the best
  candidate so far, the shape of every selection of a cheapest path, then finds a least one.
\<close>

definition scan_cheapest :: "('p \<Rightarrow> 'p \<Rightarrow> int) \<Rightarrow> ('p \<Rightarrow> bool) \<Rightarrow> 'p option \<Rightarrow> 'p list \<Rightarrow> 'p option" where
  "scan_cheapest cmp P =
     foldl (\<lambda>m p. if (case m of None \<Rightarrow> False | Some b \<Rightarrow> cmp b p \<le> 0) then m
                    else if P p then Some p else m)"

locale path_order =
  fixes ok :: "'p \<Rightarrow> bool" and cmp :: "'p \<Rightarrow> 'p \<Rightarrow> int"
  assumes swap: "ok a \<Longrightarrow> ok b \<Longrightarrow> cmp b a = - cmp a b"
    and trans: "ok a \<Longrightarrow> ok b \<Longrightarrow> ok c \<Longrightarrow> cmp a b \<le> 0 \<Longrightarrow> cmp b c \<le> 0 \<Longrightarrow> cmp a c \<le> 0"
begin

lemma refl: "ok a \<Longrightarrow> cmp a a = 0"
  using swap [of a a] by simp

lemma linear: "ok a \<Longrightarrow> ok b \<Longrightarrow> cmp a b \<le> 0 \<or> cmp b a \<le> 0"
  using swap [of a b] by linarith

lemma scan_cheapest_Some:
  "ok m \<Longrightarrow> P m \<Longrightarrow> \<forall>p \<in> set ps. ok p \<Longrightarrow>
   \<exists>b. scan_cheapest cmp P (Some m) ps = Some b \<and> b \<in> insert m (set ps) \<and> P b \<and> cmp b m \<le> 0 \<and>
       (\<forall>p \<in> set ps. P p \<longrightarrow> cmp b p \<le> 0)"
proof (induction ps arbitrary: m)
  case Nil
  then show ?case by (simp add: scan_cheapest_def refl)
next
  case (Cons p ps)
  show ?case
  proof (cases "\<not> cmp m p \<le> 0 \<and> P p")
    case True
    then obtain b where b: "scan_cheapest cmp P (Some p) ps = Some b" "b \<in> insert p (set ps)" "P b" "cmp b p \<le> 0"
      "\<forall>p \<in> set ps. P p \<longrightarrow> cmp b p \<le> 0" using Cons.IH [of p] Cons.prems by auto
    have "cmp p m \<le> 0" using True swap [of m p] Cons.prems by simp
    then have "cmp b m \<le> 0" using trans [of b p m] b Cons.prems by auto
    then show ?thesis using b True by (auto simp: scan_cheapest_def)
  next
    case False
    then have s: "scan_cheapest cmp P (Some m) (p # ps) = scan_cheapest cmp P (Some m) ps"
      by (auto simp: scan_cheapest_def)
    obtain b where b: "scan_cheapest cmp P (Some m) ps = Some b" "b \<in> insert m (set ps)" "P b" "cmp b m \<le> 0"
      "\<forall>p \<in> set ps. P p \<longrightarrow> cmp b p \<le> 0" using Cons.IH [of m] Cons.prems by auto
    then have "P p \<longrightarrow> cmp b p \<le> 0" using trans [of b m p] False Cons.prems by auto
    then show ?thesis using b s by auto
  qed
qed

lemma scan_cheapest_least:
  assumes "\<forall>p \<in> set ps. ok p"
  shows "case scan_cheapest cmp P None ps of
      None \<Rightarrow> \<forall>p \<in> set ps. \<not> P p
    | Some b \<Rightarrow> b \<in> set ps \<and> P b \<and> (\<forall>p \<in> set ps. P p \<longrightarrow> cmp b p \<le> 0)"
  using assms
proof (induction ps)
  case (Cons p ps)
  show ?case
  proof (cases "P p")
    case True
    then have "scan_cheapest cmp P None (p # ps) = scan_cheapest cmp P (Some p) ps" by (simp add: scan_cheapest_def)
    then show ?thesis using scan_cheapest_Some [of p P ps] True Cons.prems by auto
  next
    case False
    then have "scan_cheapest cmp P None (p # ps) = scan_cheapest cmp P None ps" by (simp add: scan_cheapest_def)
    then show ?thesis using Cons False by (auto split: option.splits)
  qed
qed (simp add: scan_cheapest_def)

end

text \<open>Paths whose costs are numbers.\<close>

definition comparable :: "gucs \<Rightarrow> Path \<Rightarrow> bool" where
  "comparable g p \<longleftrightarrow> \<not> is_nan (weighted_cost g p) \<and> \<not> is_nan (startup_cost p)"

lemma compare_path_costs_swap:
  "compare_path_costs g b a c = - compare_path_costs g a b c"
  by (auto simp: compare_path_costs_def Let_def dest: dless_asym)

lemma compare_path_costs_trans:
  assumes "comparable g a" "comparable g b" "comparable g d"
    "compare_path_costs g a b c \<le> 0" "compare_path_costs g b d c \<le> 0"
  shows "compare_path_costs g a d c \<le> 0"
  using assms dlinear [of "weighted_cost g a" "weighted_cost g b"] dlinear [of "weighted_cost g b" "weighted_cost g d"]
    dlinear [of "startup_cost a" "startup_cost b"] dlinear [of "startup_cost b" "startup_cost d"]
  unfolding comparable_def compare_path_costs_def Let_def
  by (auto split: if_splits dest: dless_trans dless_asym)

interpretation cost_order: path_order "comparable g" "\<lambda>a b. compare_path_costs g a b c" for g c
  by unfold_locales (rule compare_path_costs_swap, rule compare_path_costs_trans)

definition fraction_comparable :: "gucs \<Rightarrow> double \<Rightarrow> Path \<Rightarrow> bool" where
  "fraction_comparable g f p \<longleftrightarrow> comparable g p \<and> \<not> is_nan (fractional_cost g p f)"

lemma compare_fractional_swap:
  "compare_fractional_path_costs g b a f = - compare_fractional_path_costs g a b f"
  using compare_path_costs_swap [of g b a TOTAL_COST]
  by (auto simp: compare_fractional_path_costs_def Let_def dest: dless_asym)

lemma compare_fractional_trans:
  assumes "fraction_comparable g f a" "fraction_comparable g f b" "fraction_comparable g f d"
    "compare_fractional_path_costs g a b f \<le> 0" "compare_fractional_path_costs g b d f \<le> 0"
  shows "compare_fractional_path_costs g a d f \<le> 0"
proof (cases "f \<le> 0 \<or> 1 \<le> f")
  case True
  then show ?thesis using assms compare_path_costs_trans [of g a b d TOTAL_COST]
    by (auto simp: compare_fractional_path_costs_def fraction_comparable_def)
next
  case False
  then show ?thesis using assms dlinear [of "fractional_cost g a f" "fractional_cost g b f"]
      dlinear [of "fractional_cost g b f" "fractional_cost g d f"]
    unfolding fraction_comparable_def compare_fractional_path_costs_def Let_def
    by (auto split: if_splits dest: dless_trans dless_asym)
qed

interpretation fractional_order: path_order "fraction_comparable g f"
  "\<lambda>a b. compare_fractional_path_costs g a b f" for g f
  by unfold_locales (rule compare_fractional_swap, rule compare_fractional_trans)

subsection \<open>Selection of a cheapest path\<close>

lemma get_cheapest_scan:
  "get_cheapest_path_for_pathkeys g paths keys outer c safe =
     scan_cheapest (\<lambda>a b. compare_path_costs g a b c)
       (\<lambda>p. (safe \<longrightarrow> parallel_safe p) \<and> pathkeys_contained_in keys (pathkeys p) \<and>
            bms_is_subset (PATH_REQ_OUTER p) outer) None paths"
  unfolding get_cheapest_path_for_pathkeys_def scan_cheapest_def
  by (rule arg_cong [where f = "\<lambda>h. foldl h None paths"]) (auto simp: fun_eq_iff)

lemma get_cheapest_fractional_scan:
  "get_cheapest_fractional_path_for_pathkeys g paths keys outer f =
     scan_cheapest (\<lambda>a b. compare_fractional_path_costs g a b f)
       (\<lambda>p. pathkeys_contained_in keys (pathkeys p) \<and> bms_is_subset (PATH_REQ_OUTER p) outer) None paths"
  unfolding get_cheapest_fractional_path_for_pathkeys_def scan_cheapest_def ..

lemma pathkeys_loop_iff:
  "pathkeys_loop k1 k2 =
     (if prefix k2 k1 then (if prefix k1 k2 then PATHKEYS_EQUAL else PATHKEYS_BETTER1)
      else if prefix k1 k2 then PATHKEYS_BETTER2 else PATHKEYS_DIFFERENT)"
  by (induction k1 k2 rule: pathkeys_loop.induct) auto

lemma compare_pathkeys_eq:
  "compare_pathkeys k1 k2 =
     (if k1 = k2 then PATHKEYS_EQUAL
      else if prefix k2 k1 then PATHKEYS_BETTER1
      else if prefix k1 k2 then PATHKEYS_BETTER2
      else PATHKEYS_DIFFERENT)"
  using prefix_order.antisym [of k1 k2] by (auto simp: compare_pathkeys_def pathkeys_loop_iff)

lemma pathkeys_contained_in_iff: "pathkeys_contained_in k1 k2 \<longleftrightarrow> prefix k1 k2"
  using prefix_order.antisym [of k1 k2] by (auto simp: pathkeys_contained_in_def compare_pathkeys_eq)

subsection \<open>The fuzzy comparison\<close>

lemma fuzz_le: "0 \<le> x \<Longrightarrow> between 1 u f \<Longrightarrow> x \<le> x * (f::double)"
proof -
  assume x: "0 \<le> x" and "between 1 u f"
  then obtain a where f: "f = Fin a" "1 \<le> val a" by (auto simp: between_def)
  show ?thesis
  proof (cases x)
    case (Fin b)
    then have "0 \<le> val b" using x by simp
    then have "val b * 1 \<le> val b * val a" using f by (intro mult_left_mono) auto
    then have "fl (val b) \<le> fl (val b * val a)" by (intro fl_mono) simp
    then show ?thesis using Fin f by (simp add: times_double_def)
  qed (use x f in \<open>auto simp: times_double_def dle_refl\<close>)
qed

lemma fuzzy_asym:
  assumes "0 \<le> x" "0 \<le> y" "between 1 u f" "y * f < x"
  shows "\<not> x * f < (y::double)"
proof
  assume "x * f < y"
  then have "x < y" using fuzz_le [OF assms(1,3)] dle_less_trans by blast
  moreover have "y < x" using fuzz_le [OF assms(2,3)] assms(4) dle_less_trans by blast
  ultimately show False using dless_asym by blast
qed

definition mirror :: "PathCostComparison \<Rightarrow> PathCostComparison" where
  "mirror c = (case c of COSTS_BETTER1 \<Rightarrow> COSTS_BETTER2 | COSTS_BETTER2 \<Rightarrow> COSTS_BETTER1 | _ \<Rightarrow> c)"

definition fuzzy_ok :: "gucs \<Rightarrow> Path \<Rightarrow> bool" where
  "fuzzy_ok g p \<longleftrightarrow> 0 \<le> weighted_cost g p \<and> 0 \<le> startup_cost p"

lemma compare_path_costs_fuzzily_swap:
  assumes "fuzzy_ok g p" "fuzzy_ok g q" "between 1 u f"
  shows "compare_path_costs_fuzzily g q p f = mirror (compare_path_costs_fuzzily g p q f)"
proof -
  have "weighted_cost g q * f < weighted_cost g p \<Longrightarrow> \<not> weighted_cost g p * f < weighted_cost g q"
    "startup_cost q * f < startup_cost p \<Longrightarrow> \<not> startup_cost p * f < startup_cost q"
    using assms fuzzy_asym [of "weighted_cost g p" "weighted_cost g q" u f]
      fuzzy_asym [of "startup_cost p" "startup_cost q" u f] by (auto simp: fuzzy_ok_def)
  then show ?thesis unfolding compare_path_costs_fuzzily_def Let_def mirror_def by simp
qed

lemma compare_path_costs_fuzzily_refl:
  assumes "fuzzy_ok g p" "between 1 u f"
  shows "compare_path_costs_fuzzily g p p f = COSTS_EQUAL"
proof -
  have "\<not> x * f < x" if "0 \<le> x" for x using fuzzy_asym [OF that that assms(2)] by blast
  then show ?thesis using assms(1) by (simp add: compare_path_costs_fuzzily_def Let_def fuzzy_ok_def)
qed

text \<open>
  Below a total cost of one the logarithm is negative, and multiplying it by the fuzz factor makes it
  smaller: the comparison then finds a path worse than itself.
\<close>

lemma STD_FUZZ_between: "between (1 + 1 / 128) (1 + 1 / 64) STD_FUZZ_FACTOR"
  unfolding STD_FUZZ_FACTOR_def
  using f64_setI [of 129 7] f64_setI [of 65 6] by (intro between_fl) simp_all

lemma STD_FUZZ_ge_1: "between 1 (1 + 1 / 64) STD_FUZZ_FACTOR"
  using STD_FUZZ_between by (rule between_weaken) simp_all

lemma fuzz_of_negative:
  assumes "weighted_cost g p = Fin w" "val w \<le> - (1 / 2 ^ 64)"
  shows "weighted_cost g p * STD_FUZZ_FACTOR < weighted_cost g p"
proof -
  obtain f where f: "STD_FUZZ_FACTOR = Fin f" "1 + 1 / 128 \<le> val f" "val f \<le> 2"
    using STD_FUZZ_between by (auto simp: between_def)
  show ?thesis unfolding assms(1) f(1) by (rule mult_less_negative [OF assms(2) _ f(2,3)]) simp
qed

subsection \<open>Example paths\<close>

definition example_target :: PathTarget where
  "example_target = \<lparr> target_exprs = [Var 1 1 20 (- 1)], target_cost = zero_cost, target_width = 8 \<rparr>"

definition example_rel :: RelOptBase where
  "example_rel = \<lparr> reloptkind = RELOPT_BASEREL, relids = Some [2], rel_rows = fl 1000, consider_startup = True, consider_param_startup = False, consider_parallel = True,
     reltarget = example_target, lateral_relids = None, relid = 1, reltablespace = 0, min_attr = - 7, max_attr = 2,
     attr_widths = replicate 10 0, pages = 100, tuples = fl 1000, allvisfrac = 0,
     rel_parallel_workers = - 1, baserestrictinfo = [], baserestrictcost = zero_cost \<rparr>"

definition example_path :: "double \<Rightarrow> double \<Rightarrow> double \<Rightarrow> PathKey list \<Rightarrow> Path" where
  "example_path s t w keys = \<lparr> path_node = T_Path, pathtype = T_SeqScan, parent = example_rel, pathtarget = example_target,
     param_info = None, parallel_aware = False, parallel_safe = True, parallel_workers = 0, rows = fl 1000,
     startup_cost = s, total_cost = t, io_cost = 0, cpu_cost = 0, power_cost = w, pathkeys = keys \<rparr>"

lemma example_weighted:
  assumes "1 \<le> t" "t \<in> f64_set" "1 \<le> w" "w \<in> f64_set"
  shows "between 0 1024 (weighted_cost default_gucs (example_path s (fl t) (fl w) keys))"
proof -
  obtain a b where ab: "fl t = Fin a" "val a = t" "fl w = Fin b" "val b = w"
    using assms fl_eq_Fin by metis
  have a: "between 0 1024 (log_d (Fin a))" and "between 0 1024 (log_d (Fin b))"
    using log_finite [of a] log_finite [of b] ab assms by simp_all
  then obtain c where "log_d (Fin b) = Fin c" by (auto simp: between_def)
  then have "fl 0 * log_d (Fin b) = 0" using dmult_zero(1) [of c] by (simp add: zero_fl)
  then have "weighted_cost default_gucs (example_path s (fl t) (fl w) keys) = log_d (Fin a)"
    by (simp add: weighted_cost_def example_path_def default_gucs_def ab del: log_d.simps)
  then show ?thesis using a by simp
qed

lemma example_ok:
  assumes "1 \<le> t" "t \<in> f64_set" "1 \<le> w" "w \<in> f64_set" "0 \<le> s"
  shows "comparable default_gucs (example_path (fl s) (fl t) (fl w) keys)"
    "fuzzy_ok default_gucs (example_path (fl s) (fl t) (fl w) keys)"
  using example_weighted [OF assms(1-4)] assms(5) nonneg_not_nan [OF nonneg_fl]
  by (auto simp: comparable_def fuzzy_ok_def example_path_def dest: between_le between_not_nan)

abbreviation "p100 \<equiv> example_path (fl 0) (fl 100) (fl 40) []"
abbreviation "p200 \<equiv> example_path (fl 10) (fl 200) (fl 40) []"

lemma p_ok:
  "comparable default_gucs p100" "comparable default_gucs p200"
  "fuzzy_ok default_gucs p100" "fuzzy_ok default_gucs p200"
  by (intro example_ok exact_numeral; simp)+

lemma half_weighted:
  "\<exists>w. weighted_cost default_gucs (example_path (fl 0) (fl (1 / 2)) (fl 40) []) = Fin w \<and> val w \<le> - (1 / 2)"
proof -
  obtain a b where ab: "fl (1 / 2) = Fin a" "val a = 1 / 2" "fl 40 = Fin b" "val b = 40"
    using fl_eq_Fin [of "1 / 2"] fl_eq_Fin [of 40] f64_setI [of 1 1] exact_numeral by auto
  have "ln (1 / 2 :: real) \<le> - (1 / 2)" using ln_le_minus_one [of "1 / 2"] by simp
  moreover have "- 1 \<le> ln (1 / 2 :: real)" using ln_le_minus_one [of 2] by (simp add: ln_div)
  ultimately have "between (- 1) (- (1 / 2)) (fl (ln (1 / 2)))"
    using f64_setI [of "- 1" 1] exact_neg [OF exact_one] by (intro between_fl) simp_all
  then have "between (- 1) (- (1 / 2)) (log_d (Fin a))" unfolding log_d.simps ab(2) by simp
  moreover obtain c where "log_d (Fin b) = Fin c" using log_finite [of b] ab by (auto simp: between_def)
  then have "fl 0 * log_d (Fin b) = 0" using dmult_zero(1) [of c] by (simp add: zero_fl)
  ultimately show ?thesis
    by (auto simp: weighted_cost_def example_path_def default_gucs_def ab between_def simp del: log_d.simps)
qed

lemma p_fraction_ok: "fraction_comparable default_gucs (fl (1 / 2)) p100" "fraction_comparable default_gucs (fl (1 / 2)) p200"
  using p_ok(1,2) f64_setI [of 1 1]
  by (simp_all add: fraction_comparable_def fractional_cost_def example_path_def default_gucs_def float_eval)

subsection \<open>Correctness\<close>

text \<open>
  C27: On paths whose weighted and startup costs are numbers, \<^verbatim>\<open>compare_path_costs\<close> is a total preorder for
  either criterion: swapping the paths negates the result, and being no more expensive is transitive.
\<close>

theorem compare_path_costs_order:
  "comparable g a \<Longrightarrow> comparable g b \<Longrightarrow> comparable g d \<Longrightarrow>
   compare_path_costs g b a c = - compare_path_costs g a b c \<and>
   (compare_path_costs g a b c \<le> 0 \<longrightarrow> compare_path_costs g b d c \<le> 0 \<longrightarrow> compare_path_costs g a d c \<le> 0)"
  using cost_order.swap [of g a b c] cost_order.trans [of g a b d c] by blast

theorem compare_path_costs_order_witness:
  "compare_path_costs default_gucs p200 p100 TOTAL_COST = - compare_path_costs default_gucs p100 p200 TOTAL_COST"
  using compare_path_costs_order [OF p_ok(1,2,1), of TOTAL_COST] by blast



text \<open>
  C29: The fuzzy comparison is symmetric and reflexive on paths whose weighted cost is at least zero:
  swapping the paths swaps the verdict, and a path equals itself, for any finite fuzz factor of at
  least one.
\<close>

theorem compare_path_costs_fuzzily_mirror:
  "fuzzy_ok g p \<Longrightarrow> fuzzy_ok g q \<Longrightarrow> between 1 2 f \<Longrightarrow>
   compare_path_costs_fuzzily g q p f =
     (case compare_path_costs_fuzzily g p q f of
        COSTS_BETTER1 \<Rightarrow> COSTS_BETTER2 | COSTS_BETTER2 \<Rightarrow> COSTS_BETTER1 | c \<Rightarrow> c) \<and>
   compare_path_costs_fuzzily g p p f = COSTS_EQUAL"
  using compare_path_costs_fuzzily_swap [of g p q 2 f] compare_path_costs_fuzzily_refl [of g p 2 f]
  by (simp add: mirror_def split: PathCostComparison.split)

theorem compare_path_costs_fuzzily_mirror_witness:
  "compare_path_costs_fuzzily default_gucs p100 p100 STD_FUZZ_FACTOR = COSTS_EQUAL"
proof -
  have "between 1 2 STD_FUZZ_FACTOR" using STD_FUZZ_ge_1 by (rule between_weaken) simp_all
  from compare_path_costs_fuzzily_mirror [OF p_ok(3,4) this] show ?thesis by blast
qed

text \<open>
  C30: That fails for cheap paths: once the weighted cost is negative, which with the default weights is
  the case for every total cost below one, the fuzzy comparison declares a path worse than itself,
  in both argument positions at once.
\<close>

theorem negative_weighted_cost_worse_than_itself:
  "weighted_cost g p = Fin w \<Longrightarrow> val w \<le> - (1 / 2 ^ 64) \<Longrightarrow> 0 \<le> startup_cost p \<Longrightarrow>
   compare_path_costs_fuzzily g p p STD_FUZZ_FACTOR = COSTS_BETTER2"
proof -
  assume a: "weighted_cost g p = Fin w" "val w \<le> - (1 / 2 ^ 64)" "0 \<le> startup_cost p"
  have "\<not> startup_cost p * STD_FUZZ_FACTOR < startup_cost p"
    using fuzzy_asym [OF a(3) a(3) STD_FUZZ_ge_1] by blast
  then show ?thesis using fuzz_of_negative [OF a(1,2)] by (simp add: compare_path_costs_fuzzily_def Let_def)
qed

theorem negative_weighted_cost_worse_than_itself_witness:
  "compare_path_costs_fuzzily default_gucs (example_path (fl 0) (fl (1 / 2)) (fl 40) [])
     (example_path (fl 0) (fl (1 / 2)) (fl 40) []) STD_FUZZ_FACTOR = COSTS_BETTER2"
proof -
  obtain w where w: "weighted_cost default_gucs (example_path (fl 0) (fl (1 / 2)) (fl 40) []) = Fin w"
    "val w \<le> - (1 / 2)" using half_weighted by blast
  show ?thesis
    by (rule negative_weighted_cost_worse_than_itself [OF w(1)])
      (use w(2) in \<open>simp_all add: example_path_def float_eval\<close>)
qed

text \<open>
  C31: \<^verbatim>\<open>get_cheapest_path_for_pathkeys\<close> and its fractional variant return a cheapest path among those that
  deliver the required sort order with an allowed parameterization (and are parallel safe when that is
  required), and nothing when there is none.
\<close>

theorem get_cheapest_path_is_cheapest:
  "\<forall>p \<in> set paths. fraction_comparable g f p \<Longrightarrow>
   (case get_cheapest_path_for_pathkeys g paths keys outer c safe of
      None \<Rightarrow> \<forall>p \<in> set paths. (safe \<longrightarrow> parallel_safe p) \<longrightarrow>
                \<not> (prefix keys (pathkeys p) \<and> bms_set (PATH_REQ_OUTER p) \<subseteq> bms_set outer)
    | Some b \<Rightarrow> b \<in> set paths \<and> (safe \<longrightarrow> parallel_safe b) \<and> prefix keys (pathkeys b) \<and>
        bms_set (PATH_REQ_OUTER b) \<subseteq> bms_set outer \<and>
        (\<forall>p \<in> set paths. (safe \<longrightarrow> parallel_safe p) \<longrightarrow> prefix keys (pathkeys p) \<longrightarrow>
           bms_set (PATH_REQ_OUTER p) \<subseteq> bms_set outer \<longrightarrow> compare_path_costs g b p c \<le> 0)) \<and>
   (case get_cheapest_fractional_path_for_pathkeys g paths keys outer f of
      None \<Rightarrow> \<forall>p \<in> set paths. \<not> (prefix keys (pathkeys p) \<and> bms_set (PATH_REQ_OUTER p) \<subseteq> bms_set outer)
    | Some b \<Rightarrow> b \<in> set paths \<and> prefix keys (pathkeys b) \<and> bms_set (PATH_REQ_OUTER b) \<subseteq> bms_set outer \<and>
        (\<forall>p \<in> set paths. prefix keys (pathkeys p) \<longrightarrow> bms_set (PATH_REQ_OUTER p) \<subseteq> bms_set outer \<longrightarrow>
           compare_fractional_path_costs g b p f \<le> 0))"
  using cost_order.scan_cheapest_least [where ps = paths and g = g and c = c and P = "\<lambda>p. (safe \<longrightarrow> parallel_safe p) \<and>
        pathkeys_contained_in keys (pathkeys p) \<and> bms_is_subset (PATH_REQ_OUTER p) outer"]
    fractional_order.scan_cheapest_least [where ps = paths and g = g and f = f and P = "\<lambda>p.
        pathkeys_contained_in keys (pathkeys p) \<and> bms_is_subset (PATH_REQ_OUTER p) outer"]
  unfolding get_cheapest_scan get_cheapest_fractional_scan pathkeys_contained_in_iff relids.is_subset_iff
    fraction_comparable_def
  by (auto split: option.splits)

theorem get_cheapest_path_is_cheapest_witness:
  "\<exists>b. get_cheapest_path_for_pathkeys default_gucs [p200, p100] [] None TOTAL_COST True = Some b \<and>
     compare_path_costs default_gucs b p100 TOTAL_COST \<le> 0 \<and> compare_path_costs default_gucs b p200 TOTAL_COST \<le> 0"
  using get_cheapest_path_is_cheapest [where paths = "[p200, p100]" and g = default_gucs and f = "fl (1 / 2)" and keys = "[]"
      and outer = None and c = TOTAL_COST and safe = True] p_fraction_ok
  by (auto simp: example_path_def PATH_REQ_OUTER_def split: option.splits)

end
