(* ===== verification/Float_Facts.thy ===== *)
theory Float_Facts
  imports Float64
begin

text \<open>
  Facts on double arithmetic that the cost formulas need: differences and interpolations of
  non-negative values, intervals under subtraction and division, and rounding to integers.
\<close>

subsection \<open>Sums and differences\<close>

lemma grows: "\<not> t < s \<Longrightarrow> nonneg a \<Longrightarrow> \<not> t + a < (s::double)"
  using dadd_mono_not_less [of t s a 0] by (simp add: nonneg_def)

lemmas grows1 = grows [OF dless_irrefl]
lemmas grows2 = grows [OF grows1]

lemma minus_Fin: "Fin a - Fin b = fl (val a - val b)"
  using fl_exact_eqs(2) [OF val [of a] val [of b]] by simp

lemma minus_inf: "NInf - NInf = (NaN::double)" "PInf - NInf = (PInf::double)" "Fin a - NInf = PInf" "PInf - Fin b = PInf"
proof -
  obtain c where "fl (- val b) = Fin c" using fl_eq_Fin [OF exact_neg [OF val [of b]]] by blast
  then show "PInf - Fin b = PInf" by (simp add: minus_double_def)
qed (simp_all add: minus_double_def)

lemma nonneg_minus [nonneg_intros]: "\<not> b < a \<Longrightarrow> nonneg (b - a)"
proof (cases a; cases b)
  fix x y assume "a = Fin x" "b = Fin y" "\<not> b < a"
  then show "nonneg (b - a)" by (simp add: minus_Fin less_double_def nonneg_fl)
qed (simp_all add: minus_inf, simp_all add: minus_double_def less_double_def)

lemma not_le_not_less: "\<not> a \<le> b \<Longrightarrow> \<not> a < (b::double)"
  using dless_imp_le by blast

lemma nonneg_above_1: "\<not> x \<le> fl 1 \<Longrightarrow> nonneg x"
proof -
  assume a: "\<not> x \<le> fl 1"
  have "0 \<le> fl 1" using nonneg_one nonneg_not_nan by (simp add: one_fl)
  then show ?thesis using a by (auto simp: nonneg_def dest: dless_imp_le dle_trans)
qed

lemma minus_neg: "a - b = - (b - (a::double))"
proof (cases a; cases b)
  fix x y assume "a = Fin x" "b = Fin y"
  then show ?thesis by (simp add: minus_Fin fl_neg)
next
  fix y assume "a = PInf" "b = Fin y"
  moreover obtain c where "fl (- val y) = Fin c" using fl_eq_Fin [OF exact_neg [OF val [of y]]] by blast
  ultimately show ?thesis by (simp add: minus_double_def uminus_double_def)
next
  fix x assume "a = Fin x" "b = PInf"
  moreover obtain c where "fl (- val x) = Fin c" using fl_eq_Fin [OF exact_neg [OF val [of x]]] by blast
  ultimately show ?thesis by (simp add: minus_double_def uminus_double_def)
next
  fix y assume "a = NInf" "b = Fin y"
  moreover obtain c where "fl (- val y) = Fin c" using fl_eq_Fin [OF exact_neg [OF val [of y]]] by blast
  ultimately show ?thesis by (simp add: minus_double_def uminus_double_def)
next
  fix x assume "a = Fin x" "b = NInf"
  moreover obtain c where "fl (- val x) = Fin c" using fl_eq_Fin [OF exact_neg [OF val [of x]]] by blast
  ultimately show ?thesis by (simp add: minus_double_def uminus_double_def)
qed (simp_all add: minus_double_def uminus_double_def)

lemma fl_ge_0: "0 \<le> r \<Longrightarrow> 0 \<le> fl r"
  by (rule nonneg_not_nan [OF nonneg_fl]) simp_all

lemma dadd_nonneg_le:
  assumes "(0::double) \<le> a" "0 \<le> b"
  shows "a \<le> a + b" "b \<le> a + b" "0 \<le> a + b"
proof -
  have nn: "nonneg a" "nonneg b" "\<not> is_nan a" "\<not> is_nan b"
    using assms le_imp_nonneg dle_not_nan by auto
  then have "\<not> is_nan (a + b)" by (cases a; cases b) (auto simp: plus_double_def)
  then show "a \<le> a + b" "b \<le> a + b"
    using dnot_less nn add_nonneg_not_less1 [of b a] add_nonneg_not_less2 [of a b] by blast+
  then show "0 \<le> a + b" using assms dle_trans by blast
qed

lemma scale_nonneg: "0 \<le> x \<Longrightarrow> r \<in> f64_set \<Longrightarrow> 0 < r \<Longrightarrow> 0 \<le> fl r * x"
proof -
  assume x: "0 \<le> x" and r: "r \<in> f64_set" "0 < r"
  obtain h where h: "fl r = Fin h" "val h = r" using fl_eq_Fin [OF r(1)] by blast
  have "nonneg x" "\<not> is_nan x" using x le_imp_nonneg dle_not_nan by auto
  then have "\<not> is_nan (fl r * x)" using h r by (cases x) (auto simp: times_double_def)
  then show ?thesis using \<open>nonneg x\<close> r by (intro nonneg_not_nan nonneg_mult nonneg_fl) simp_all
qed

lemma divide_not_above: "nonneg x \<Longrightarrow> \<not> d < fl 1 \<Longrightarrow> \<not> x < x / d"
proof (cases x; cases d)
  fix a b assume a: "nonneg x" "\<not> d < fl 1" "x = Fin a" "d = Fin b"
  obtain e where "fl 1 = Fin e" "val e = 1" using fl_eq_Fin [OF exact_one] by blast
  then have b: "1 \<le> val b" using a by (simp add: less_double_def)
  then have "val a / val b \<le> val a" using a divide_left_mono [of 1 "val b" "val a"] by simp
  then have "fl (val a / val b) \<le> Fin a" using fl_mono [of _ "val a"] by simp
  then show ?thesis using a b dless_not_le by (auto simp: divide_double_def)
next
  fix a assume "nonneg x" "x = Fin a" "d = PInf"
  then show ?thesis by (auto simp: divide_double_def zero_double_def [symmetric])
next
  fix a assume "\<not> d < fl 1" "x = Fin a" "d = NInf"
  then show ?thesis using fl_eq_Fin [OF exact_one] by (auto simp: less_double_def)
qed (auto simp: divide_double_def)

subsection \<open>Fractions\<close>

lemma fraction_mult:
  assumes "between 0 1 a" "between 0 1 b"
  shows "between 0 1 (a * b)" "a * b \<le> a" "a * b \<le> b"
proof -
  obtain x y where xy: "a = Fin x" "0 \<le> val x" "val x \<le> 1" "b = Fin y" "0 \<le> val y" "val y \<le> 1"
    using assms by (auto simp: between_def)
  show "between 0 1 (a * b)"
    using between_mult [OF assms, of 0 1] exact_zero exact_one by simp
  have "val x * val y \<le> val x" "val x * val y \<le> val y"
    using xy mult_left_mono [of "val y" 1 "val x"] mult_right_mono [of "val x" 1 "val y"] by simp_all
  then show "a * b \<le> a" "a * b \<le> b" using fl_mono [of _ "val x"] fl_mono [of _ "val y"] xy by (auto simp: times_double_def)
qed

lemma Min_1: "0 \<le> x \<Longrightarrow> between 0 1 (Min_d x (fl 1))"
proof -
  assume x: "0 \<le> x"
  obtain h where "fl 1 = Fin h" "val h = 1" using fl_eq_Fin [OF exact_one] by blast
  then show ?thesis using x by (cases x) (auto simp: Min_d_def between_def less_double_def)
qed

lemma square_fraction: "between (- 1) 1 c \<Longrightarrow> between 0 1 (c * c)"
proof -
  assume "between (- 1) 1 c"
  then obtain a where a: "c = Fin a" "- 1 \<le> val a" "val a \<le> 1" by (auto simp: between_def)
  then have "\<bar>val a\<bar> \<le> 1" by simp
  then have "val a * val a \<le> 1" by (metis abs_square_le_1 power2_eq_square)
  then have "between 0 1 (fl (val a * val a))" by (intro between_fl exact_zero exact_one) simp_all
  then show ?thesis using a by (simp add: times_double_def)
qed

text \<open>Interpolation between two non-negative costs by a fraction is not negative.\<close>

lemma part_not_above:
  assumes "nonneg a" "nonneg b" "between 0 1 s"
  shows "\<not> a < s * (a - b)"
proof -
  obtain c where c: "s = Fin c" "0 \<le> val c" "val c \<le> 1" using assms(3) by (auto simp: between_def)
  show ?thesis
  proof (cases a; cases b)
    fix x y assume ab: "a = Fin x" "b = Fin y"
    then have xy: "0 \<le> val x" "0 \<le> val y" using assms by simp_all
    have "fl (val x - val y) \<le> Fin x" using fl_mono [of "val x - val y" "val x"] xy by simp
    moreover have "\<not> Fin x < Fin c * Fin d" if d: "val d \<le> val x" for d
    proof -
      have "val c * val d \<le> val x"
      proof (cases "0 \<le> val d")
        case True
        then show ?thesis using mult_right_mono [of "val c" 1 "val d"] c d by simp
      next
        case False
        then show ?thesis using mult_nonneg_nonpos [of "val c" "val d"] c xy by simp
      qed
      then have "fl (val c * val d) \<le> Fin x" using fl_mono [of "val c * val d" "val x"] by simp
      then show ?thesis using dless_not_le by (auto simp: times_double_def)
    qed
    moreover have "\<not> Fin x < Fin c * NInf" using c by (auto simp: times_double_def)
    ultimately show ?thesis using ab c by (cases "fl (val x - val y)") (auto simp: minus_Fin less_eq_double_def)
  next
    fix x assume "a = Fin x" "b = PInf"
    moreover have "Fin x - PInf = NInf" by (simp add: minus_double_def)
    ultimately show ?thesis using c by (auto simp: times_double_def)
  qed (use assms in \<open>auto simp: minus_double_def times_double_def c(1)\<close>)
qed

lemma nonneg_interpolate:
  assumes "nonneg a" "nonneg b" "between 0 1 s"
  shows "nonneg (a + s * (b - a))" "nonneg (a - (a - b) * s)"
proof -
  have "a + s * (b - a) = a - s * (a - b)"
    unfolding minus_neg [of b a] mult_neg_right by (simp add: minus_double_def plus_double_def uminus_double_def)
  then show "nonneg (a + s * (b - a))" using part_not_above [OF assms] nonneg_minus by simp
  show "nonneg (a - (a - b) * s)"
    using part_not_above [OF assms] nonneg_minus by (simp add: dmult_commute [of _ s])
qed

subsection \<open>Intervals\<close>

lemma exact_pow2: "n < 1024 \<Longrightarrow> (2::real) ^ n \<in> f64_set"
proof -
  assume "n < 1024"
  then have "(2::real) ^ n < ovf" unfolding ovf_def by (intro power_strict_increasing) simp_all
  moreover have "(2::real) ^ n = of_int 1 * 2 powr of_int (int n)" by (simp add: powr_realpow)
  ultimately show ?thesis unfolding f64_set_def by (intro CollectI conjI exI [of _ 1] exI [of _ "int n"]) auto
qed

lemma between_minus:
  assumes "between l u x" "between l' u' y" "L \<le> l - u'" "u - l' \<le> U" "L \<in> f64_set" "U \<in> f64_set"
  shows "between L U (x - y)"
proof -
  have "x - y = x + - y" by (simp add: minus_double_def plus_double_def uminus_double_def)
  then show ?thesis using between_add [OF assms(1) between_neg [OF assms(2)], of L U] assms by simp
qed

lemma between_divide:
  assumes "between l u x" "between l' u' y" "0 \<le> l" "0 < l'" "L \<le> l / u'" "u / l' \<le> U" "L \<in> f64_set" "U \<in> f64_set"
  shows "between L U (x / y)"
proof -
  obtain a b where ab: "x = Fin a" "l \<le> val a" "val a \<le> u" "y = Fin b" "l' \<le> val b" "val b \<le> u'"
    using assms(1,2) by (auto simp: between_def)
  have "l / u' \<le> val a / val b" "val a / val b \<le> u / l'"
    using ab assms(3,4) by (intro frac_le; linarith)+
  then have "between L U (fl (val a / val b))" using assms(5-8) by (intro between_fl) linarith+
  moreover have "val b \<noteq> 0" using ab assms(4) by simp
  ultimately show ?thesis using ab by (simp add: divide_double_def)
qed

lemma between_int: "\<bar>m\<bar> \<le> 2 ^ 53 \<Longrightarrow> between (of_int m) (of_int m) (fl (of_int m))"
  by (rule between_fl) (auto intro: exact_of_int)

lemma between_diff_nonneg:
  assumes "\<not> x < y" "between l u x" "between 0 u' y" "u \<in> f64_set"
  shows "between 0 u (x - y)"
proof -
  obtain a b where ab: "x = Fin a" "val a \<le> u" "y = Fin b" "0 \<le> val b" using assms(2,3) by (auto simp: between_def)
  then have "0 \<le> val a - val b" "val a - val b \<le> u" using assms(1) by (simp_all add: less_double_def)
  then show ?thesis unfolding ab minus_Fin using assms(4) by (intro between_fl exact_zero)
qed

subsection \<open>Rounding to integers\<close>

lemma f64_large_int: "x \<in> f64_set \<Longrightarrow> 2 ^ 53 < \<bar>x\<bar> \<Longrightarrow> \<exists>i. x = of_int i"
proof -
  assume "x \<in> f64_set" and large: "2 ^ 53 < \<bar>x\<bar>"
  then obtain m k :: int where m: "\<bar>m\<bar> \<le> 2 ^ 53" and x: "x = of_int m * 2 powr of_int k"
    unfolding f64_set_def by blast
  have "0 \<le> k"
  proof (rule ccontr)
    assume "\<not> 0 \<le> k"
    then have "2 powr of_int k \<le> (1::real)" using powr_mono [of "of_int k" 0 2] by simp
    then have "\<bar>x\<bar> \<le> of_int \<bar>m\<bar>" unfolding x abs_mult using mult_left_mono [of "2 powr of_int k" 1 "\<bar>of_int m\<bar> :: real"] by simp
    moreover have "(of_int \<bar>m\<bar> :: real) \<le> 2 ^ 53" using m by (metis of_int_le_iff of_int_numeral of_int_power)
    ultimately show False using large by linarith
  qed
  then have "2 powr of_int k = (of_int (2 ^ nat k) :: real)" using powr_int_diff [of 0 k] by simp
  then show ?thesis unfolding x by (metis of_int_mult)
qed

lemma integral_result:
  assumes i: "\<bar>of_int i\<bar> \<le> (2::real) ^ 53 \<or> val a = of_int i"
  shows "\<exists>c. fl (of_int i) = Fin c \<and> val c = of_int i"
  using i
proof
  assume "\<bar>of_int i\<bar> \<le> (2::real) ^ 53"
  then have "\<bar>i\<bar> \<le> 2 ^ 53" by (metis of_int_abs of_int_le_iff of_int_numeral of_int_power)
  then show ?thesis using fl_eq_Fin exact_of_int by blast
next
  assume "val a = of_int i"
  then show ?thesis using fl_val [of a] by auto
qed

lemma ceil_Fin: "\<exists>c. ceil_d (Fin a) = Fin c \<and> val c = of_int \<lceil>val a\<rceil>"
proof -
  have "\<bar>of_int \<lceil>val a\<rceil>\<bar> \<le> (2::real) ^ 53 \<or> val a = of_int \<lceil>val a\<rceil>"
  proof (cases "\<bar>val a\<bar> \<le> 2 ^ 53")
    case True
    then have "\<lceil>val a\<rceil> \<le> 2 ^ 53" "- (2 ^ 53) \<le> \<lceil>val a\<rceil>" by (auto simp: ceiling_le_iff le_ceiling_iff)
    then have "\<bar>\<lceil>val a\<rceil>\<bar> \<le> 2 ^ 53" by linarith
    then have "(of_int \<bar>\<lceil>val a\<rceil>\<bar> :: real) \<le> of_int (2 ^ 53)" by (simp only: of_int_le_iff)
    then show ?thesis by (simp only: of_int_abs of_int_power of_int_numeral simp_thms)
  next
    case False
    then show ?thesis using f64_large_int [OF val [of a]] by auto
  qed
  from integral_result [OF this] show ?thesis by simp
qed

lemma ceil_between:
  assumes "between l u x" "u = of_int k"
  shows "\<exists>i. ceil_d x = fl (of_int i) \<and> between (of_int i) (of_int i) (ceil_d x) \<and> l \<le> of_int i \<and> i \<le> k"
proof -
  obtain a where a: "x = Fin a" "l \<le> val a" "val a \<le> u" using assms(1) by (auto simp: between_def)
  obtain c where "ceil_d (Fin a) = Fin c" "val c = of_int \<lceil>val a\<rceil>" using ceil_Fin by blast
  moreover have "\<lceil>val a\<rceil> \<le> k" using a assms(2) by (simp add: ceiling_le_iff)
  ultimately show ?thesis using a by (intro exI [of _ "\<lceil>val a\<rceil>"]) (auto simp: between_def intro: order_trans)
qed

lemma ceil_positive:
  assumes "between l u x" "0 < l" "u = of_int k"
  shows "\<exists>i. ceil_d x = fl (of_int i) \<and> between (of_int i) (of_int i) (ceil_d x) \<and> 1 \<le> i \<and> i \<le> k"
proof -
  obtain i where i: "ceil_d x = fl (of_int i)" "between (of_int i) (of_int i) (ceil_d x)" "l \<le> of_int i" "i \<le> k"
    using ceil_between [OF assms(1,3)] by blast
  have "0 < real_of_int i" using i(3) assms(2) by linarith
  then have "1 \<le> i" by linarith
  then show ?thesis using i by blast
qed

lemma rint_Fin: "\<exists>c. rint_d (Fin a) = Fin c \<and> val c = of_int (rne (val a))"
proof -
  have "\<bar>of_int (rne (val a))\<bar> \<le> (2::real) ^ 53 \<or> val a = of_int (rne (val a))"
  proof (cases "\<bar>val a\<bar> \<le> 2 ^ 53")
    case True
    then have "val a \<le> of_int (2 ^ 53)" "of_int (- (2 ^ 53)) \<le> val a" by auto
    from rne_mono [OF this(1)] rne_mono [OF this(2)]
    have "\<bar>rne (val a)\<bar> \<le> 2 ^ 53" unfolding rne_of_int by linarith
    then have "(of_int \<bar>rne (val a)\<bar> :: real) \<le> of_int (2 ^ 53)" by (simp only: of_int_le_iff)
    then show ?thesis by (simp only: of_int_abs of_int_power of_int_numeral simp_thms)
  next
    case False
    then show ?thesis using f64_large_int [OF val [of a]] by auto
  qed
  from integral_result [OF this] show ?thesis by simp
qed

end
