(* ===== verification/Cost_Scan.thy ===== *)
theory Cost_Scan
  imports Paths Float_Facts
begin

text \<open>
  The cost of scanning a relation: the helpers at the end of \<^verbatim>\<open>costsize.c\<close> and its routines for
  sequential, sample, TID, subquery, function, table function, values, CTE and tuplestore scans and for
  collecting the rows of parallel workers. A routine that evaluates clauses reads and writes the cost
  cached in them and may raise an error, so it is a \<open>planner\<close> action: it takes the store of cached
  costs and returns the new store and the path with its cost fields filled in.
\<close>

type_synonym Selectivity = double

subsection \<open>Planner actions\<close>

type_synonym 'a planner = "eval_cache \<Rightarrow> (eval_cache \<times> 'a) ereport"

definition preturn :: "'a \<Rightarrow> 'a planner" where
  "preturn x cache = Inr (cache, x)"

definition pbind :: "'a planner \<Rightarrow> ('a \<Rightarrow> 'b planner) \<Rightarrow> 'b planner" where
  "pbind m f cache = ebind (m cache) (\<lambda>(cache', x). f x cache')"

definition praise :: "string \<Rightarrow> 'a planner" where
  "praise e cache = Inl e"

definition plift :: "'a ereport \<Rightarrow> 'a planner" where
  "plift r = (case r of Inl e \<Rightarrow> praise e | Inr x \<Rightarrow> preturn x)"

subsection \<open>What costing reads of a query\<close>

text \<open>
  Of a range table entry: the function expressions, the expressions of a table function, whether the
  sampling method of a \<^verbatim>\<open>TABLESAMPLE\<close> clause chooses blocks itself (\<^verbatim>\<open>NextSampleBlock\<close>), the length of a
  \<^verbatim>\<open>VALUES\<close> list, whether a CTE refers to itself, and the size announced for a tuplestore. Together with
  the query's \<^verbatim>\<open>PlannerInfo\<close> go the system catalogs and the options cached for tablespaces, which are
  pairs of a random and a sequential page cost.
\<close>

record RangeTblEntry =
  rte_relid :: Oid
  rte_functions :: "Node list"
  rte_tablefunc :: "Node list"
  next_sample_block :: bool
  values_lists_length :: int
  self_reference :: bool
  enrtuples :: double

record PlannerInfo =
  total_table_pages :: double
  planner_rt_fetch :: "nat \<Rightarrow> RangeTblEntry"
  catalogs :: catalog
  spc_opts :: "Oid \<Rightarrow> (double \<times> double) option"

definition get_tablespace_page_costs :: "gucs \<Rightarrow> PlannerInfo \<Rightarrow> Oid \<Rightarrow> double \<times> double" where
  "get_tablespace_page_costs g proot spcid =
     (case spc_opts proot spcid of
        None \<Rightarrow> (random_page_cost g, seq_page_cost g)
      | Some (opt_random, opt_seq) \<Rightarrow>
          (if opt_random < 0 then random_page_cost g else opt_random,
           if opt_seq < 0 then seq_page_cost g else opt_seq))"

subsection \<open>Helpers\<close>

definition LOG2 :: "double \<Rightarrow> double" where
  "LOG2 x = log_d x / fl 0.693147180559945"

definition clamp_row_est :: "double \<Rightarrow> double" where
  "clamp_row_est nrows = (if nrows \<le> fl 1 then fl 1 else rint_d nrows)"

text \<open>\<^verbatim>\<open>MAXALIGN\<close> rounds up to a multiple of eight; the heap tuple header has 23 bytes.\<close>

definition MAXALIGN :: "int \<Rightarrow> int" where
  "MAXALIGN len = (len + 7) div 8 * 8"

definition relation_byte_size :: "double \<Rightarrow> int \<Rightarrow> double" where
  "relation_byte_size ntuples width = ntuples * dbl (MAXALIGN width + MAXALIGN 23)"

abbreviation BLCKSZ :: int where "BLCKSZ \<equiv> 8192"

definition page_size :: "double \<Rightarrow> int \<Rightarrow> double" where
  "page_size ntuples width = ceil_d (relation_byte_size ntuples width / dbl BLCKSZ)"

definition get_parallel_divisor :: "'a Path_scheme \<Rightarrow> double" where
  "get_parallel_divisor path =
     (let parallel_divisor = dbl (parallel_workers path);
          leader_contribution = fl 1 - fl 0.3 * dbl (parallel_workers path)
      in if leader_contribution > 0 then parallel_divisor + leader_contribution else parallel_divisor)"

definition get_restriction_qual_cost ::
    "gucs \<Rightarrow> PlannerInfo \<Rightarrow> RelOptBase \<Rightarrow> ParamPathInfo option \<Rightarrow> QualCost planner" where
  "get_restriction_qual_cost g proot baserel param_inf =
     (case param_inf of
        Some ppi \<Rightarrow> pbind (cost_qual_eval g (catalogs proot) (ppi_clauses ppi))
          (\<lambda>c. preturn (add_qual_cost c (baserestrictcost baserel)))
      | None \<Rightarrow> preturn (baserestrictcost baserel))"

text \<open>The steps that open and close the scan routines: the row estimate, the charge for a disabled
  node type, and the stores into the cost fields of the path with the power estimate.\<close>

definition path_rows :: "RelOptBase \<Rightarrow> ParamPathInfo option \<Rightarrow> double" where
  "path_rows baserel param_inf = (case param_inf of Some ppi \<Rightarrow> ppi_rows ppi | None \<Rightarrow> rel_rows baserel)"

definition disabled :: "gucs \<Rightarrow> bool \<Rightarrow> Cost \<Rightarrow> Cost" where
  "disabled g enabled c = (if \<not> enabled then c + disable_cost g else c)"

definition set_power :: "double \<Rightarrow> double \<Rightarrow> double \<Rightarrow> int \<Rightarrow> 'a Path_scheme \<Rightarrow> 'a Path_scheme" where
  "set_power io cpu run wh path =
     path\<lparr> io_cost := io, cpu_cost := cpu, power_cost := count_power_cost io cpu run wh \<rparr>"

definition set_costs :: "double \<Rightarrow> Cost \<Rightarrow> Cost \<Rightarrow> 'a Path_scheme \<Rightarrow> 'a Path_scheme" where
  "set_costs nrows s t path = path\<lparr> rows := nrows, startup_cost := s, total_cost := t \<rparr>"

abbreviation tlist_cost :: "'a Path_scheme \<Rightarrow> QualCost" where
  "tlist_cost path \<equiv> target_cost (pathtarget path)"

abbreviation npages :: "BlockNumber \<Rightarrow> double" where
  "npages n \<equiv> dbl (uint n)"

subsection \<open>Table scans\<close>

definition finish_seqscan ::
    "gucs \<Rightarrow> PlannerInfo \<Rightarrow> Path \<Rightarrow> RelOptBase \<Rightarrow> ParamPathInfo option \<Rightarrow> QualCost \<Rightarrow> Path" where
  "finish_seqscan g proot path baserel param_inf qpqual_cost =
     (let rows0 = path_rows baserel param_inf;
          startup0 = disabled g (enable_seqscan g) 0;
          spc_seq_page_cost = snd (get_tablespace_page_costs g proot (reltablespace baserel));
          disk_run_cost = spc_seq_page_cost * npages (pages baserel);
          io = npages (pages baserel);
          startup1 = startup0 + startup qpqual_cost + startup (tlist_cost path);
          cpu_per_tuple = cpu_tuple_cost g + per_tuple qpqual_cost;
          cpu0 = cpu_per_tuple * tuples baserel;
          cpu_run0 = cpu_per_tuple * tuples baserel + per_tuple (tlist_cost path) * rows0;
          parallel_divisor = get_parallel_divisor path;
          (cpu_run1, cpu1, rows1) =
            (if parallel_workers path > 0 then
               (cpu_run0 / parallel_divisor, cpu0 / parallel_divisor, clamp_row_est (rows0 / parallel_divisor))
             else (cpu_run0, cpu0, rows0))
      in set_power io cpu1 (cpu_run1 + disk_run_cost) (parallel_workers path)
           (set_costs rows1 startup1 (startup1 + cpu_run1 + disk_run_cost) path))"

definition cost_seqscan ::
    "gucs \<Rightarrow> PlannerInfo \<Rightarrow> Path \<Rightarrow> RelOptBase \<Rightarrow> ParamPathInfo option \<Rightarrow> Path planner" where
  "cost_seqscan g proot path baserel param_inf =
     pbind (get_restriction_qual_cost g proot baserel param_inf)
       (\<lambda>qpqual_cost. preturn (finish_seqscan g proot path baserel param_inf qpqual_cost))"

definition cost_samplescan ::
    "gucs \<Rightarrow> PlannerInfo \<Rightarrow> Path \<Rightarrow> RelOptBase \<Rightarrow> ParamPathInfo option \<Rightarrow> Path planner" where
  "cost_samplescan g proot path baserel param_inf =
     (let rte = planner_rt_fetch proot (relid baserel);
          rows0 = path_rows baserel param_inf;
          (spc_random_page_cost, spc_seq_page_cost) = get_tablespace_page_costs g proot (reltablespace baserel);
          spc_page_cost = (if next_sample_block rte then spc_random_page_cost else spc_seq_page_cost);
          run0 = 0 + spc_page_cost * npages (pages baserel);
          io = npages (pages baserel)
      in pbind (get_restriction_qual_cost g proot baserel param_inf) (\<lambda>qpqual_cost.
         let startup0 = 0 + startup qpqual_cost + startup (tlist_cost path);
             cpu_per_tuple = cpu_tuple_cost g + per_tuple qpqual_cost;
             cpu = cpu_per_tuple * tuples baserel;
             run1 = run0 + cpu_per_tuple * tuples baserel + per_tuple (tlist_cost path) * rows0
         in preturn (set_power io cpu run1 0 (set_costs rows0 startup0 (startup0 + run1) path))))"

text \<open>\<^verbatim>\<open>cost_tidscan\<close> adds one tuple per clause, or one per element of an array.\<close>

fun count_tids :: "Node list \<Rightarrow> int ereport" where
  "count_tids [] = Inr 0"
| "count_tids (ScalarArrayOpExpr opr f args # l) =
     (case args of
        _ # arraynode # _ \<Rightarrow> ebind (count_tids l) (\<lambda>n. Inr (estimate_array_length arraynode + n))
      | _ \<Rightarrow> Inl ''null pointer'')"
| "count_tids (_ # l) = ebind (count_tids l) (\<lambda>n. Inr (1 + n))"

definition cost_tidscan ::
    "gucs \<Rightarrow> PlannerInfo \<Rightarrow> Path \<Rightarrow> RelOptBase \<Rightarrow> Node list \<Rightarrow> ParamPathInfo option \<Rightarrow> Path planner" where
  "cost_tidscan g proot path baserel tidquals param_inf =
     (let rows0 = path_rows baserel param_inf;
          isCurrentOf = (CurrentOfExpr \<in> set tidquals)
      in pbind (plift (count_tids tidquals)) (\<lambda>ntuples.
         let startup0 = (if isCurrentOf then 0 - disable_cost g else disabled g (enable_tidscan g) 0)
         in pbind (cost_qual_eval g (catalogs proot) tidquals) (\<lambda>tid_qual_cost.
            let spc_random_page_cost = fst (get_tablespace_page_costs g proot (reltablespace baserel));
                run0 = 0 + spc_random_page_cost * dbl ntuples
            in pbind (get_restriction_qual_cost g proot baserel param_inf) (\<lambda>qpqual_cost.
               let startup1 = startup0 + (startup qpqual_cost + per_tuple tid_qual_cost) + startup (tlist_cost path);
                   cpu_per_tuple = cpu_tuple_cost g + per_tuple qpqual_cost - per_tuple tid_qual_cost;
                   io = dbl ntuples;
                   cpu = cpu_per_tuple * dbl ntuples;
                   run1 = run0 + cpu_per_tuple * dbl ntuples + per_tuple (tlist_cost path) * rows0
               in preturn (set_power io cpu run1 0 (set_costs rows0 startup1 (startup1 + run1) path))))))"

subsection \<open>Scans of computed rows\<close>

text \<open>The common tail of these routines: clauses and target list on top of a startup cost and a cost per
  tuple.\<close>

definition scan_computed_rows ::
    "gucs \<Rightarrow> PlannerInfo \<Rightarrow> Path \<Rightarrow> RelOptBase \<Rightarrow> ParamPathInfo option \<Rightarrow> Cost \<Rightarrow> (QualCost \<Rightarrow> Cost) \<Rightarrow> Path planner" where
  "scan_computed_rows g proot path baserel param_inf startup0 cpu_per_tuple =
     (let rows0 = path_rows baserel param_inf
      in pbind (get_restriction_qual_cost g proot baserel param_inf) (\<lambda>qpqual_cost.
         let startup1 = startup0 + startup qpqual_cost + startup (tlist_cost path);
             cpu = cpu_per_tuple qpqual_cost * tuples baserel;
             run = 0 + cpu_per_tuple qpqual_cost * tuples baserel + per_tuple (tlist_cost path) * rows0
         in preturn (set_power 0 cpu run 0 (set_costs rows0 startup1 (startup1 + run) path))))"

definition cost_subqueryscan ::
    "gucs \<Rightarrow> PlannerInfo \<Rightarrow> Path \<Rightarrow> Path \<Rightarrow> RelOptBase \<Rightarrow> ParamPathInfo option \<Rightarrow> Path planner" where
  "cost_subqueryscan g proot path subpath baserel param_inf =
     (let rows0 = path_rows baserel param_inf
      in pbind (get_restriction_qual_cost g proot baserel param_inf) (\<lambda>qpqual_cost.
         let startup0 = startup qpqual_cost + startup (tlist_cost path);
             cpu_per_tuple = cpu_tuple_cost g + per_tuple qpqual_cost;
             cpu = cpu_per_tuple * tuples baserel;
             run = cpu_per_tuple * tuples baserel + per_tuple (tlist_cost path) * rows0
         in preturn (set_power 0 cpu run 0
              (set_costs rows0 (startup_cost subpath + startup0) (total_cost subpath + (startup0 + run)) path))))"

definition cost_functionscan ::
    "gucs \<Rightarrow> PlannerInfo \<Rightarrow> Path \<Rightarrow> RelOptBase \<Rightarrow> ParamPathInfo option \<Rightarrow> Path planner" where
  "cost_functionscan g proot path baserel param_inf =
     pbind (cost_qual_eval g (catalogs proot) (rte_functions (planner_rt_fetch proot (relid baserel)))) (\<lambda>exprcost.
       scan_computed_rows g proot path baserel param_inf (0 + (startup exprcost + per_tuple exprcost))
         (\<lambda>qpqual_cost. cpu_tuple_cost g + per_tuple qpqual_cost))"

definition cost_tablefuncscan ::
    "gucs \<Rightarrow> PlannerInfo \<Rightarrow> Path \<Rightarrow> RelOptBase \<Rightarrow> ParamPathInfo option \<Rightarrow> Path planner" where
  "cost_tablefuncscan g proot path baserel param_inf =
     pbind (cost_qual_eval g (catalogs proot) (rte_tablefunc (planner_rt_fetch proot (relid baserel)))) (\<lambda>exprcost.
       scan_computed_rows g proot path baserel param_inf (0 + (startup exprcost + per_tuple exprcost))
         (\<lambda>qpqual_cost. cpu_tuple_cost g + per_tuple qpqual_cost))"

definition cost_valuesscan ::
    "gucs \<Rightarrow> PlannerInfo \<Rightarrow> Path \<Rightarrow> RelOptBase \<Rightarrow> ParamPathInfo option \<Rightarrow> Path planner" where
  "cost_valuesscan g proot path baserel param_inf =
     scan_computed_rows g proot path baserel param_inf 0
       (\<lambda>qpqual_cost. cpu_operator_cost g + (cpu_tuple_cost g + per_tuple qpqual_cost))"

definition cost_ctescan ::
    "gucs \<Rightarrow> PlannerInfo \<Rightarrow> Path \<Rightarrow> RelOptBase \<Rightarrow> ParamPathInfo option \<Rightarrow> Path planner" where
  "cost_ctescan g proot path baserel param_inf =
     scan_computed_rows g proot path baserel param_inf 0
       (\<lambda>qpqual_cost. cpu_tuple_cost g + (cpu_tuple_cost g + per_tuple qpqual_cost))"

text \<open>A tuplestore scan charges nothing for the target list.\<close>

definition cost_namedtuplestorescan ::
    "gucs \<Rightarrow> PlannerInfo \<Rightarrow> Path \<Rightarrow> RelOptBase \<Rightarrow> ParamPathInfo option \<Rightarrow> Path planner" where
  "cost_namedtuplestorescan g proot path baserel param_inf =
     (let rows0 = path_rows baserel param_inf
      in pbind (get_restriction_qual_cost g proot baserel param_inf) (\<lambda>qpqual_cost.
         let startup0 = 0 + startup qpqual_cost;
             cpu_per_tuple = cpu_tuple_cost g + (cpu_tuple_cost g + per_tuple qpqual_cost);
             cpu = cpu_per_tuple * tuples baserel;
             run = 0 + cpu_per_tuple * tuples baserel
         in preturn (set_power 0 cpu run 0 (set_costs rows0 startup0 (startup0 + run) path))))"

subsection \<open>Rows from parallel workers\<close>

definition gather_rows :: "RelOptBase \<Rightarrow> ParamPathInfo option \<Rightarrow> double option \<Rightarrow> double" where
  "gather_rows rel param_inf given = (case given of Some r \<Rightarrow> r | None \<Rightarrow> path_rows rel param_inf)"

definition cost_gather ::
    "gucs \<Rightarrow> Path \<Rightarrow> Path \<Rightarrow> RelOptBase \<Rightarrow> ParamPathInfo option \<Rightarrow> double option \<Rightarrow> Path" where
  "cost_gather g path subpath rel param_inf given =
     (let rows0 = gather_rows rel param_inf given;
          startup0 = startup_cost subpath + parallel_setup_cost g;
          run = (total_cost subpath - startup_cost subpath) + parallel_tuple_cost g * rows0;
          cpu = parallel_tuple_cost g * rows0
      in set_power 0 cpu run 0 (set_costs rows0 startup0 (startup0 + run) path))"

definition cost_gather_merge ::
    "gucs \<Rightarrow> Path \<Rightarrow> int \<Rightarrow> RelOptBase \<Rightarrow> ParamPathInfo option \<Rightarrow> Cost \<Rightarrow> Cost \<Rightarrow> double option \<Rightarrow> Path" where
  "cost_gather_merge g path num_workers rel param_inf input_startup_cost input_total_cost given =
     (let rows0 = gather_rows rel param_inf given;
          N = dbl num_workers + fl 1;
          logN = LOG2 N;
          comparison_cost = fl 2 * cpu_operator_cost g;
          startup0 = disabled g (enable_gathermerge g) 0 + comparison_cost * N * logN + parallel_setup_cost g;
          run = 0 + rows0 * comparison_cost * logN + cpu_operator_cost g * rows0
                + parallel_tuple_cost g * rows0 * fl 1.05;
          cpu = 0 + cpu_operator_cost g * rows0
      in set_power 0 cpu run 0
           (set_costs rows0 (startup0 + input_startup_cost) (startup0 + run + input_total_cost) path))"

subsection \<open>Reasoning about planner actions\<close>

text \<open>From a store with the invariant an action that does not raise an error gives a result with the
  given property and a store with the invariant.\<close>

definition yields :: "(eval_cache \<Rightarrow> bool) \<Rightarrow> 'a planner \<Rightarrow> ('a \<Rightarrow> bool) \<Rightarrow> bool" where
  "yields I m P \<longleftrightarrow> (\<forall>c c' x. I c \<longrightarrow> m c = Inr (c', x) \<longrightarrow> I c' \<and> P x)"

named_theorems yields_intros "rules for actions that keep the store's invariant"

lemma yieldsD: "yields I m P \<Longrightarrow> I c \<Longrightarrow> m c = Inr (c', x) \<Longrightarrow> I c' \<and> P x"
  unfolding yields_def by blast

lemma yields_return [yields_intros]: "P x \<Longrightarrow> yields I (preturn x) P"
  by (simp add: yields_def preturn_def)

lemma yields_raise [yields_intros]: "yields I (praise e) P"
  by (simp add: yields_def praise_def)

lemma yields_bind:
  assumes m: "yields I m Q" and f: "\<And>x. Q x \<Longrightarrow> yields I (f x) P"
  shows "yields I (pbind m f) P"
  unfolding yields_def
proof (intro allI impI)
  fix c c' y assume "I c" "pbind m f c = Inr (c', y)"
  then obtain c1 x where "m c = Inr (c1, x)" "f x c1 = Inr (c', y)"
    by (auto simp: pbind_def ebind_Inr_iff)
  then show "I c' \<and> P y" using yieldsD [OF m \<open>I c\<close>] yieldsD [OF f] by blast
qed

lemma yields_lift: "(\<And>x. r = Inr x \<Longrightarrow> P x) \<Longrightarrow> yields I (plift r) P"
  by (auto simp: plift_def intro: yields_return yields_raise split: sum.split)

text \<open>The clauses of a query: allocated once each, with arguments as the parser makes them.\<close>

definition clauses_ok :: "(nat \<Rightarrow> Node) \<Rightarrow> Node list \<Rightarrow> bool" where
  "clauses_ok mem ns \<longleftrightarrow> (\<forall>n \<in> set ns. in_memory mem n \<and> node_ok n)"

lemma clauses_ok_append [simp]: "clauses_ok mem (xs @ ys) \<longleftrightarrow> clauses_ok mem xs \<and> clauses_ok mem ys"
  by (auto simp: clauses_ok_def)

lemma clauses_ok_Nil [simp]: "clauses_ok mem []"
  by (simp add: clauses_ok_def)

lemma clauses_ok_subset: "clauses_ok mem xs \<Longrightarrow> set ys \<subseteq> set xs \<Longrightarrow> clauses_ok mem ys"
  by (auto simp: clauses_ok_def)

lemma cost_qual_eval_yields [yields_intros]:
  assumes "gucs_ok g" "catalog_ok cat" "clauses_ok mem ns"
  shows "yields (cache_ok g cat mem) (cost_qual_eval g cat ns) qual_nonneg"
  unfolding yields_def
proof (intro allI impI)
  fix c c' q assume c: "cache_ok g cat mem c" and q: "cost_qual_eval g cat ns c = Inr (c', q)"
  have "\<forall>n \<in> set ns. in_memory mem n" "\<forall>n \<in> set ns. node_ok n" using assms(3) by (auto simp: clauses_ok_def)
  with walker_agrees(2) [OF this(1) c, of zero_cost] q
  have "agrees g cat mem (qual_costs g cat ns zero_cost) (Inr (c', q))" by (simp add: cost_qual_eval_def)
  then have "qual_costs g cat ns zero_cost = Inr q" "cache_ok g cat mem c'"
    by (cases "qual_costs g cat ns zero_cost"; auto simp: agrees_simps)+
  then show "cache_ok g cat mem c' \<and> qual_nonneg q"
    using qual_cost_nonneg(2) [OF assms(1,2) \<open>\<forall>n \<in> set ns. node_ok n\<close> qual_nonneg_intros(1)] by blast
qed

lemma qual_nonnegD [nonneg_intros]: "qual_nonneg q \<Longrightarrow> nonneg (startup q)" "qual_nonneg q \<Longrightarrow> nonneg (per_tuple q)"
  by (simp_all add: qual_nonneg_def)

subsection \<open>Sane costs\<close>

text \<open>What the rest of the planner relies on: no estimate compares below zero, the total is not below
  the startup cost, and the power not above 80 watts.\<close>

definition sane_costs :: "'a Path_scheme \<Rightarrow> bool" where
  "sane_costs p \<longleftrightarrow> nonneg (rows p) \<and> nonneg (startup_cost p) \<and> nonneg (total_cost p) \<and>
     \<not> total_cost p < startup_cost p \<and> nonneg (io_cost p) \<and> nonneg (cpu_cost p) \<and> \<not> fl 80 < power_cost p"

lemma sane_set:
  "nonneg r \<Longrightarrow> nonneg s \<Longrightarrow> nonneg t \<Longrightarrow> \<not> t < s \<Longrightarrow> nonneg io \<Longrightarrow> nonneg cpu \<Longrightarrow>
   sane_costs (set_power io cpu run wh (set_costs r s t p))"
  by (simp add: sane_costs_def set_power_def set_costs_def power_le_80)

lemma saneD [nonneg_intros]:
  "sane_costs p \<Longrightarrow> nonneg (rows p)" "sane_costs p \<Longrightarrow> nonneg (startup_cost p)" "sane_costs p \<Longrightarrow> nonneg (total_cost p)"
  "sane_costs p \<Longrightarrow> nonneg (io_cost p)" "sane_costs p \<Longrightarrow> nonneg (cpu_cost p)"
  "sane_costs p \<Longrightarrow> \<not> total_cost p < startup_cost p"
  by (simp_all add: sane_costs_def)


lemma nonneg_clamp [nonneg_intros]: "nonneg x \<Longrightarrow> nonneg (clamp_row_est x)"
  by (simp add: clamp_row_est_def nonneg_fl nonneg_rint)

lemma nonneg_divisor [nonneg_intros]: "0 \<le> parallel_workers p \<Longrightarrow> nonneg (get_parallel_divisor p)"
  unfolding get_parallel_divisor_def Let_def
  by (auto simp: nonneg_dbl intro!: nonneg_add) (simp add: nonneg_def dless_asym)

lemma nonneg_disabled [nonneg_intros]: "gucs_ok g \<Longrightarrow> nonneg c \<Longrightarrow> nonneg (disabled g e c)"
  by (simp add: disabled_def nonneg_intros)

declare uint_ge_0 [nonneg_intros]

lemma nonneg_page_costs [nonneg_intros]:
  assumes "gucs_ok g"
  shows "nonneg (fst (get_tablespace_page_costs g proot spc))" "nonneg (snd (get_tablespace_page_costs g proot spc))"
  using gucs_okD [OF assms] by (auto simp: get_tablespace_page_costs_def nonneg_def split: option.split)

text \<open>The relation, parameterization and target of a scan.\<close>

definition rel_ok :: "RelOptBase \<Rightarrow> bool" where
  "rel_ok rel \<longleftrightarrow> nonneg (rel_rows rel) \<and> nonneg (tuples rel) \<and> qual_nonneg (baserestrictcost rel)"

definition param_ok :: "(nat \<Rightarrow> Node) \<Rightarrow> ParamPathInfo option \<Rightarrow> bool" where
  "param_ok mem param_inf \<longleftrightarrow> (case param_inf of None \<Rightarrow> True | Some ppi \<Rightarrow> nonneg (ppi_rows ppi) \<and> clauses_ok mem (ppi_clauses ppi))"

definition target_ok :: "'a Path_scheme \<Rightarrow> bool" where
  "target_ok p \<longleftrightarrow> qual_nonneg (tlist_cost p) \<and> 0 \<le> parallel_workers p"

lemma rel_okD [nonneg_intros]:
  "rel_ok rel \<Longrightarrow> nonneg (rel_rows rel)" "rel_ok rel \<Longrightarrow> nonneg (tuples rel)" "rel_ok rel \<Longrightarrow> qual_nonneg (baserestrictcost rel)"
  by (simp_all add: rel_ok_def)

lemma target_okD: "target_ok p \<Longrightarrow> qual_nonneg (tlist_cost p)" "target_ok p \<Longrightarrow> 0 \<le> parallel_workers p"
  by (simp_all add: target_ok_def)

lemma nonneg_path_rows: "rel_ok rel \<Longrightarrow> param_ok mem par \<Longrightarrow> nonneg (path_rows rel par)"
  by (auto simp: path_rows_def rel_ok_def param_ok_def split: option.split)

lemma restriction_qual_cost_yields [yields_intros]:
  assumes "gucs_ok g" "catalog_ok (catalogs proot)" "rel_ok rel" "param_ok mem par"
  shows "yields (cache_ok g (catalogs proot) mem) (get_restriction_qual_cost g proot rel par) qual_nonneg"
proof (cases par)
  case None
  then show ?thesis using assms(3) by (auto simp: get_restriction_qual_cost_def intro!: yields_return rel_okD)
next
  case (Some ppi)
  then have "clauses_ok mem (ppi_clauses ppi)" using assms(4) by (simp add: param_ok_def)
  with Some show ?thesis using assms
    by (auto simp: get_restriction_qual_cost_def
        intro!: yields_bind [OF cost_qual_eval_yields] yields_return qual_nonneg_intros rel_okD)
qed

lemma sane_sum:
  "nonneg r \<Longrightarrow> nonneg s \<Longrightarrow> nonneg run \<Longrightarrow> nonneg io \<Longrightarrow> nonneg cpu \<Longrightarrow>
   sane_costs (set_power io cpu run' wh (set_costs r s (s + run) p))"
  by (intro sane_set nonneg_add grows1)

subsection \<open>Scans\<close>

text \<open>The circumstances under which a scan is costed.\<close>

definition scan_ok :: "gucs \<Rightarrow> PlannerInfo \<Rightarrow> (nat \<Rightarrow> Node) \<Rightarrow> RelOptBase \<Rightarrow> ParamPathInfo option \<Rightarrow> bool" where
  "scan_ok g proot mem rel par \<longleftrightarrow> gucs_ok g \<and> catalog_ok (catalogs proot) \<and> rel_ok rel \<and> param_ok mem par"

lemma scan_okD:
  assumes "scan_ok g proot mem rel par"
  shows "gucs_ok g" "catalog_ok (catalogs proot)" "rel_ok rel" "param_ok mem par"
    "nonneg (path_rows rel par)" "nonneg (tuples rel)"
    "yields (cache_ok g (catalogs proot) mem) (get_restriction_qual_cost g proot rel par) qual_nonneg"
  using assms restriction_qual_cost_yields nonneg_path_rows unfolding scan_ok_def by (auto simp: rel_ok_def)

lemma cost_seqscan_sane:
  assumes ok: "scan_ok g proot mem rel par" and t: "target_ok p"
  shows "yields (cache_ok g (catalogs proot) mem) (cost_seqscan g proot p rel par) sane_costs"
proof -
  note facts = scan_okD [OF ok] target_okD [OF t]
  show ?thesis unfolding cost_seqscan_def finish_seqscan_def Let_def
    by (rule yields_bind [OF facts(7)])
      (cases "0 < parallel_workers p"; simp only: if_True if_False prod.case;
        intro yields_return sane_set grows2 nonneg_intros facts; assumption)
qed

lemma cost_samplescan_sane:
  assumes ok: "scan_ok g proot mem rel par" and t: "target_ok p"
  shows "yields (cache_ok g (catalogs proot) mem) (cost_samplescan g proot p rel par) sane_costs"
proof -
  note facts = scan_okD [OF ok] target_okD [OF t] nonneg_page_costs [OF scan_okD(1) [OF ok]]
  show ?thesis unfolding cost_samplescan_def Let_def case_prod_beta
    by (rule yields_bind [OF facts(7)])
      (cases "next_sample_block (planner_rt_fetch proot (relid rel))";
        simp only: if_True if_False; intro yields_return sane_sum nonneg_intros facts; assumption)
qed

lemma scan_computed_rows_sane:
  assumes ok: "scan_ok g proot mem rel par" and t: "target_ok p" and s: "nonneg s"
    and c: "\<And>q. qual_nonneg q \<Longrightarrow> nonneg (c q)"
  shows "yields (cache_ok g (catalogs proot) mem) (scan_computed_rows g proot p rel par s c) sane_costs"
proof -
  note facts = scan_okD [OF ok] target_okD [OF t]
  show ?thesis unfolding scan_computed_rows_def Let_def
    by (rule yields_bind [OF facts(7)]) (intro yields_return sane_sum nonneg_intros facts s c; assumption)
qed

lemma cost_subqueryscan_sane:
  assumes ok: "scan_ok g proot mem rel par" and t: "target_ok p" and sub: "sane_costs subpath"
  shows "yields (cache_ok g (catalogs proot) mem) (cost_subqueryscan g proot p subpath rel par) sane_costs"
proof -
  note facts = scan_okD [OF ok] target_okD [OF t] saneD [OF sub]
  show ?thesis unfolding cost_subqueryscan_def Let_def
    by (rule yields_bind [OF facts(7)])
      (intro yields_return sane_set dadd_mono_not_less grows1 nonneg_intros facts; assumption)
qed

lemma cost_functionscan_sane:
  assumes ok: "scan_ok g proot mem rel par" and t: "target_ok p"
    and e: "clauses_ok mem (rte_functions (planner_rt_fetch proot (relid rel)))"
  shows "yields (cache_ok g (catalogs proot) mem) (cost_functionscan g proot p rel par) sane_costs"
  unfolding cost_functionscan_def using scan_okD [OF ok]
  by (intro yields_bind [OF cost_qual_eval_yields] scan_computed_rows_sane ok t e nonneg_intros)

lemma cost_tablefuncscan_sane:
  assumes ok: "scan_ok g proot mem rel par" and t: "target_ok p"
    and e: "clauses_ok mem (rte_tablefunc (planner_rt_fetch proot (relid rel)))"
  shows "yields (cache_ok g (catalogs proot) mem) (cost_tablefuncscan g proot p rel par) sane_costs"
  unfolding cost_tablefuncscan_def using scan_okD [OF ok]
  by (intro yields_bind [OF cost_qual_eval_yields] scan_computed_rows_sane ok t e nonneg_intros)

lemma cost_valuesscan_sane:
  assumes ok: "scan_ok g proot mem rel par" and t: "target_ok p"
  shows "yields (cache_ok g (catalogs proot) mem) (cost_valuesscan g proot p rel par) sane_costs"
  unfolding cost_valuesscan_def using scan_okD [OF ok] by (intro scan_computed_rows_sane ok t nonneg_intros)

lemma cost_ctescan_sane:
  assumes ok: "scan_ok g proot mem rel par" and t: "target_ok p"
  shows "yields (cache_ok g (catalogs proot) mem) (cost_ctescan g proot p rel par) sane_costs"
  unfolding cost_ctescan_def using scan_okD [OF ok] by (intro scan_computed_rows_sane ok t nonneg_intros)

lemma cost_namedtuplestorescan_sane:
  assumes ok: "scan_ok g proot mem rel par"
  shows "yields (cache_ok g (catalogs proot) mem) (cost_namedtuplestorescan g proot p rel par) sane_costs"
  unfolding cost_namedtuplestorescan_def Let_def using scan_okD [OF ok]
  by (intro yields_bind [OF scan_okD(7) [OF ok]] yields_return sane_sum nonneg_intros)

subsection \<open>Parallel workers\<close>

lemma nonneg_LOG2 [nonneg_intros]: "fl 1 \<le> x \<Longrightarrow> nonneg (LOG2 x)"
  unfolding LOG2_def by (intro nonneg_divide log_ge_1 nonneg_fl) simp_all

lemma nonneg_gather_rows:
  assumes "rel_ok rel" "param_ok mem par" "\<And>r. given = Some r \<Longrightarrow> nonneg r"
  shows "nonneg (gather_rows rel par given)"
  using nonneg_path_rows [OF assms(1,2)] assms(3) by (auto simp: gather_rows_def split: option.split)

lemma cost_gather_sane:
  assumes "gucs_ok g" "rel_ok rel" "param_ok mem par" "\<And>r. given = Some r \<Longrightarrow> nonneg r" "sane_costs subpath"
  shows "sane_costs (cost_gather g p subpath rel par given)"
  unfolding cost_gather_def Let_def
  using assms saneD [OF assms(5)] nonneg_gather_rows [OF assms(2-4)] by (intro sane_sum nonneg_intros)

lemma workers_plus_leader: "0 \<le> n \<Longrightarrow> fl 1 \<le> dbl n + fl 1"
proof -
  assume "0 \<le> n"
  then have "nonneg (dbl n)" by (rule nonneg_dbl)
  moreover have "\<not> is_nan (dbl n)" by (simp add: dbl_def)
  ultimately have "nonneg (dbl n)" "\<not> is_nan (dbl n)" by simp_all
  then have "\<not> dbl n + fl 1 < fl 1" by (intro add_nonneg_not_less2)
  moreover have "\<not> is_nan (dbl n + fl 1)"
    using nonneg_not_nan [OF nonneg_dbl [OF \<open>0 \<le> n\<close>]] \<open>\<not> is_nan (dbl n)\<close> fl_eq_Fin [OF exact_one]
    by (cases "dbl n") (auto simp: plus_double_def less_eq_double_def zero_double_def)
  ultimately show ?thesis using dnot_less by simp
qed

lemma cost_gather_merge_sane:
  assumes "gucs_ok g" "rel_ok rel" "param_ok mem par" "\<And>r. given = Some r \<Longrightarrow> nonneg r"
    "nonneg is" "nonneg it" "\<not> it < is" "0 \<le> n"
  shows "sane_costs (cost_gather_merge g p n rel par is it given)"
  unfolding cost_gather_merge_def Let_def
  using assms nonneg_gather_rows [OF assms(2-4)]
  by (intro sane_set dadd_mono_not_less grows1 nonneg_intros workers_plus_leader) simp_all

subsection \<open>Row estimates\<close>

lemma clamp_cases:
  assumes "\<not> is_nan x"
  shows "clamp_row_est x = PInf \<or> (\<exists>c i. clamp_row_est x = Fin c \<and> val c = of_int i \<and> 1 \<le> i)"
proof (cases "x \<le> fl 1")
  case True
  then show ?thesis using fl_eq_Fin [OF exact_one] by (auto simp: clamp_row_est_def intro!: exI [of _ 1])
next
  case False
  obtain e where e: "fl 1 = Fin e" "val e = 1" using fl_eq_Fin [OF exact_one] by blast
  show ?thesis
  proof (cases x)
    case (Fin a)
    obtain c where c: "rint_d (Fin a) = Fin c" "val c = of_int (rne (val a))" using rint_Fin by blast
    have "1 \<le> val a" using False Fin e by (simp add: less_eq_double_def)
    then have "1 \<le> rne (val a)" using rne_mono [of 1 "val a"] rne_of_int [of 1] by simp
    then show ?thesis using False c Fin by (auto simp: clamp_row_est_def)
  qed (use assms False e in \<open>auto simp: clamp_row_est_def less_eq_double_def\<close>)
qed

lemma clamp_idem: "clamp_row_est (clamp_row_est x) = clamp_row_est x"
proof (cases "is_nan x")
  case True
  then show ?thesis by (simp add: is_nan_iff clamp_row_est_def)
next
  case False
  from clamp_cases [OF this] show ?thesis
  proof
    assume "clamp_row_est x = PInf"
    then show ?thesis using fl_eq_Fin [OF exact_one] by (auto simp: clamp_row_est_def less_eq_double_def)
  next
    assume "\<exists>c i. clamp_row_est x = Fin c \<and> val c = of_int i \<and> 1 \<le> i"
    then obtain c i where c: "clamp_row_est x = Fin c" "val c = of_int i" "1 \<le> i" by blast
    obtain e where e: "fl 1 = Fin e" "val e = 1" using fl_eq_Fin [OF exact_one] by blast
    have "rint_d (Fin c) = Fin c" using c(2) fl_val [of c] by simp
    moreover have "Fin c = fl 1" if "Fin c \<le> fl 1"
    proof -
      have "of_int i \<le> (1::real)" using that c e by (simp add: less_eq_double_def)
      then have "val c = val e" using c e by simp
      then have "c = e" by (simp only: val_eq_iff)
      then show ?thesis using e by simp
    qed
    ultimately have "clamp_row_est (Fin c) = Fin c" by (auto simp: clamp_row_est_def)
    then show ?thesis using c(1) by simp
  qed
qed

lemma clamp_mono: "x \<le> y \<Longrightarrow> clamp_row_est x \<le> clamp_row_est y"
proof -
  assume xy: "x \<le> y"
  obtain e where e: "fl 1 = Fin e" "val e = 1" using fl_eq_Fin [OF exact_one] by blast
  have nn: "\<not> is_nan x" "\<not> is_nan y" using dle_not_nan [OF xy] by auto
  have one: "fl 1 \<le> clamp_row_est y"
    using clamp_cases [OF nn(2)] e by (auto simp: less_eq_double_def)
  show ?thesis
  proof (cases "x \<le> fl 1")
    case True
    then show ?thesis using one by (simp add: clamp_row_est_def)
  next
    case False
    then have y: "\<not> y \<le> fl 1" using xy dle_trans by blast
    show ?thesis
    proof (cases x; cases y)
      fix a b assume ab: "x = Fin a" "y = Fin b"
      then have "rne (val a) \<le> rne (val b)" using xy by (intro rne_mono) (simp add: less_eq_double_def)
      then have "fl (of_int (rne (val a))) \<le> fl (of_int (rne (val b)))" by (intro fl_mono) simp
      then show ?thesis using False y ab by (simp add: clamp_row_est_def)
    next
      fix a assume "x = Fin a" "y = PInf"
      moreover obtain c where "rint_d (Fin a) = Fin c" using rint_Fin by blast
      ultimately show ?thesis using False y by (simp add: clamp_row_est_def less_eq_double_def)
    qed (use False y e xy nn in \<open>auto simp: clamp_row_est_def less_eq_double_def\<close>)
  qed
qed

lemma clamp_ge_1: "\<not> is_nan x \<Longrightarrow> fl 1 \<le> clamp_row_est x"
  using clamp_cases [of x] fl_eq_Fin [OF exact_one] by (auto simp: less_eq_double_def)

subsection \<open>Parallel scans\<close>

lemma divisor_ge_1: "0 < parallel_workers p \<Longrightarrow> \<not> get_parallel_divisor p < fl 1"
proof -
  assume w: "0 < parallel_workers p"
  then have "fl 1 \<le> dbl (parallel_workers p)" unfolding dbl_def by (intro fl_mono) simp
  then have d: "\<not> dbl (parallel_workers p) < fl 1" by (metis dless_not_le)
  moreover have "\<not> dbl (parallel_workers p) + l < fl 1" if "0 < l" for l
    using that by (intro grows d) (simp add: nonneg_def dless_asym)
  ultimately show ?thesis unfolding get_parallel_divisor_def Let_def by simp
qed

lemma planner_cases:
  assumes "pbind m (\<lambda>x. preturn (f x)) c = Inr (c', y)"
  obtains x where "m c = Inr (c', x)" "y = f x"
  using assms by (auto simp: pbind_def preturn_def ebind_Inr_iff)

lemma finish_seqscan_fields:
  "startup_cost (finish_seqscan g proot p rel par q) =
     disabled g (enable_seqscan g) 0 + startup q + startup (tlist_cost p)"
  "io_cost (finish_seqscan g proot p rel par q) = npages (pages rel)"
  "cpu_cost (finish_seqscan g proot p rel par q) =
     (let cpu = (cpu_tuple_cost g + per_tuple q) * tuples rel
      in if 0 < parallel_workers p then cpu / get_parallel_divisor p else cpu)"
  "total_cost (finish_seqscan g proot p rel par q) =
     (let run = (cpu_tuple_cost g + per_tuple q) * tuples rel + per_tuple (tlist_cost p) * path_rows rel par
      in disabled g (enable_seqscan g) 0 + startup q + startup (tlist_cost p) +
         (if 0 < parallel_workers p then run / get_parallel_divisor p else run) +
         snd (get_tablespace_page_costs g proot (reltablespace rel)) * npages (pages rel))"
  unfolding finish_seqscan_def Let_def set_power_def set_costs_def by simp_all

subsection \<open>Examples\<close>

definition example_root :: PlannerInfo where
  "example_root = \<lparr> total_table_pages = fl 100,
     planner_rt_fetch = (\<lambda>_. \<lparr> rte_relid = 16384, rte_functions = [], rte_tablefunc = [], next_sample_block = False,
       values_lists_length = 0, self_reference = False, enrtuples = 0 \<rparr>),
     catalogs = example_catalog, spc_opts = (\<lambda>_. None) \<rparr>"

lemma example_scan_ok: "scan_ok default_gucs example_root mem example_rel None"
  by (simp add: scan_ok_def default_gucs_ok example_root_def example_catalog_ok rel_ok_def param_ok_def example_rel_def
      nonneg_fl qual_nonneg_intros)

lemma example_target_ok: "target_ok (example_path s t w keys)" "target_ok ((example_path s t w keys)\<lparr> parallel_workers := 2 \<rparr>)"
  by (simp_all add: target_ok_def example_path_def example_target_def qual_nonneg_intros)

lemma example_seqscan:
  "cost_seqscan default_gucs example_root p example_rel None unset_cache =
     Inr (unset_cache, finish_seqscan default_gucs example_root p example_rel None zero_cost)"
  by (simp add: cost_seqscan_def pbind_def get_restriction_qual_cost_def preturn_def example_rel_def)

subsection \<open>Correctness\<close>

text \<open>
  Row estimates are sane. Whatever number the estimate is, \<^verbatim>\<open>clamp_row_est\<close> makes it at least one and,
  unless it is infinite, integral; it preserves the order of estimates and changes nothing when
  applied twice.
\<close>

lemma clamp_row_est_sane:
  "x \<le> y \<Longrightarrow>
   fl 1 \<le> clamp_row_est x \<and> clamp_row_est x \<le> clamp_row_est y \<and>
   clamp_row_est (clamp_row_est x) = clamp_row_est x \<and>
   (clamp_row_est x = PInf \<or> (\<exists>c i. clamp_row_est x = Fin c \<and> val c = of_int i \<and> 1 \<le> i))"
  using clamp_ge_1 clamp_mono clamp_idem clamp_cases dle_not_nan by blast



end
