(* ===== verification/Rel_Width.thy ===== *)
theory Rel_Width
  imports Cost_Scan "HOL-Library.Signed_Division"
begin

text \<open>
  The width and the evaluation cost of target lists: \<^verbatim>\<open>set_rel_width\<close> and \<^verbatim>\<open>set_pathtarget_cost_width\<close> of
  \<^verbatim>\<open>costsize.c\<close>, \<^verbatim>\<open>get_rel_data_width\<close> of \<^verbatim>\<open>plancat.c\<close>, and the widths by type and by statistics that they
  ask for (\<^verbatim>\<open>get_typavgwidth\<close> and \<^verbatim>\<open>get_attavgwidth\<close> of \<^verbatim>\<open>lsyscache.c\<close>, \<^verbatim>\<open>type_maximum_size\<close> of
  \<^verbatim>\<open>format_type.c\<close>, \<^verbatim>\<open>numeric_maximum_size\<close> of \<^verbatim>\<open>numeric.c\<close>). Widths are \<^verbatim>\<open>int32\<close> and their sums wrap around. The
  array \<^verbatim>\<open>attr_widths\<close> of a relation is a list; an access outside it is an error of the model. Rows of the
  system catalogs are a parameter.
\<close>

subsection \<open>Data\<close>

definition int32 :: "int \<Rightarrow> int" where
  "int32 x = (x + 2 ^ 31) mod 2 ^ 32 - 2 ^ 31"

record pg_attribute =
  attisdropped :: bool
  atttypid :: Oid
  atttypmod :: int

record width_catalog =
  pg_typlen :: "Oid \<Rightarrow> int option"
  stawidth :: "Oid \<Rightarrow> int \<Rightarrow> int option"
  get_attavgwidth_hook :: "(Oid \<Rightarrow> int \<Rightarrow> int) option"
  pg_encoding_max_length :: int
  rd_att :: "Oid \<Rightarrow> pg_attribute list"
  exprTypmod :: "Node \<Rightarrow> int"

record PlaceHolderInfo =
  ph_phid :: nat
  ph_eval_at :: Relids
  ph_width :: int

text \<open>What size estimation reads from a \<^verbatim>\<open>ForeignKeyOptInfo\<close>, with one entry per key column in the last two
  fields, and the rest of the planner's data on a query.\<close>

record ForeignKeyOptInfo =
  con_relid :: nat
  ref_relid :: nat
  nmatched_ec :: int
  nmatched_ri :: int
  fk_eclass :: "nat option list"
  fk_rinfos :: "Node list list"

record PlannerQuery = PlannerInfo +
  simple_rel_array :: "RelOptBase option list"
  placeholder_list :: "PlaceHolderInfo list"
  fkey_list :: "ForeignKeyOptInfo list"
  widths :: width_catalog

definition find_base_rel :: "'a PlannerQuery_scheme \<Rightarrow> nat \<Rightarrow> RelOptBase ereport" where
  "find_base_rel proot n =
     (if n < length (simple_rel_array proot) then
        (case simple_rel_array proot ! n of
           Some rel \<Rightarrow> Inr rel
         | None \<Rightarrow> Inl ''no relation entry for relid'')
      else Inl ''no relation entry for relid'')"

text \<open>\<^verbatim>\<open>find_placeholder_info\<close> with \<^verbatim>\<open>create_new_ph\<close> false.\<close>

definition find_placeholder_info :: "'a PlannerQuery_scheme \<Rightarrow> Node \<Rightarrow> PlaceHolderInfo ereport" where
  "find_placeholder_info proot phv =
     (case find (\<lambda>phinfo. ph_phid phinfo = phid phv) (placeholder_list proot) of
        Some phinfo \<Rightarrow> Inr phinfo
      | None \<Rightarrow> Inl ''too late to create a new PlaceHolderInfo'')"

subsection \<open>Widths by type and by statistics\<close>

abbreviation BPCHAROID :: Oid where "BPCHAROID \<equiv> 1042"
abbreviation VARCHAROID :: Oid where "VARCHAROID \<equiv> 1043"
abbreviation BITOID :: Oid where "BITOID \<equiv> 1560"
abbreviation VARBITOID :: Oid where "VARBITOID \<equiv> 1562"
abbreviation NUMERICOID :: Oid where "NUMERICOID \<equiv> 1700"
abbreviation VARHDRSZ :: int where "VARHDRSZ \<equiv> 4"

definition get_typlen :: "width_catalog \<Rightarrow> Oid \<Rightarrow> int" where
  "get_typlen wc typid = (case pg_typlen wc typid of Some l \<Rightarrow> l | None \<Rightarrow> 0)"

text \<open>A numeric has four decimal digits in each two-byte digit, after a header of eight bytes.\<close>

definition numeric_maximum_size :: "int \<Rightarrow> int" where
  "numeric_maximum_size typmod =
     (if typmod < VARHDRSZ then - 1
      else
        let precision = (typmod - VARHDRSZ) div 2 ^ 16 mod 2 ^ 16;
            numeric_digits = (precision + 2 * (4 - 1)) div 4
        in 8 + numeric_digits * 2)"

definition type_maximum_size :: "width_catalog \<Rightarrow> Oid \<Rightarrow> int \<Rightarrow> int" where
  "type_maximum_size wc type_oid typemod =
     (if typemod < 0 then - 1
      else if type_oid = BPCHAROID \<or> type_oid = VARCHAROID then
        int32 ((typemod - VARHDRSZ) * pg_encoding_max_length wc + VARHDRSZ)
      else if type_oid = NUMERICOID then numeric_maximum_size typemod
      else if type_oid = VARBITOID \<or> type_oid = BITOID then int32 (int32 (typemod + 7) sdiv 8 + 2 * 4)
      else - 1)"

definition get_typavgwidth :: "width_catalog \<Rightarrow> Oid \<Rightarrow> int \<Rightarrow> int" where
  "get_typavgwidth wc typid typmod =
     (let typlen = get_typlen wc typid
      in if typlen > 0 then typlen
         else
           let maxwidth = type_maximum_size wc typid typmod
           in if maxwidth > 0 then
                (if typid = BPCHAROID then maxwidth
                 else if maxwidth \<le> 32 then maxwidth
                 else if maxwidth < 1000 then 32 + (maxwidth - 32) div 2
                 else 32 + (1000 - 32) div 2)
              else 32)"

definition get_attavgwidth :: "width_catalog \<Rightarrow> Oid \<Rightarrow> int \<Rightarrow> int" where
  "get_attavgwidth wc reloid attnum =
     (let hooked = (case get_attavgwidth_hook wc of Some hook \<Rightarrow> hook reloid attnum | None \<Rightarrow> 0)
      in if hooked > 0 then hooked
         else
           (case stawidth wc reloid attnum of
              Some w \<Rightarrow> if w > 0 then w else 0
            | None \<Rightarrow> 0))"

subsection \<open>The array of attribute widths\<close>

definition width_at :: "int list \<Rightarrow> int \<Rightarrow> int ereport" where
  "width_at ws ndx = (if 0 \<le> ndx \<and> ndx < int (length ws) then Inr (ws ! nat ndx) else Inl ''attr_widths out of bounds'')"

definition set_width :: "int list \<Rightarrow> int \<Rightarrow> int \<Rightarrow> int list ereport" where
  "set_width ws ndx w =
     (if 0 \<le> ndx \<and> ndx < int (length ws) then Inr (ws[nat ndx := w]) else Inl ''attr_widths out of bounds'')"

text \<open>The loop of \<^verbatim>\<open>get_rel_data_width\<close> from column \<open>i\<close> on; its array argument is \<^verbatim>\<open>attr_widths - min_attr\<close>.\<close>

fun rel_data_width_loop ::
    "width_catalog \<Rightarrow> Oid \<Rightarrow> int \<Rightarrow> pg_attribute list \<Rightarrow> int \<Rightarrow> int list \<Rightarrow> int \<Rightarrow> (int list \<times> int) ereport" where
  "rel_data_width_loop wc reloid mina [] i ws tuple_width = Inr (ws, tuple_width)"
| "rel_data_width_loop wc reloid mina (att # atts) i ws tuple_width =
     (if attisdropped att then rel_data_width_loop wc reloid mina atts (i + 1) ws tuple_width
      else ebind (width_at ws (i - mina)) (\<lambda>cached.
        if cached > 0 then rel_data_width_loop wc reloid mina atts (i + 1) ws (int32 (tuple_width + cached))
        else
          let stats = get_attavgwidth wc reloid i;
              item_width = (if stats \<le> 0 then get_typavgwidth wc (atttypid att) (atttypmod att) else stats)
          in ebind (set_width ws (i - mina) item_width) (\<lambda>ws'.
               rel_data_width_loop wc reloid mina atts (i + 1) ws' (int32 (tuple_width + item_width)))))"

definition get_relation_data_width :: "width_catalog \<Rightarrow> Oid \<Rightarrow> int \<Rightarrow> int list \<Rightarrow> (int list \<times> int) ereport" where
  "get_relation_data_width wc reloid mina ws = rel_data_width_loop wc reloid mina (rd_att wc reloid) 1 ws 0"

text \<open>The sum over the columns of a relation that has no catalog entry.\<close>

fun phony_width_loop :: "int \<Rightarrow> int list \<Rightarrow> int \<Rightarrow> nat \<Rightarrow> int \<Rightarrow> int ereport" where
  "phony_width_loop mina ws i 0 w = Inr w"
| "phony_width_loop mina ws i (Suc k) w =
     ebind (width_at ws (i - mina)) (\<lambda>x. phony_width_loop mina ws (i + 1) k (int32 (w + x)))"

subsection \<open>The width of a relation\<close>

record width_state =
  cur_widths :: "int list"
  tuple_width :: int
  have_wholerow_var :: bool
  cur_cost :: QualCost

definition rel_width_var ::
    "width_catalog \<Rightarrow> Oid \<Rightarrow> 'a RelOptBase_scheme \<Rightarrow> Node \<Rightarrow> width_state \<Rightarrow> width_state ereport" where
  "rel_width_var wc reloid rel var st =
     (let ndx = varattno var - min_attr rel
      in if varattno var = 0 then Inr (st\<lparr> have_wholerow_var := True \<rparr>)
         else ebind (width_at (cur_widths st) ndx) (\<lambda>cached.
           if cached > 0 then Inr (st\<lparr> tuple_width := int32 (tuple_width st + cached) \<rparr>)
           else
             let stats = (if reloid \<noteq> InvalidOid \<and> varattno var > 0 then get_attavgwidth wc reloid (varattno var) else 0);
                 item_width = (if stats > 0 then stats else get_typavgwidth wc (vartype var) (vartypmod var))
             in ebind (set_width (cur_widths st) ndx item_width) (\<lambda>ws.
                  Inr (st\<lparr> cur_widths := ws, tuple_width := int32 (tuple_width st + item_width) \<rparr>))))"

text \<open>An expression that is evaluated at the relation, of the given width.\<close>

definition add_expr ::
    "gucs \<Rightarrow> catalog \<Rightarrow> Node \<Rightarrow> int \<Rightarrow> width_state \<Rightarrow> width_state planner" where
  "add_expr g cat expr w st =
     pbind (cost_qual_eval_node g cat expr) (\<lambda>cost.
       preturn (st\<lparr> tuple_width := int32 (tuple_width st + w), cur_cost := add_qual_cost (cur_cost st) cost \<rparr>))"

definition rel_width_expr ::
    "gucs \<Rightarrow> 'b PlannerQuery_scheme \<Rightarrow> Oid \<Rightarrow> 'a RelOptBase_scheme \<Rightarrow> Node \<Rightarrow> width_state \<Rightarrow> width_state planner" where
  "rel_width_expr g proot reloid rel node st =
     (let wc = widths proot; cat = catalogs proot
      in if is_Var node \<and> varno node = relid rel then plift (rel_width_var wc reloid rel node st)
         else if is_PlaceHolderVar node then
           pbind (plift (find_placeholder_info proot node)) (\<lambda>phinfo.
             add_expr g cat (phexpr node) (ph_width phinfo) st)
         else add_expr g cat node (get_typavgwidth wc (exprType cat node) (exprTypmod wc node)) st)"

fun fold_exprs :: "(Node \<Rightarrow> width_state \<Rightarrow> width_state planner) \<Rightarrow> Node list \<Rightarrow> width_state \<Rightarrow> width_state planner" where
  "fold_exprs f [] st = preturn st"
| "fold_exprs f (node # nodes) st = pbind (f node st) (fold_exprs f nodes)"

text \<open>The whole-row reference at the end: the header, and the columns of the table or of the phony relation.\<close>

definition add_wholerow :: "width_catalog \<Rightarrow> Oid \<Rightarrow> 'a RelOptBase_scheme \<Rightarrow> width_state \<Rightarrow> width_state ereport" where
  "add_wholerow wc reloid rel st =
     (if \<not> have_wholerow_var st then Inr st
      else
        ebind (if reloid \<noteq> InvalidOid
               then ebind (get_relation_data_width wc reloid (min_attr rel) (cur_widths st))
                      (\<lambda>(ws, w). Inr (ws, int32 (MAXALIGN 23 + w)))
               else ebind (phony_width_loop (min_attr rel) (cur_widths st) 1 (nat (max_attr rel)) (MAXALIGN 23))
                      (\<lambda>w. Inr (cur_widths st, w)))
          (\<lambda>(ws, wholerow_width).
            ebind (set_width ws (0 - min_attr rel) wholerow_width) (\<lambda>ws'.
              Inr (st\<lparr> cur_widths := ws', tuple_width := int32 (tuple_width st + wholerow_width) \<rparr>))))"

definition set_rel_width ::
    "gucs \<Rightarrow> 'b PlannerQuery_scheme \<Rightarrow> 'a RelOptBase_scheme \<Rightarrow> 'a RelOptBase_scheme planner" where
  "set_rel_width g proot rel =
     (let reloid = rte_relid (planner_rt_fetch proot (relid rel));
          st = \<lparr> cur_widths = attr_widths rel, tuple_width = 0, have_wholerow_var = False, cur_cost = zero_cost \<rparr>
      in pbind (fold_exprs (rel_width_expr g proot reloid rel) (target_exprs (reltarget rel)) st) (\<lambda>st1.
         pbind (plift (add_wholerow (widths proot) reloid rel st1)) (\<lambda>st2.
           preturn (rel\<lparr> attr_widths := cur_widths st2,
             reltarget := (reltarget rel)\<lparr> target_cost := cur_cost st2, target_width := tuple_width st2 \<rparr> \<rparr>))))"

subsection \<open>The width of a path target\<close>

definition cached_width :: "'b PlannerQuery_scheme \<Rightarrow> Node \<Rightarrow> int ereport" where
  "cached_width proot var =
     (if varno var < length (simple_rel_array proot) then
        (case simple_rel_array proot ! varno var of
           Some rel \<Rightarrow>
             if min_attr rel \<le> varattno var \<and> varattno var \<le> max_attr rel
             then width_at (attr_widths rel) (varattno var - min_attr rel) else Inr 0
         | None \<Rightarrow> Inr 0)
      else Inr 0)"

definition target_expr :: "gucs \<Rightarrow> 'b PlannerQuery_scheme \<Rightarrow> Node \<Rightarrow> width_state \<Rightarrow> width_state planner" where
  "target_expr g proot node st =
     (let wc = widths proot; cat = catalogs proot
      in if is_Var node then
           pbind (plift (cached_width proot node)) (\<lambda>cached.
             let item_width = (if cached > 0 then cached else get_typavgwidth wc (vartype node) (vartypmod node))
             in preturn (st\<lparr> tuple_width := int32 (tuple_width st + item_width) \<rparr>))
         else add_expr g cat node (get_typavgwidth wc (exprType cat node) (exprTypmod wc node)) st)"

definition set_pathtarget_cost_width :: "gucs \<Rightarrow> 'b PlannerQuery_scheme \<Rightarrow> PathTarget \<Rightarrow> PathTarget planner" where
  "set_pathtarget_cost_width g proot target =
     pbind (fold_exprs (target_expr g proot) (target_exprs target)
              \<lparr> cur_widths = [], tuple_width = 0, have_wholerow_var = False, cur_cost = zero_cost \<rparr>) (\<lambda>st.
       preturn (target\<lparr> target_cost := cur_cost st, target_width := tuple_width st \<rparr>))"

subsection \<open>Results of planner actions\<close>

lemma planner_Inr:
  "pbind m f c = Inr y \<longleftrightarrow> (\<exists>c1 x. m c = Inr (c1, x) \<and> f x c1 = Inr y)"
  "plift r c = Inr (c', x) \<longleftrightarrow> r = Inr x \<and> c' = c"
  "preturn x c = Inr (c', x') \<longleftrightarrow> x' = x \<and> c' = c"
  by (auto simp: pbind_def plift_def preturn_def praise_def ebind_Inr_iff split: sum.splits)

subsection \<open>Sums that wrap around\<close>

lemma int32_add [simp]: "int32 (int32 a + b) = int32 (a + b)" "int32 (a + int32 b) = int32 (a + b)"
proof -
  have "((x + 2 ^ 31) mod 2 ^ 32 - 2 ^ 31 + y + 2 ^ 31) mod 2 ^ 32 = (x + y + 2 ^ 31) mod (2 ^ 32 :: int)" for x y :: int
    using mod_add_left_eq [of "x + 2 ^ 31" "2 ^ 32" y] by (simp add: algebra_simps)
  then show "int32 (int32 a + b) = int32 (a + b)" for a b unfolding int32_def by simp
  from this [of b a] show "int32 (a + int32 b) = int32 (a + b)" by (simp add: add.commute)
qed

lemma int32_plus: "int32 a = int32 b \<Longrightarrow> int32 c = int32 d \<Longrightarrow> int32 (a + c) = int32 (b + d)"
  using int32_add(1) [of a c] int32_add(1) [of b c] int32_add(2) [of b c] int32_add(2) [of b d] by simp

lemma int32_small [simp]: "- (2 ^ 31) \<le> x \<Longrightarrow> x < 2 ^ 31 \<Longrightarrow> int32 x = x"
  unfolding int32_def by simp

lemma int32_idem [simp]: "int32 (int32 x) = int32 x"
  using int32_add(1) [of x 0] by simp

definition in_int32 :: "int \<Rightarrow> bool" where
  "in_int32 x \<longleftrightarrow> int32 x = x"

lemma in_int32_int32 [simp]: "in_int32 (int32 x)"
  by (simp add: in_int32_def)

text \<open>The assertions \<^verbatim>\<open>item_width > 0\<close> hold for every type and modifier.\<close>

lemma get_typavgwidth_pos: "0 < get_typavgwidth wc t m"
proof -
  have "0 < 32 + (k - 32) div 2" if "\<not> k \<le> 32" for k :: int using that by presburger
  then show ?thesis by (simp add: get_typavgwidth_def Let_def)
qed

lemma get_attavgwidth_nonneg: "0 \<le> get_attavgwidth wc r a"
  by (auto simp: get_attavgwidth_def Let_def split: option.split)

subsection \<open>The array keeps what it caches\<close>

text \<open>Entries that are set stay, but for the one at \<open>z\<close>, which is that of the whole row.\<close>

definition keeps :: "int \<Rightarrow> int list \<Rightarrow> int list \<Rightarrow> bool" where
  "keeps z ws ws' \<longleftrightarrow> length ws' = length ws \<and> (\<forall>i < length ws. int i \<noteq> z \<and> 0 < ws ! i \<longrightarrow> ws' ! i = ws ! i)"

lemma keeps_refl [simp]: "keeps z ws ws"
  by (simp add: keeps_def)

lemma keeps_trans: "keeps z a b \<Longrightarrow> keeps z b c \<Longrightarrow> keeps z a c"
  by (simp add: keeps_def)

lemma keeps_length: "keeps z ws ws' \<Longrightarrow> length ws' = length ws"
  by (simp add: keeps_def)

lemma keeps_set: "width_at ws k = Inr x \<Longrightarrow> x \<le> 0 \<Longrightarrow> set_width ws k w = Inr ws' \<Longrightarrow> keeps z ws ws'"
  by (auto simp: keeps_def width_at_def set_width_def nth_list_update split: if_splits)

lemma keeps_set_wholerow: "set_width ws z w = Inr ws' \<Longrightarrow> keeps z ws ws'"
  by (auto simp: keeps_def set_width_def nth_list_update split: if_splits)

lemma width_after_set: "set_width ws k w = Inr ws' \<Longrightarrow> width_at ws' k = Inr w"
  by (auto simp: width_at_def set_width_def split: if_splits)

text \<open>Reading an entry, or setting it to \<open>w\<close> when it is not there yet.\<close>

lemma cache_step:
  assumes "width_at ws k = Inr x" "0 < w" "if 0 < x then ws' = ws \<and> v = x else set_width ws k w = Inr ws' \<and> v = w"
  shows "keeps z ws ws'" "width_at ws' k = Inr v" "0 < v"
  using assms keeps_set [OF assms(1)] width_after_set by (auto split: if_splits)

lemma keepsD: "keeps z ws ws' \<Longrightarrow> width_at ws k = Inr x \<Longrightarrow> 0 < x \<Longrightarrow> k \<noteq> z \<Longrightarrow> width_at ws' k = Inr x"
  by (auto simp: keeps_def width_at_def split: if_splits)

text \<open>The columns of a table whose widths count.\<close>

fun live_columns :: "pg_attribute list \<Rightarrow> int \<Rightarrow> int list" where
  "live_columns [] i = []"
| "live_columns (att # atts) i = (if attisdropped att then [] else [i]) @ live_columns atts (i + 1)"

lemma live_columns_ge: "c \<in> set (live_columns atts i) \<Longrightarrow> i \<le> c"
  by (induction atts arbitrary: i) (fastforce split: if_splits)+

definition entry :: "int list \<Rightarrow> int \<Rightarrow> int" where
  "entry ws k = (case width_at ws k of Inr w \<Rightarrow> w | Inl _ \<Rightarrow> 0)"

lemma entry_at: "width_at ws k = Inr w \<Longrightarrow> entry ws k = w"
  by (simp add: entry_def)

lemma entry_pos: "0 < entry ws k \<longleftrightarrow> (\<exists>w > 0. width_at ws k = Inr w)"
  by (auto simp: entry_def split: sum.split)

lemma entry_set: "set_width ws k w = Inr ws' \<Longrightarrow> j \<noteq> k \<Longrightarrow> entry ws' j = entry ws j"
  by (auto simp: entry_def width_at_def set_width_def nat_eq_iff split: if_splits)

lemma keeps_entry: "keeps z ws ws' \<Longrightarrow> 0 < entry ws k \<Longrightarrow> k \<noteq> z \<Longrightarrow> entry ws' k = entry ws k"
  using keepsD entry_at unfolding entry_pos by metis

lemma rel_data_width_sum:
  assumes "rel_data_width_loop wc reloid mina atts i ws w = Inr (ws', w')" "0 < i"
  shows "keeps (0 - mina) ws ws' \<and> int32 w' = int32 (w + (\<Sum>c \<leftarrow> live_columns atts i. entry ws' (c - mina))) \<and>
    (\<forall>c \<in> set (live_columns atts i). 0 < entry ws' (c - mina))"
  using assms
proof (induction atts arbitrary: i ws w)
  case (Cons att atts)
  show ?case
  proof (cases "attisdropped att")
    case True
    then show ?thesis using Cons.IH [of "i + 1" ws w] Cons.prems by simp
  next
    case False
    define u where "u = (let s = get_attavgwidth wc reloid i
      in if s \<le> 0 then get_typavgwidth wc (atttypid att) (atttypmod att) else s)"
    have u: "0 < u" using get_typavgwidth_pos by (simp add: u_def Let_def)
    have l: "rel_data_width_loop wc reloid mina (att # atts) i ws w = ebind (width_at ws (i - mina)) (\<lambda>x.
        if x > 0 then rel_data_width_loop wc reloid mina atts (i + 1) ws (int32 (w + x))
        else ebind (set_width ws (i - mina) u) (\<lambda>ws1. rel_data_width_loop wc reloid mina atts (i + 1) ws1 (int32 (w + u))))"
      using False by (simp add: u_def Let_def cong: if_cong)
    then obtain x where x: "width_at ws (i - mina) = Inr x" using Cons.prems(1) by (auto simp: ebind_Inr_iff)
    then obtain ws1 v where s: "if 0 < x then ws1 = ws \<and> v = x else set_width ws (i - mina) u = Inr ws1 \<and> v = u"
      and r: "rel_data_width_loop wc reloid mina atts (i + 1) ws1 (int32 (w + v)) = Inr (ws', w')"
      using Cons.prems(1) unfolding l by (cases "0 < x") (auto simp: ebind_Inr_iff)
    note ws1 = cache_step [OF x u s] and v = cache_step(3) [OF x u s]
    have ih: "keeps (0 - mina) ws1 ws'" "int32 w' = int32 (w + v + (\<Sum>c \<leftarrow> live_columns atts (i + 1). entry ws' (c - mina)))"
      "\<forall>c \<in> set (live_columns atts (i + 1)). 0 < entry ws' (c - mina)"
      using Cons.IH [OF r] Cons.prems(2) by simp_all
    have "width_at ws' (i - mina) = Inr v" using Cons.prems(2) by (intro keepsD [OF ih(1) ws1(2) v]) simp
    then have e: "entry ws' (i - mina) = v" by (rule entry_at)
    show ?thesis using ih(2,3) e v keeps_trans [OF ws1(1) ih(1)] False by (simp add: algebra_simps)
  qed
qed simp


lemma phony_width_sum:
  "phony_width_loop mina ws i k w = Inr w' \<Longrightarrow>
     int32 w' = int32 (w + (\<Sum>c \<leftarrow> [i .. i + int k - 1]. entry ws (c - mina)))"
proof (induction k arbitrary: i w)
  case (Suc k)
  then obtain x where x: "width_at ws (i - mina) = Inr x" "phony_width_loop mina ws (i + 1) k (int32 (w + x)) = Inr w'"
    by (auto simp: ebind_Inr_iff)
  have "[i .. i + int (Suc k) - 1] = i # [i + 1 .. i + 1 + int k - 1]" by (simp add: upto.simps)
  then show ?case using Suc.IH [OF x(2)] entry_at [OF x(1)] by (simp add: algebra_simps)
qed simp

subsection \<open>The width is the sum of the cached widths\<close>

definition own_var :: "'a RelOptBase_scheme \<Rightarrow> Node \<Rightarrow> bool" where
  "own_var rel node \<longleftrightarrow> is_Var node \<and> varno node = relid rel"

text \<open>The width of an expression by the array of attribute widths; whole-row variables are counted apart.\<close>

definition expr_width :: "'b PlannerQuery_scheme \<Rightarrow> 'a RelOptBase_scheme \<Rightarrow> int list \<Rightarrow> Node \<Rightarrow> int" where
  "expr_width proot rel ws node =
     (if own_var rel node then (if varattno node = 0 then 0 else entry ws (varattno node - min_attr rel))
      else if is_PlaceHolderVar node then
        (case find_placeholder_info proot node of Inr phinfo \<Rightarrow> ph_width phinfo | Inl _ \<Rightarrow> 0)
      else get_typavgwidth (widths proot) (exprType (catalogs proot) node) (exprTypmod (widths proot) node))"

definition wholerow_columns :: "width_catalog \<Rightarrow> Oid \<Rightarrow> 'a RelOptBase_scheme \<Rightarrow> int list" where
  "wholerow_columns wc reloid rel = (if reloid \<noteq> InvalidOid then live_columns (rd_att wc reloid) 1 else [1 .. max_attr rel])"

definition has_wholerow :: "'a RelOptBase_scheme \<Rightarrow> Node list \<Rightarrow> bool" where
  "has_wholerow rel nodes \<longleftrightarrow> (\<exists>n \<in> set nodes. own_var rel n \<and> varattno n = 0)"

definition sums_to ::
    "'b PlannerQuery_scheme \<Rightarrow> 'a RelOptBase_scheme \<Rightarrow> Node list \<Rightarrow> int list \<Rightarrow> int \<Rightarrow> bool" where
  "sums_to proot rel nodes ws w \<longleftrightarrow>
     int32 w = int32 (\<Sum>n \<leftarrow> nodes. expr_width proot rel ws n) \<and>
     (\<forall>n \<in> set nodes. own_var rel n \<and> varattno n \<noteq> 0 \<longrightarrow> 0 < entry ws (varattno n - min_attr rel))"

lemma sums_to_keeps:
  assumes "sums_to proot rel nodes ws w" "keeps (0 - min_attr rel) ws ws'"
  shows "sums_to proot rel nodes ws' w"
proof -
  have e: "entry ws' (varattno n - min_attr rel) = entry ws (varattno n - min_attr rel)"
    if "n \<in> set nodes" "own_var rel n" "varattno n \<noteq> 0" for n
    using that assms(1) by (intro keeps_entry [OF assms(2)]) (auto simp: sums_to_def)
  then have "map (expr_width proot rel ws') nodes = map (expr_width proot rel ws) nodes" by (simp add: expr_width_def)
  then have "(\<Sum>n \<leftarrow> nodes. expr_width proot rel ws' n) = (\<Sum>n \<leftarrow> nodes. expr_width proot rel ws n)" by (rule arg_cong)
  then show ?thesis using assms(1) e by (simp add: sums_to_def)
qed

definition expr_step where
  "expr_step proot rel node st st' \<longleftrightarrow>
     keeps (0 - min_attr rel) (cur_widths st) (cur_widths st') \<and>
     int32 (tuple_width st') = int32 (tuple_width st + expr_width proot rel (cur_widths st') node) \<and>
     (own_var rel node \<and> varattno node \<noteq> 0 \<longrightarrow> 0 < entry (cur_widths st') (varattno node - min_attr rel)) \<and>
     have_wholerow_var st' = (have_wholerow_var st \<or> (own_var rel node \<and> varattno node = 0)) \<and>
     (in_int32 (tuple_width st) \<longrightarrow> in_int32 (tuple_width st')) \<and>
     (\<forall>a. \<not> (own_var rel node \<and> varattno node = a) \<longrightarrow>
        entry (cur_widths st') (a - min_attr rel) = entry (cur_widths st) (a - min_attr rel))"

lemma rel_width_var_step:
  assumes "rel_width_var (widths proot) reloid rel node st = Inr st'" "own_var rel node"
  shows "expr_step proot rel node st st'"
proof (cases "varattno node = 0")
  case True
  then show ?thesis using assms by (auto simp: rel_width_var_def expr_step_def expr_width_def)
next
  case False
  let ?k = "varattno node - min_attr rel"
  define u where "u = (let s = (if reloid \<noteq> InvalidOid \<and> varattno node > 0 then get_attavgwidth (widths proot) reloid (varattno node) else 0)
    in if s > 0 then s else get_typavgwidth (widths proot) (vartype node) (vartypmod node))"
  have u: "0 < u" using get_typavgwidth_pos by (simp add: u_def Let_def)
  have l: "rel_width_var (widths proot) reloid rel node st = ebind (width_at (cur_widths st) ?k) (\<lambda>x.
      if x > 0 then Inr (st\<lparr> tuple_width := int32 (tuple_width st + x) \<rparr>)
      else ebind (set_width (cur_widths st) ?k u) (\<lambda>ws.
        Inr (st\<lparr> cur_widths := ws, tuple_width := int32 (tuple_width st + u) \<rparr>)))"
    using False by (simp add: rel_width_var_def u_def Let_def cong: if_cong)
  obtain x where x: "width_at (cur_widths st) ?k = Inr x" using assms(1) unfolding l ebind_Inr_iff by blast
  then obtain v where
    s: "if 0 < x then cur_widths st' = cur_widths st \<and> v = x else set_width (cur_widths st) ?k u = Inr (cur_widths st') \<and> v = u"
    and r: "tuple_width st' = int32 (tuple_width st + v)" "have_wholerow_var st' = have_wholerow_var st"
    using assms(1) unfolding l by (cases "0 < x") (auto simp: ebind_Inr_iff)
  note c = cache_step [OF x u s]
  have "entry (cur_widths st') (a - min_attr rel) = entry (cur_widths st) (a - min_attr rel)" if "varattno node \<noteq> a" for a
    using s entry_set [of "cur_widths st" ?k u "cur_widths st'" "a - min_attr rel"] that by (auto split: if_splits)
  then show ?thesis using c r entry_at [OF c(2)] False assms(2) by (simp add: expr_step_def expr_width_def)
qed

lemma add_expr_step:
  assumes "add_expr g cat e w st c = Inr (c', st')"
  shows "cur_widths st' = cur_widths st \<and> tuple_width st' = int32 (tuple_width st + w) \<and> have_wholerow_var st' = have_wholerow_var st"
  using assms by (auto simp: add_expr_def pbind_def preturn_def ebind_Inr_iff)

lemma rel_width_expr_step:
  assumes "rel_width_expr g proot reloid rel node st c = Inr (c', st')"
  shows "expr_step proot rel node st st'"
proof (cases "own_var rel node")
  case True
  then have "rel_width_var (widths proot) reloid rel node st = Inr st'"
    using assms by (auto simp: rel_width_expr_def own_var_def plift_def preturn_def praise_def split: sum.splits)
  then show ?thesis using True by (rule rel_width_var_step)
next
  case False
  then obtain e where "add_expr g (catalogs proot) e (expr_width proot rel (cur_widths st') node) st c = Inr (c', st')"
    using assms by (auto simp: rel_width_expr_def own_var_def expr_width_def Let_def plift_def preturn_def praise_def pbind_def
        ebind_Inr_iff split: if_splits sum.splits)
  from add_expr_step [OF this] False show ?thesis by (simp add: expr_step_def)
qed

lemma fold_exprs_sum:
  assumes "fold_exprs (rel_width_expr g proot reloid rel) nodes st c = Inr (c', st')"
  shows "keeps (0 - min_attr rel) (cur_widths st) (cur_widths st') \<and>
    sums_to proot rel nodes (cur_widths st') (tuple_width st' - tuple_width st) \<and>
    have_wholerow_var st' = (have_wholerow_var st \<or> has_wholerow rel nodes) \<and>
    (in_int32 (tuple_width st) \<longrightarrow> in_int32 (tuple_width st')) \<and>
    (\<forall>a. (\<forall>n \<in> set nodes. own_var rel n \<longrightarrow> varattno n \<noteq> a) \<longrightarrow>
       entry (cur_widths st') (a - min_attr rel) = entry (cur_widths st) (a - min_attr rel))"
  using assms
proof (induction nodes arbitrary: st c)
  case (Cons n ns)
  then obtain c1 st1 where 1: "rel_width_expr g proot reloid rel n st c = Inr (c1, st1)"
    "fold_exprs (rel_width_expr g proot reloid rel) ns st1 c1 = Inr (c', st')"
    by (auto simp: pbind_def ebind_Inr_iff)
  note e = rel_width_expr_step [OF 1(1), unfolded expr_step_def] and ih = Cons.IH [OF 1(2)]
  let ?z = "0 - min_attr rel"
  have "int32 (tuple_width st1 + - tuple_width st) = int32 (tuple_width st + expr_width proot rel (cur_widths st1) n + - tuple_width st)"
    using e by (intro int32_plus) auto
  then have "sums_to proot rel [n] (cur_widths st1) (tuple_width st1 - tuple_width st)"
    using e by (simp add: sums_to_def)
  then have n: "sums_to proot rel [n] (cur_widths st') (tuple_width st1 - tuple_width st)"
    using ih sums_to_keeps by blast
  have "int32 ((tuple_width st1 - tuple_width st) + (tuple_width st' - tuple_width st1)) =
      int32 (expr_width proot rel (cur_widths st') n + (\<Sum>m \<leftarrow> ns. expr_width proot rel (cur_widths st') m))"
    using n ih by (intro int32_plus) (simp_all add: sums_to_def)
  then have "sums_to proot rel (n # ns) (cur_widths st') (tuple_width st' - tuple_width st)"
    using n ih by (simp add: sums_to_def)
  then show ?case using e ih keeps_trans by (auto simp: has_wholerow_def)
qed (auto simp: preturn_def sums_to_def has_wholerow_def)


lemma upto_nat: "[1 .. 1 + int (nat m) - 1] = [1 .. m]"
  by (cases "0 \<le> m") simp_all

lemma add_wholerow_sum:
  assumes "add_wholerow wc reloid rel st = Inr st'" "have_wholerow_var st"
  shows "keeps (0 - min_attr rel) (cur_widths st) (cur_widths st') \<and>
    tuple_width st' = int32 (tuple_width st + 24 + (\<Sum>c \<leftarrow> wholerow_columns wc reloid rel. entry (cur_widths st') (c - min_attr rel))) \<and>
    (reloid \<noteq> InvalidOid \<longrightarrow> (\<forall>c \<in> set (wholerow_columns wc reloid rel). 0 < entry (cur_widths st') (c - min_attr rel))) \<and>
    (reloid = InvalidOid \<longrightarrow> (\<forall>c \<in> set (wholerow_columns wc reloid rel). entry (cur_widths st') (c - min_attr rel) = entry (cur_widths st) (c - min_attr rel)))"
proof -
  let ?m = "min_attr rel" let ?cols = "wholerow_columns wc reloid rel"
  have align: "MAXALIGN 23 = 24" by (simp add: MAXALIGN_def)
  obtain ws w where 1: "set_width ws (0 - ?m) w = Inr (cur_widths st')" "tuple_width st' = int32 (tuple_width st + w)"
    "keeps (0 - ?m) (cur_widths st) ws" "int32 w = int32 (24 + (\<Sum>c \<leftarrow> ?cols. entry ws (c - ?m)))"
    "reloid \<noteq> InvalidOid \<longrightarrow> (\<forall>c \<in> set ?cols. 0 < entry ws (c - ?m))" "reloid = InvalidOid \<longrightarrow> ws = cur_widths st"
  proof (cases "reloid = InvalidOid")
    case True
    then obtain w ws' where w: "phony_width_loop ?m (cur_widths st) 1 (nat (max_attr rel)) (MAXALIGN 23) = Inr w"
      "set_width (cur_widths st) (0 - ?m) w = Inr ws'"
      "st' = st\<lparr> cur_widths := ws', tuple_width := int32 (tuple_width st + w) \<rparr>"
      using assms by (auto simp: add_wholerow_def ebind_Inr_iff)
    show ?thesis using that [OF _ _ keeps_refl] w True phony_width_sum [OF w(1)] upto_nat [of "max_attr rel"]
      by (simp add: wholerow_columns_def align)
  next
    case False
    then obtain ws w ws' where w: "get_relation_data_width wc reloid ?m (cur_widths st) = Inr (ws, w)"
      "set_width ws (0 - ?m) (int32 (MAXALIGN 23 + w)) = Inr ws'"
      "st' = st\<lparr> cur_widths := ws', tuple_width := int32 (tuple_width st + int32 (MAXALIGN 23 + w)) \<rparr>"
      using assms by (auto simp: add_wholerow_def ebind_Inr_iff)
    have l: "keeps (0 - ?m) (cur_widths st) ws" "int32 w = int32 (0 + (\<Sum>c \<leftarrow> ?cols. entry ws (c - ?m)))"
      "\<forall>c \<in> set ?cols. 0 < entry ws (c - ?m)"
      using rel_data_width_sum [OF w(1) [unfolded get_relation_data_width_def]] False by (simp_all add: wholerow_columns_def)
    have "int32 (int32 (24 + w)) = int32 (24 + (\<Sum>c \<leftarrow> ?cols. entry ws (c - ?m)))"
      using int32_plus [OF refl l(2), of 24] by simp
    then show ?thesis using that [of ws "int32 (24 + w)"] w l False by (simp add: align)
  qed
  have c: "entry (cur_widths st') (c - ?m) = entry ws (c - ?m)" if "c \<in> set ?cols" for c
    using that live_columns_ge [of c "rd_att wc reloid" 1]
    by (intro entry_set [OF 1(1)]) (auto simp: wholerow_columns_def split: if_splits)
  then have "map (\<lambda>c. entry (cur_widths st') (c - ?m)) ?cols = map (\<lambda>c. entry ws (c - ?m)) ?cols" by simp
  then have s: "(\<Sum>c \<leftarrow> ?cols. entry (cur_widths st') (c - ?m)) = (\<Sum>c \<leftarrow> ?cols. entry ws (c - ?m))" by (rule arg_cong)
  have "tuple_width st' = int32 (tuple_width st + (24 + (\<Sum>c \<leftarrow> ?cols. entry ws (c - ?m))))"
    using 1(2) int32_plus [OF refl 1(4), of "tuple_width st"] by simp
  then show ?thesis using 1 c s keeps_trans [OF 1(3) keeps_set_wholerow [OF 1(1)]] by (simp add: algebra_simps)
qed


subsection \<open>No access out of bounds\<close>

text \<open>A relation whose array covers its columns, and a target whose expressions can be costed.\<close>

definition widths_ok :: "'b PlannerQuery_scheme \<Rightarrow> 'a RelOptBase_scheme \<Rightarrow> bool" where
  "widths_ok proot rel \<longleftrightarrow> min_attr rel \<le> 0 \<and> 0 \<le> max_attr rel \<and>
     int (length (attr_widths rel)) = max_attr rel - min_attr rel + 1 \<and>
     int (length (rd_att (widths proot) (rte_relid (planner_rt_fetch proot (relid rel))))) \<le> max_attr rel \<and>
     (\<forall>n \<in> set (target_exprs (reltarget rel)). own_var rel n \<longrightarrow> min_attr rel \<le> varattno n \<and> varattno n \<le> max_attr rel)"

definition evaluated :: "Node \<Rightarrow> Node" where
  "evaluated n = (if is_PlaceHolderVar n then phexpr n else n)"

definition evaluable :: "gucs \<Rightarrow> 'b PlannerQuery_scheme \<Rightarrow> 'a RelOptBase_scheme \<Rightarrow> bool" where
  "evaluable g proot rel \<longleftrightarrow> (\<forall>n \<in> set (target_exprs (reltarget rel)). \<not> own_var rel n \<longrightarrow>
     (is_PlaceHolderVar n \<longrightarrow> (\<exists>phinfo. find_placeholder_info proot n = Inr phinfo)) \<and>
     (\<forall>c. \<exists>c' q. cost_qual_eval_node g (catalogs proot) (evaluated n) c = Inr (c', q)))"

lemma in_bounds:
  "0 \<le> k \<Longrightarrow> k < int (length ws) \<Longrightarrow> width_at ws k = Inr (ws ! nat k)"
  "0 \<le> k \<Longrightarrow> k < int (length ws) \<Longrightarrow> set_width ws k w = Inr (ws[nat k := w])"
  by (simp_all add: width_at_def set_width_def)

lemma rel_data_width_returns:
  "mina \<le> i \<Longrightarrow> i + int (length atts) - mina \<le> int (length ws) \<Longrightarrow>
     \<exists>ws' w'. rel_data_width_loop wc reloid mina atts i ws w = Inr (ws', w') \<and> length ws' = length ws"
proof (induction atts arbitrary: i ws w)
  case (Cons att atts)
  have k: "0 \<le> i - mina" "i - mina < int (length ws)" using Cons.prems by simp_all
  have ih: "\<exists>ws' w'. rel_data_width_loop wc reloid mina atts (i + 1) vs v = Inr (ws', w') \<and> length ws' = length ws"
    if "length vs = length ws" for vs v using Cons.IH [of "i + 1" vs v] Cons.prems that by simp
  show ?case using ih by (simp add: Let_def in_bounds [OF k])
qed simp

lemma phony_width_returns:
  "mina \<le> i \<Longrightarrow> i + int k - mina \<le> int (length ws) \<Longrightarrow> \<exists>w'. phony_width_loop mina ws i k w = Inr w'"
proof (induction k arbitrary: i w)
  case (Suc k)
  then have "0 \<le> i - mina" "i - mina < int (length ws)" by simp_all
  then show ?case using Suc by (simp add: in_bounds)
qed simp

lemma add_wholerow_returns:
  assumes "widths_ok proot rel" "length (cur_widths st) = length (attr_widths rel)"
  shows "\<exists>st'. add_wholerow (widths proot) (rte_relid (planner_rt_fetch proot (relid rel))) rel st = Inr st'"
proof -
  note w = assms(1) [unfolded widths_ok_def]
  let ?oid = "rte_relid (planner_rt_fetch proot (relid rel))"
  have z: "0 \<le> 0 - min_attr rel" "0 - min_attr rel < int (length (attr_widths rel))" using w by simp_all
  have set: "set_width ws (- min_attr rel) v = Inr (ws[nat (- min_attr rel) := v])" if "length ws = length (attr_widths rel)" for ws v
    using in_bounds(2) [of "- min_attr rel" ws v] z that by simp
  have "\<exists>ws' w'. get_relation_data_width (widths proot) ?oid (min_attr rel) (cur_widths st) = Inr (ws', w') \<and>
      length ws' = length (attr_widths rel)"
    unfolding get_relation_data_width_def using w assms(2)
      rel_data_width_returns [of "min_attr rel" 1 "rd_att (widths proot) ?oid" "cur_widths st" "widths proot" ?oid 0] by simp
  moreover have "\<exists>w'. phony_width_loop (min_attr rel) (cur_widths st) 1 (nat (max_attr rel)) (MAXALIGN 23) = Inr w'"
    using w assms(2) by (intro phony_width_returns) simp_all
  ultimately show ?thesis using set assms(2) unfolding add_wholerow_def by (auto simp: case_prod_beta)
qed

lemma add_expr_returns:
  "cost_qual_eval_node g cat e c = Inr (c', q) \<Longrightarrow>
   add_expr g cat e w st c = Inr (c', st\<lparr> tuple_width := int32 (tuple_width st + w), cur_cost := add_qual_cost (cur_cost st) q \<rparr>)"
  by (simp add: add_expr_def pbind_def preturn_def)

lemma rel_width_expr_returns:
  assumes w: "widths_ok proot rel" "evaluable g proot rel" and n: "n \<in> set (target_exprs (reltarget rel))"
    and l: "length (cur_widths st) = length (attr_widths rel)"
  shows "\<exists>c' st'. rel_width_expr g proot reloid rel n st c = Inr (c', st') \<and> length (cur_widths st') = length (attr_widths rel)"
proof (cases "own_var rel n")
  case True
  let ?k = "varattno n - min_attr rel"
  have k: "0 \<le> ?k" "?k < int (length (cur_widths st))" using w(1) n True l by (auto simp: widths_ok_def)
  have "\<exists>st'. rel_width_var (widths proot) reloid rel n st = Inr st' \<and> length (cur_widths st') = length (attr_widths rel)"
    using l by (simp add: rel_width_var_def Let_def in_bounds [OF k])
  then show ?thesis using True by (auto simp: rel_width_expr_def own_var_def plift_def preturn_def)
next
  case False
  then have "\<exists>c' q. cost_qual_eval_node g (catalogs proot) (evaluated n) c = Inr (c', q)"
    "is_PlaceHolderVar n \<longrightarrow> (\<exists>phinfo. find_placeholder_info proot n = Inr phinfo)"
    using w(2) n unfolding evaluable_def by blast+
  then show ?thesis using False l
    by (auto simp: add_expr_returns rel_width_expr_def own_var_def evaluated_def plift_def preturn_def pbind_def Let_def split: if_splits)
qed

lemma fold_exprs_returns:
  assumes w: "widths_ok proot rel" "evaluable g proot rel"
  shows "set nodes \<subseteq> set (target_exprs (reltarget rel)) \<Longrightarrow> length (cur_widths st) = length (attr_widths rel) \<Longrightarrow>
    \<exists>c' st'. fold_exprs (rel_width_expr g proot reloid rel) nodes st c = Inr (c', st') \<and>
      length (cur_widths st') = length (attr_widths rel)"
proof (induction nodes arbitrary: st c)
  case (Cons n ns)
  obtain c1 st1 where "rel_width_expr g proot reloid rel n st c = Inr (c1, st1)" "length (cur_widths st1) = length (attr_widths rel)"
    using rel_width_expr_returns [OF w, of n st reloid c] Cons.prems by auto
  then show ?case using Cons.IH [of st1 c1] Cons.prems by (simp add: pbind_def)
qed (simp add: preturn_def)

lemma set_rel_width_returns:
  assumes "widths_ok proot rel" "evaluable g proot rel"
  shows "\<exists>c' rel'. set_rel_width g proot rel c = Inr (c', rel')"
proof -
  let ?st = "\<lparr> cur_widths = attr_widths rel, tuple_width = 0, have_wholerow_var = False, cur_cost = zero_cost \<rparr>"
  let ?oid = "rte_relid (planner_rt_fetch proot (relid rel))"
  obtain c1 st1 where "fold_exprs (rel_width_expr g proot ?oid rel) (target_exprs (reltarget rel)) ?st c = Inr (c1, st1)"
    "length (cur_widths st1) = length (attr_widths rel)"
    using fold_exprs_returns [OF assms order_refl, of ?st ?oid c] by auto
  moreover obtain st2 where "add_wholerow (widths proot) ?oid rel st1 = Inr st2"
    using add_wholerow_returns [OF assms(1) calculation(2)] by blast
  ultimately show ?thesis by (simp add: set_rel_width_def Let_def pbind_def plift_def preturn_def)
qed


text \<open>The width as it follows from an array of attribute widths.\<close>

definition described_width :: "'b PlannerQuery_scheme \<Rightarrow> 'a RelOptBase_scheme \<Rightarrow> int list \<Rightarrow> int" where
  "described_width proot rel ws =
     (\<Sum>n \<leftarrow> target_exprs (reltarget rel). expr_width proot rel ws n) +
     (if has_wholerow rel (target_exprs (reltarget rel)) then 24 +
        (\<Sum>a \<leftarrow> wholerow_columns (widths proot) (rte_relid (planner_rt_fetch proot (relid rel))) rel. entry ws (a - min_attr rel))
      else 0)"

definition referenced :: "'a RelOptBase_scheme \<Rightarrow> int \<Rightarrow> bool" where
  "referenced rel a \<longleftrightarrow> (\<exists>n \<in> set (target_exprs (reltarget rel)). own_var rel n \<and> varattno n = a)"

definition others_same :: "'b PlannerQuery_scheme \<Rightarrow> 'a RelOptBase_scheme \<Rightarrow> int list \<Rightarrow> int list \<Rightarrow> bool" where
  "others_same proot rel ws ws' \<longleftrightarrow> (\<forall>a. a \<noteq> 0 \<and> rte_relid (planner_rt_fetch proot (relid rel)) = InvalidOid \<and>
     \<not> referenced rel a \<and> has_wholerow rel (target_exprs (reltarget rel)) \<and>
     a \<in> set (wholerow_columns (widths proot) InvalidOid rel) \<longrightarrow>
     entry ws' (a - min_attr rel) = entry ws (a - min_attr rel))"

definition settled :: "'b PlannerQuery_scheme \<Rightarrow> 'a RelOptBase_scheme \<Rightarrow> int list \<Rightarrow> bool" where
  "settled proot rel ws \<longleftrightarrow> (\<forall>a. a \<noteq> 0 \<and> (referenced rel a \<or>
      has_wholerow rel (target_exprs (reltarget rel)) \<and> rte_relid (planner_rt_fetch proot (relid rel)) \<noteq> InvalidOid \<and>
      a \<in> set (wholerow_columns (widths proot) (rte_relid (planner_rt_fetch proot (relid rel))) rel)) \<longrightarrow>
    0 < entry ws (a - min_attr rel))"

lemma set_rel_width_run:
  assumes "set_rel_width g proot rel c = Inr (c', rel')"
  obtains cost w where
    "rel' = rel\<lparr> attr_widths := attr_widths rel', reltarget := (reltarget rel)\<lparr> target_cost := cost, target_width := w \<rparr> \<rparr>"
    "w = int32 (described_width proot rel (attr_widths rel'))" "keeps (0 - min_attr rel) (attr_widths rel) (attr_widths rel')"
    "settled proot rel (attr_widths rel')"
    "others_same proot rel (attr_widths rel) (attr_widths rel')"
proof -
  let ?st = "\<lparr> cur_widths = attr_widths rel, tuple_width = 0, have_wholerow_var = False, cur_cost = zero_cost \<rparr>"
  let ?oid = "rte_relid (planner_rt_fetch proot (relid rel))" let ?ns = "target_exprs (reltarget rel)"
  obtain c1 st1 st2 where f: "fold_exprs (rel_width_expr g proot ?oid rel) ?ns ?st c = Inr (c1, st1)"
    and a: "add_wholerow (widths proot) ?oid rel st1 = Inr st2"
    and r: "rel' = rel\<lparr> attr_widths := cur_widths st2,
      reltarget := (reltarget rel)\<lparr> target_cost := cur_cost st2, target_width := tuple_width st2 \<rparr> \<rparr>"
    using assms unfolding set_rel_width_def Let_def planner_Inr by blast
  note f1 = fold_exprs_sum [OF f, simplified]
  have z: "in_int32 0" by (simp add: in_int32_def)
  show ?thesis
  proof (cases "has_wholerow rel ?ns")
    case False
    then have [simp]: "st2 = st1" using a f1 by (simp add: add_wholerow_def)
    have "tuple_width st1 = int32 (described_width proot rel (cur_widths st1))"
      using f1 z False by (simp add: described_width_def sums_to_def in_int32_def)
    then show ?thesis using that [of "tuple_width st1" "cur_cost st1"] f1 False r
      by (auto simp: settled_def sums_to_def referenced_def others_same_def)
  next
    case True
    then have h: "have_wholerow_var st1" using f1 by simp
    note w = add_wholerow_sum [OF a h]
    have s: "sums_to proot rel ?ns (cur_widths st2) (tuple_width st1)" using sums_to_keeps f1 w by blast
    have "tuple_width st2 = int32 (tuple_width st1 + (24 + (\<Sum>a \<leftarrow> wholerow_columns (widths proot) ?oid rel. entry (cur_widths st2) (a - min_attr rel))))"
      using w by (simp add: add.assoc)
    then have "tuple_width st2 = int32 (described_width proot rel (cur_widths st2))"
      unfolding described_width_def using True int32_plus [OF conjunct1 [OF s [unfolded sums_to_def]] refl] by simp
    moreover have "keeps (0 - min_attr rel) (attr_widths rel) (cur_widths st2)" using f1 w keeps_trans by auto
    moreover have "settled proot rel (cur_widths st2)" using w s by (auto simp: settled_def sums_to_def referenced_def)
    ultimately show ?thesis using that [of "tuple_width st2" "cur_cost st2"] r w f1 by (auto simp: referenced_def others_same_def)
  qed
qed

lemma described_width_settled:
  assumes s: "settled proot rel ws"
    and same: "target_exprs (reltarget rel') = target_exprs (reltarget rel)" "relid rel' = relid rel"
      "min_attr rel' = min_attr rel" "max_attr rel' = max_attr rel" "own_var rel' = own_var rel"
    and k: "keeps (0 - min_attr rel) ws ws'"
    and u: "others_same proot rel ws ws'"
  shows "described_width proot rel' ws' = described_width proot rel ws"
proof -
  let ?ns = "target_exprs (reltarget rel)" let ?oid = "rte_relid (planner_rt_fetch proot (relid rel))"
  have kept: "entry ws' (a - min_attr rel) = entry ws (a - min_attr rel)" if "0 < entry ws (a - min_attr rel)" "a \<noteq> 0" for a
    using that by (intro keeps_entry [OF k]) simp_all
  have "expr_width proot rel' ws' n = expr_width proot rel ws n" if "n \<in> set ?ns" for n
    using that kept [of "varattno n"] s by (auto simp: expr_width_def same settled_def referenced_def)
  then have e: "map (expr_width proot rel' ws') ?ns = map (expr_width proot rel ws) ?ns" by simp
  have "entry ws' (a - min_attr rel) = entry ws (a - min_attr rel)"
    if "has_wholerow rel ?ns" "a \<in> set (wholerow_columns (widths proot) ?oid rel)" for a
  proof -
    have "a \<noteq> 0" using that(2) live_columns_ge [of a "rd_att (widths proot) ?oid" 1] by (auto simp: wholerow_columns_def split: if_splits)
    then show ?thesis using that s kept [of a] u by (cases "?oid = InvalidOid"; cases "referenced rel a") (auto simp: settled_def others_same_def)
  qed
  then have c: "(\<Sum>a \<leftarrow> wholerow_columns (widths proot) ?oid rel. entry ws' (a - min_attr rel)) =
      (\<Sum>a \<leftarrow> wholerow_columns (widths proot) ?oid rel. entry ws (a - min_attr rel))" if "has_wholerow rel ?ns"
    using that by (intro arg_cong [where f = sum_list]) simp
  have w: "has_wholerow rel' ?ns = has_wholerow rel ?ns" "wholerow_columns wc oid rel' = wholerow_columns wc oid rel" for wc oid
    by (simp_all add: has_wholerow_def wholerow_columns_def same)
  show ?thesis unfolding described_width_def same w e using c by (simp split: if_split)
qed

subsection \<open>Examples\<close>

definition example_widths :: width_catalog where
  "example_widths = \<lparr> pg_typlen = (\<lambda>t. if t = 20 then Some 8 else Some (- 1)), stawidth = (\<lambda>_ a. if a = 2 then Some 12 else None),
     get_attavgwidth_hook = None, pg_encoding_max_length = 4,
     rd_att = (\<lambda>_. [\<lparr> attisdropped = False, atttypid = 20, atttypmod = - 1 \<rparr>, \<lparr> attisdropped = False, atttypid = 25, atttypmod = - 1 \<rparr>]),
     exprTypmod = (\<lambda>_. - 1) \<rparr>"

definition example_query :: PlannerQuery where
  "example_query = PlannerInfo.extend example_root
     \<lparr> simple_rel_array = [None, Some example_rel], placeholder_list = [\<lparr> ph_phid = 3, ph_eval_at = None, ph_width = 40 \<rparr>],
       fkey_list = [], widths = example_widths \<rparr>"

text \<open>A column, the whole row and a placeholder for a constant.\<close>

definition example_wide_rel :: RelOptBase where
  "example_wide_rel = example_rel\<lparr> reltarget := example_target\<lparr> target_exprs :=
     [Var 1 1 20 (- 1), Var 1 0 2249 (- 1), PlaceHolderVar 3 (Const False 0)] \<rparr> \<rparr>"

lemma example_query_simps [simp]:
  "widths example_query = example_widths" "catalogs example_query = example_catalog"
  "planner_rt_fetch example_query = planner_rt_fetch example_root"
  "placeholder_list example_query = [\<lparr> ph_phid = 3, ph_eval_at = None, ph_width = 40 \<rparr>]"
  "simple_rel_array example_query = [None, Some example_rel]" "fkey_list example_query = []"
  by (simp_all add: example_query_def PlannerInfo.extend_def example_root_def)

lemma example_widths_ok: "widths_ok example_query example_wide_rel"
  by (simp add: widths_ok_def example_wide_rel_def example_rel_def example_target_def example_widths_def own_var_def)

lemma example_evaluable: "evaluable g example_query example_wide_rel"
  by (simp add: evaluable_def example_wide_rel_def example_rel_def example_target_def own_var_def evaluated_def
      find_placeholder_info_def cost_qual_eval_node_def cost_qual_eval_walker.simps)

subsection \<open>Correctness\<close>


lemma example_width:
  "\<exists>c rel'. set_rel_width default_gucs example_query example_wide_rel unset_cache = Inr (c, rel') \<and> target_width (reltarget rel') = 92"
  by (simp add: set_rel_width_def example_wide_rel_def example_rel_def example_target_def example_widths_def example_root_def
      pbind_def plift_def preturn_def rel_width_expr_def rel_width_var_def width_at_def set_width_def add_expr_def
      get_attavgwidth_def get_typavgwidth_def get_typlen_def find_placeholder_info_def cost_qual_eval_node_def
      cost_qual_eval_walker.simps add_wholerow_def get_relation_data_width_def MAXALIGN_def Let_def)


end
