(* ===== verification/Cost_Index.thy ===== *)
theory Cost_Index
  imports Cost_Scan
begin

text \<open>
  Index and bitmap scans: \<^verbatim>\<open>cost_index\<close>, the Mackert-Lohman estimate \<^verbatim>\<open>index_pages_fetched\<close>, and the
  bitmap routines of \<^verbatim>\<open>costsize.c\<close>, with \<^verbatim>\<open>compute_parallel_worker\<close> of \<^verbatim>\<open>allpaths.c\<close> and
  \<^verbatim>\<open>is_redundant_derived_clause\<close> of \<^verbatim>\<open>equivclass.c\<close>. The cost estimator of the index access method is
  called through a function pointer and is an argument of \<open>cost_index\<close>.
\<close>

subsection \<open>Data\<close>

record IndexOptInfo =
  index_rel :: RelOptBase
  index_pages :: BlockNumber
  indrestrictinfo :: "Node list"

record IndexPath = Path +
  indexinfo :: IndexOptInfo
  indexquals :: "Node list"
  indextotalcost :: Cost
  indexselectivity :: Selectivity

text \<open>The results of \<^verbatim>\<open>amcostestimate\<close>.\<close>

record am_estimate =
  am_startup_cost :: Cost
  am_total_cost :: Cost
  am_selectivity :: Selectivity
  am_correlation :: double
  am_pages :: double

text \<open>The paths that may stand below a bitmap heap scan.\<close>

datatype bitmap_tree =
    BitmapIndexPath IndexPath
  | BitmapAndPath Path "bitmap_tree list" Selectivity
  | BitmapOrPath Path "bitmap_tree list" Selectivity
  | OtherPath Path

subsection \<open>Clauses left to check\<close>

text \<open>A clause is identified by its address; \<open>parent_ec\<close> gives the equivalence class it was derived
  from.\<close>

definition is_redundant_derived_clause :: "(nat \<Rightarrow> nat option) \<Rightarrow> Node \<Rightarrow> Node list \<Rightarrow> bool" where
  "is_redundant_derived_clause parent_ec rinfo clauselist =
     (case parent_ec (rinfo_address rinfo) of
        None \<Rightarrow> False
      | Some ec \<Rightarrow> list_ex (\<lambda>otherrinfo. parent_ec (rinfo_address otherrinfo) = Some ec) clauselist)"

definition list_member_ptr :: "Node list \<Rightarrow> Node \<Rightarrow> bool" where
  "list_member_ptr l rinfo = list_ex (\<lambda>r. rinfo_address r = rinfo_address rinfo) l"

fun extract_nonindex_conditions :: "(nat \<Rightarrow> nat option) \<Rightarrow> Node list \<Rightarrow> Node list \<Rightarrow> Node list" where
  "extract_nonindex_conditions parent_ec [] indquals = []"
| "extract_nonindex_conditions parent_ec (rinfo # qual_clauses) indquals =
     (if pseudoconstant rinfo \<or> list_member_ptr indquals rinfo \<or>
         is_redundant_derived_clause parent_ec rinfo indquals
      then extract_nonindex_conditions parent_ec qual_clauses indquals
      else rinfo # extract_nonindex_conditions parent_ec qual_clauses indquals)"

subsection \<open>Pages fetched through an index\<close>

definition table_pages :: "BlockNumber \<Rightarrow> double" where
  "table_pages n = (if n > 1 then npages n else fl 1)"

definition cache_share :: "gucs \<Rightarrow> PlannerInfo \<Rightarrow> double \<Rightarrow> double \<Rightarrow> double" where
  "cache_share g proot T ind_pages =
     (let total_pages = Max_d (total_table_pages proot + ind_pages) (fl 1);
          b = dbl (effective_cache_size g) * T / total_pages
      in if b \<le> fl 1 then fl 1 else ceil_d b)"

definition index_pages_fetched :: "gucs \<Rightarrow> PlannerInfo \<Rightarrow> double \<Rightarrow> BlockNumber \<Rightarrow> double \<Rightarrow> double" where
  "index_pages_fetched g proot tuples_fetched n ind_pages =
     (let T = table_pages n;
          b = cache_share g proot T ind_pages
      in if T \<le> b then
           (let pages_fetched = (fl 2 * T * tuples_fetched) / (fl 2 * T + tuples_fetched)
            in if pages_fetched \<ge> T then T else ceil_d pages_fetched)
         else
           (let lim = (fl 2 * T * b) / (fl 2 * T - b)
            in ceil_d
                 (if tuples_fetched \<le> lim then (fl 2 * T * tuples_fetched) / (fl 2 * T + tuples_fetched)
                  else b + (tuples_fetched - lim) * (T - b) / T)))"

subsection \<open>Workers for a parallel scan\<close>

abbreviation INT_MAX :: int where "INT_MAX \<equiv> 2147483647"

text \<open>The loop starts from a threshold of at least one; a threshold below one, where it would not
  progress, stops it at once.\<close>

function worker_loop :: "double \<Rightarrow> int \<Rightarrow> int \<Rightarrow> int" where
  "worker_loop npgs threshold workers =
     (if 1 \<le> threshold \<and> npgs \<ge> dbl (threshold * 3) then
        (if threshold * 3 > INT_MAX div 3 then workers + 1
         else worker_loop npgs (threshold * 3) (workers + 1))
      else workers)"
  by pat_completeness auto
termination
  by (relation "measure (\<lambda>(_, t, _). nat (INT_MAX - t))") auto

declare worker_loop.simps [simp del]

definition compute_parallel_worker :: "gucs \<Rightarrow> RelOptBase \<Rightarrow> double \<Rightarrow> double \<Rightarrow> int" where
  "compute_parallel_worker g rel heap_pgs ind_pgs =
     (if rel_parallel_workers rel \<noteq> - 1 then
        min (rel_parallel_workers rel) (max_parallel_workers_per_gather g)
      else if reloptkind rel = RELOPT_BASEREL \<and>
              ((heap_pgs \<ge> 0 \<and> heap_pgs < dbl (min_parallel_table_scan_size g)) \<or>
               (ind_pgs \<ge> 0 \<and> ind_pgs < dbl (min_parallel_index_scan_size g)))
      then 0
      else
        let workers0 = (if heap_pgs \<ge> 0 then worker_loop heap_pgs (max (min_parallel_table_scan_size g) 1) 1 else 0);
            index_workers = worker_loop ind_pgs (max (min_parallel_index_scan_size g) 1) 1;
            workers1 =
              (if ind_pgs \<ge> 0 then (if workers0 > 0 then min workers0 index_workers else index_workers)
               else workers0)
        in min workers1 (max_parallel_workers_per_gather g))"

subsection \<open>Index scans\<close>

definition heap_fetches :: "bool \<Rightarrow> RelOptBase \<Rightarrow> double \<Rightarrow> double" where
  "heap_fetches indexonly baserel pages_fetched =
     (if indexonly then ceil_d (pages_fetched * (fl 1 - allvisfrac baserel)) else pages_fetched)"

text \<open>The pages fetched in the uncorrelated case, those in the correlated case, and the I/O cost of
  either.\<close>

definition index_io_cost ::
    "gucs \<Rightarrow> PlannerInfo \<Rightarrow> IndexOptInfo \<Rightarrow> bool \<Rightarrow> double \<Rightarrow> double \<Rightarrow> Selectivity \<Rightarrow> double \<times> double \<times> Cost \<times> Cost" where
  "index_io_cost g proot index indexonly loop_count tuples_fetched indexSelectivity =
     (let baserel = index_rel index;
          (spc_random_page_cost, spc_seq_page_cost) = get_tablespace_page_costs g proot (reltablespace baserel)
      in if loop_count > fl 1 then
           let rand_heap_pages = heap_fetches indexonly baserel
                 (index_pages_fetched g proot (tuples_fetched * loop_count) (pages baserel) (npages (index_pages index)));
               max_IO_cost = (rand_heap_pages * spc_random_page_cost) / loop_count;
               pages_fetched = heap_fetches indexonly baserel
                 (index_pages_fetched g proot (ceil_d (indexSelectivity * npages (pages baserel)) * loop_count)
                    (pages baserel) (npages (index_pages index)));
               min_IO_cost = (pages_fetched * spc_random_page_cost) / loop_count
           in (rand_heap_pages, pages_fetched, max_IO_cost, min_IO_cost)
         else
           let rand_heap_pages = heap_fetches indexonly baserel
                 (index_pages_fetched g proot tuples_fetched (pages baserel) (npages (index_pages index)));
               max_IO_cost = rand_heap_pages * spc_random_page_cost;
               pages_fetched = heap_fetches indexonly baserel (ceil_d (indexSelectivity * npages (pages baserel)));
               min_IO_cost =
                 (if pages_fetched > 0 then
                    (if pages_fetched > fl 1 then spc_random_page_cost + (pages_fetched - fl 1) * spc_seq_page_cost
                     else spc_random_page_cost)
                  else 0)
           in (rand_heap_pages, pages_fetched, max_IO_cost, min_IO_cost))"

definition index_qpquals :: "(nat \<Rightarrow> nat option) \<Rightarrow> IndexPath \<Rightarrow> Node list" where
  "index_qpquals parent_ec path =
     (case param_info path of
        Some ppi \<Rightarrow>
          extract_nonindex_conditions parent_ec (indrestrictinfo (indexinfo path)) (indexquals path) @
          extract_nonindex_conditions parent_ec (ppi_clauses ppi) (indexquals path)
      | None \<Rightarrow> extract_nonindex_conditions parent_ec (indrestrictinfo (indexinfo path)) (indexquals path))"

text \<open>The CPU costs and the stores at the end of the routine.\<close>

definition finish_index :: "gucs \<Rightarrow> IndexPath \<Rightarrow> Cost \<Rightarrow> Cost \<Rightarrow> double \<Rightarrow> double \<Rightarrow> QualCost \<Rightarrow> IndexPath" where
  "finish_index g path startup0 run0 tuples_fetched pages_fetched qpqual_cost =
     (let startup1 = startup0 + startup qpqual_cost + startup (tlist_cost path);
          cpu_per_tuple = cpu_tuple_cost g + per_tuple qpqual_cost;
          cpu_run0 = 0 + cpu_per_tuple * tuples_fetched + per_tuple (tlist_cost path) * rows path;
          io = pages_fetched;
          parallel_divisor = get_parallel_divisor path;
          (rows1, cpu_run1) =
            (if parallel_workers path > 0
             then (clamp_row_est (rows path / parallel_divisor), cpu_run0 / parallel_divisor)
             else (rows path, cpu_run0));
          run1 = run0 + cpu_run1
      in set_power io cpu_run1 run1 (parallel_workers path) (set_costs rows1 startup1 (startup1 + run1) path))"

definition cost_index ::
    "gucs \<Rightarrow> PlannerInfo \<Rightarrow> (nat \<Rightarrow> nat option) \<Rightarrow> (IndexPath \<Rightarrow> double \<Rightarrow> am_estimate) \<Rightarrow> IndexPath \<Rightarrow> double \<Rightarrow> bool \<Rightarrow>
     IndexPath planner" where
  "cost_index g proot parent_ec amcostestimate path0 loop_count partial_path =
     (let index = indexinfo path0;
          baserel = index_rel index;
          indexonly = (pathtype path0 = T_IndexOnlyScan);
          qpquals = index_qpquals parent_ec path0;
          path1 = path0\<lparr> rows := path_rows baserel (param_info path0) \<rparr>;
          startup0 = disabled g (enable_indexscan g) 0;
          am = amcostestimate path1 loop_count;
          path2 = path1\<lparr> indextotalcost := am_total_cost am, indexselectivity := am_selectivity am \<rparr>;
          startup1 = startup0 + am_startup_cost am;
          run0 = 0 + (am_total_cost am - am_startup_cost am);
          tuples_fetched = clamp_row_est (am_selectivity am * tuples baserel);
          (rand_heap_pages, pages_fetched, max_IO_cost, min_IO_cost) =
            index_io_cost g proot index indexonly loop_count tuples_fetched (am_selectivity am);
          path3 =
            (if partial_path then path2\<lparr> parallel_workers := compute_parallel_worker g baserel
               (if indexonly then fl (- 1) else rand_heap_pages) (am_pages am) \<rparr>
             else path2)
      in if partial_path \<and> parallel_workers path3 \<le> 0 then preturn path3
         else
           let path4 = (if partial_path then path3\<lparr> parallel_aware := True \<rparr> else path3);
               csquared = am_correlation am * am_correlation am;
               run1 = run0 + (max_IO_cost + csquared * (min_IO_cost - max_IO_cost))
           in pbind (cost_qual_eval g (catalogs proot) qpquals) (\<lambda>qpqual_cost.
              preturn (finish_index g path4 startup1 run1 tuples_fetched pages_fetched qpqual_cost)))"

subsection \<open>Bitmap scans\<close>

fun get_indexpath_pages :: "bitmap_tree \<Rightarrow> double ereport"
  and sum_indexpath_pages :: "bitmap_tree list \<Rightarrow> double \<Rightarrow> double ereport"
where
  "get_indexpath_pages (BitmapAndPath _ bitmapquals _) = sum_indexpath_pages bitmapquals 0"
| "get_indexpath_pages (BitmapOrPath _ bitmapquals _) = sum_indexpath_pages bitmapquals 0"
| "get_indexpath_pages (BitmapIndexPath ipath) = Inr (npages (index_pages (indexinfo ipath)))"
| "get_indexpath_pages (OtherPath _) = Inl ''unrecognized node type''"
| "sum_indexpath_pages [] result = Inr result"
| "sum_indexpath_pages (q # qs) result =
     ebind (get_indexpath_pages q) (\<lambda>n. sum_indexpath_pages qs (result + n))"

fun cost_bitmap_tree_node :: "gucs \<Rightarrow> bitmap_tree \<Rightarrow> (Cost \<times> Selectivity) ereport" where
  "cost_bitmap_tree_node g (BitmapIndexPath ipath) =
     Inr (indextotalcost ipath + fl 0.1 * cpu_operator_cost g * rows ipath, indexselectivity ipath)"
| "cost_bitmap_tree_node g (BitmapAndPath path _ selec) = Inr (total_cost path, selec)"
| "cost_bitmap_tree_node g (BitmapOrPath path _ selec) = Inr (total_cost path, selec)"
| "cost_bitmap_tree_node g (OtherPath _) = Inl ''unrecognized node type''"

text \<open>The loops of \<^verbatim>\<open>cost_bitmap_and_node\<close> and \<^verbatim>\<open>cost_bitmap_or_node\<close>; \<open>first\<close> holds at the head of the list.\<close>

fun bitmap_and_loop :: "gucs \<Rightarrow> bitmap_tree list \<Rightarrow> bool \<Rightarrow> Cost \<Rightarrow> Selectivity \<Rightarrow> (Cost \<times> Selectivity) ereport" where
  "bitmap_and_loop g [] first totalCost selec = Inr (totalCost, selec)"
| "bitmap_and_loop g (subpath # l) first totalCost selec =
     ebind (cost_bitmap_tree_node g subpath) (\<lambda>(subCost, subselec).
       bitmap_and_loop g l False
         (if first then totalCost + subCost else totalCost + subCost + fl 100 * cpu_operator_cost g)
         (selec * subselec))"

fun is_index_path :: "bitmap_tree \<Rightarrow> bool" where
  "is_index_path (BitmapIndexPath _) = True"
| "is_index_path _ = False"

fun bitmap_or_loop :: "gucs \<Rightarrow> bitmap_tree list \<Rightarrow> bool \<Rightarrow> Cost \<Rightarrow> Selectivity \<Rightarrow> (Cost \<times> Selectivity) ereport" where
  "bitmap_or_loop g [] first totalCost selec = Inr (totalCost, selec)"
| "bitmap_or_loop g (subpath # l) first totalCost selec =
     ebind (cost_bitmap_tree_node g subpath) (\<lambda>(subCost, subselec).
       bitmap_or_loop g l False
         (if \<not> first \<and> \<not> is_index_path subpath then totalCost + subCost + fl 100 * cpu_operator_cost g
          else totalCost + subCost)
         (selec + subselec))"

definition cost_bitmap_and_node :: "gucs \<Rightarrow> Path \<Rightarrow> bitmap_tree list \<Rightarrow> bitmap_tree ereport" where
  "cost_bitmap_and_node g path bitmapquals =
     ebind (bitmap_and_loop g bitmapquals True 0 (fl 1)) (\<lambda>(totalCost, selec).
       Inr (BitmapAndPath (set_costs 0 totalCost totalCost path) bitmapquals selec))"

definition cost_bitmap_or_node :: "gucs \<Rightarrow> Path \<Rightarrow> bitmap_tree list \<Rightarrow> bitmap_tree ereport" where
  "cost_bitmap_or_node g path bitmapquals =
     ebind (bitmap_or_loop g bitmapquals True 0 0) (\<lambda>(totalCost, selec).
       Inr (BitmapOrPath (set_costs 0 totalCost totalCost path) bitmapquals (Min_d selec (fl 1))))"

text \<open>
  \<^verbatim>\<open>compute_bitmap_pages\<close> takes the loop count as an \<^verbatim>\<open>int\<close>: the conversion truncates, and outside the
  range of \<^verbatim>\<open>int\<close> gives the least one, as the conversion instruction of x86-64 does.
\<close>

fun int_of_double :: "double \<Rightarrow> int" where
  "int_of_double (Fin a) =
     (let i = (if val a < 0 then \<lceil>val a\<rceil> else \<lfloor>val a\<rfloor>)
      in if - 2147483648 \<le> i \<and> i \<le> INT_MAX then i else - 2147483648)"
| "int_of_double _ = - 2147483648"

definition compute_bitmap_pages ::
    "gucs \<Rightarrow> PlannerInfo \<Rightarrow> RelOptBase \<Rightarrow> bitmap_tree \<Rightarrow> int \<Rightarrow> (double \<times> Cost \<times> double) ereport" where
  "compute_bitmap_pages g proot baserel bitmapqual loop_count =
     ebind (cost_bitmap_tree_node g bitmapqual) (\<lambda>(indexTotalCost, indexSelectivity).
     let tuples_fetched = clamp_row_est (indexSelectivity * tuples baserel);
         T = table_pages (pages baserel)
     in ebind
       (if loop_count > 1 then
          ebind (get_indexpath_pages bitmapqual) (\<lambda>ind_pages.
            Inr (index_pages_fetched g proot (tuples_fetched * dbl loop_count) (pages baserel) ind_pages / dbl loop_count))
        else Inr ((fl 2 * T * tuples_fetched) / (fl 2 * T + tuples_fetched)))
       (\<lambda>pages_fetched.
          Inr (if pages_fetched \<ge> T then T else ceil_d pages_fetched, indexTotalCost, tuples_fetched)))"

definition cost_bitmap_heap_scan ::
    "gucs \<Rightarrow> PlannerInfo \<Rightarrow> Path \<Rightarrow> RelOptBase \<Rightarrow> ParamPathInfo option \<Rightarrow> bitmap_tree \<Rightarrow> double \<Rightarrow> Path planner" where
  "cost_bitmap_heap_scan g proot path baserel param_inf bitmapqual loop_count =
     (let rows0 = path_rows baserel param_inf;
          startup0 = disabled g (enable_bitmapscan g) 0
      in pbind (plift (compute_bitmap_pages g proot baserel bitmapqual (int_of_double loop_count)))
        (\<lambda>(pages_fetched, indexTotalCost, tuples_fetched).
         let startup1 = startup0 + indexTotalCost;
             T = table_pages (pages baserel);
             (spc_random_page_cost, spc_seq_page_cost) = get_tablespace_page_costs g proot (reltablespace baserel);
             cost_per_page =
               (if pages_fetched \<ge> fl 2
                then spc_random_page_cost - (spc_random_page_cost - spc_seq_page_cost) * sqrt_d (pages_fetched / T)
                else spc_random_page_cost);
             run0 = 0 + pages_fetched * cost_per_page;
             io = pages_fetched
         in pbind (get_restriction_qual_cost g proot baserel param_inf) (\<lambda>qpqual_cost.
            let startup2 = startup1 + startup qpqual_cost;
                cpu_per_tuple = cpu_tuple_cost g + per_tuple qpqual_cost;
                cpu_run0 = cpu_per_tuple * tuples_fetched;
                parallel_divisor = get_parallel_divisor path;
                (cpu_run1, rows1) =
                  (if parallel_workers path > 0
                   then (cpu_run0 / parallel_divisor, clamp_row_est (rows0 / parallel_divisor))
                   else (cpu_run0, rows0));
                run1 = run0 + cpu_run1;
                startup3 = startup2 + startup (tlist_cost path);
                run2 = run1 + per_tuple (tlist_cost path) * rows1
            in preturn (set_power io cpu_run1 run2 (parallel_workers path)
                 (set_costs rows1 startup3 (startup3 + run2) path)))))"

subsection \<open>Estimates that never compare below zero\<close>

lemma nonneg_table_pages [nonneg_intros]: "nonneg (table_pages n)"
  by (simp add: table_pages_def nonneg_dbl nonneg_fl)

lemma nonneg_cache_share [nonneg_intros]: "nonneg (cache_share g proot T ind)"
  unfolding cache_share_def Let_def by (auto intro: nonneg_ceil nonneg_above_1 nonneg_fl)

lemma nonneg_index_pages_fetched [nonneg_intros]: "nonneg n \<Longrightarrow> nonneg (index_pages_fetched g proot n pgs ind)"
  unfolding index_pages_fetched_def Let_def
  by (auto intro!: nonneg_intros dest: not_le_not_less)

lemma nonneg_heap_fetches [nonneg_intros]:
  "nonneg n \<Longrightarrow> \<not> fl 1 < allvisfrac rel \<Longrightarrow> nonneg (heap_fetches only rel n)"
  by (simp add: heap_fetches_def nonneg_intros)

subsection \<open>The Mackert-Lohman estimate\<close>

lemma table_pages_int: "\<exists>m. table_pages n = fl (of_int m) \<and> 1 \<le> m \<and> m \<le> 2 ^ 32 \<and> m = max 1 (uint n)"
proof (cases "n > 1")
  case True
  then have "1 < uint n" by (simp add: word_less_def)
  moreover have "uint n < 2 ^ 32" using uint_bounded [of n] by simp
  ultimately show ?thesis using True by (auto simp: table_pages_def dbl_def)
next
  case False
  then have "uint n \<le> 1" by (simp add: word_less_def)
  then show ?thesis using False by (auto simp: table_pages_def)
qed

lemma fetch_formula:
  assumes m: "1 \<le> m" "m \<le> 2 ^ 32" and n: "between 1 (2 ^ 52) n"
  shows "between (1 / 2 ^ 52) (2 ^ 85) ((fl 2 * fl (of_int m) * n) / (fl 2 * fl (of_int m) + n))"
proof -
  have mr: "1 \<le> real_of_int m" "real_of_int m \<le> 2 ^ 32" using m by (simp_all flip: of_int_le_iff)
  have T: "between 1 (2 ^ 32) (fl (of_int m))"
    using mr by (intro between_fl exact_pow2 exact_one) simp_all
  have two: "between 2 2 (fl 2)" by (intro between_fl exact_numeral) simp_all
  have TT: "between 2 (2 ^ 33) (fl 2 * fl (of_int m))"
    by (rule between_mult [OF two T]) (rule exact_pow2 exact_numeral | simp)+
  have num: "between 2 (2 ^ 85) (fl 2 * fl (of_int m) * n)"
    by (rule between_mult [OF TT n]) (rule exact_pow2 exact_numeral | simp)+
  have den: "between 1 (2 ^ 53) (fl 2 * fl (of_int m) + n)"
    by (rule between_add [OF TT n]) (rule exact_pow2 exact_one | simp)+
  show ?thesis
    by (rule between_divide [OF num den]) (rule exact_pow2 exact_inverse_pow2 | simp)+
qed

lemma cache_share_int:
  assumes "\<not> fl (of_int m) \<le> cache_share g proot T ind" "1 \<le> m" "m \<le> 2 ^ 32" "cache_share g proot T ind \<noteq> NaN"
  shows "\<exists>b. cache_share g proot T ind = fl (of_int b) \<and> 1 \<le> b \<and> b \<le> m"
proof -
  let ?q = "dbl (effective_cache_size g) * T / Max_d (total_table_pages proot + ind) (fl 1)"
  obtain t where t: "fl (of_int m) = Fin t" "val t = of_int m"
    using fl_eq_Fin [OF exact_of_int, of m] assms(2,3) by auto
  show ?thesis
  proof (cases "?q \<le> fl 1")
    case True
    then show ?thesis using assms by (intro exI [of _ 1]) (simp add: cache_share_def Let_def)
  next
    case False
    then have share: "cache_share g proot T ind = ceil_d ?q" by (simp add: cache_share_def Let_def)
    have "nonneg ?q" using nonneg_above_1 [OF False] .
    then obtain a where a: "?q = Fin a" using assms(1,4) unfolding share t by (cases ?q) (auto simp: less_eq_double_def)
    obtain e where e: "fl 1 = Fin e" "val e = 1" using fl_eq_Fin [OF exact_one] by blast
    obtain c where c: "ceil_d (Fin a) = Fin c" "val c = of_int \<lceil>val a\<rceil>" using ceil_Fin by blast
    have "1 < val a" using False a e by (simp add: less_eq_double_def)
    moreover have "\<not> of_int m \<le> val c" using assms(1) unfolding share a c(1) t by (simp add: less_eq_double_def t(2))
    then have "(of_int \<lceil>val a\<rceil> :: real) < of_int m" using c(2) by linarith
    then have "\<lceil>val a\<rceil> < m" by (simp only: of_int_less_iff)
    ultimately show ?thesis using c a share
      by (intro exI [of _ "\<lceil>val a\<rceil>"]) (auto simp: le_ceiling_iff)
  qed
qed

lemma refetch_formula:
  assumes m: "1 \<le> m" "m \<le> 2 ^ 32" and b: "1 \<le> b" "b \<le> m" and n: "between 1 (2 ^ 52) n"
    and T: "T = fl (of_int m)" and B: "B = fl (of_int b)"
    and l: "\<not> n \<le> (fl 2 * T * B) / (fl 2 * T - B)"
  shows "between 1 (2 ^ 86) (B + (n - (fl 2 * T * B) / (fl 2 * T - B)) * (T - B) / T)"
proof -
  let ?lim = "(fl 2 * T * B) / (fl 2 * T - B)"
  have r: "1 \<le> real_of_int m" "real_of_int m \<le> 2 ^ 32" "1 \<le> real_of_int b" "real_of_int b \<le> of_int m" "real_of_int b \<le> 2 ^ 32"
    using m b by (simp_all flip: of_int_le_iff)
  have bT: "between (of_int m) (of_int m) T" and bB: "between (of_int b) (of_int b) B"
    unfolding T B using m b by (intro between_int; simp)+
  have wT: "between 1 (2 ^ 32) T" and wB: "between 1 (2 ^ 32) B"
    by (rule between_weaken [OF bT] between_weaken [OF bB]; use r in simp)+
  have two: "between 2 2 (fl 2)" by (intro between_fl exact_numeral) simp_all
  have TT: "between (of_int (2 * m)) (of_int (2 * m)) (fl 2 * T)"
    by (rule between_mult [OF two bT]) (rule exact_of_int | use m in simp)+
  have num: "between 0 (2 ^ 65) (fl 2 * T * B)"
    by (rule between_mult [OF TT wB]) (rule exact_pow2 exact_zero | use r in simp)+
  have den: "between 1 (2 ^ 33) (fl 2 * T - B)"
    by (rule between_minus [OF TT bB]) (rule exact_pow2 exact_one | use r in simp)+
  have lim: "between 0 (2 ^ 65) ?lim"
    by (rule between_divide [OF num den]) (rule exact_pow2 exact_zero | simp)+
  have "\<not> n < ?lim" using l dless_imp_le by blast
  then have diff: "between 0 (2 ^ 52) (n - ?lim)" using between_diff_nonneg [OF _ n lim exact_pow2] by simp
  have TB: "between 0 (2 ^ 32) (T - B)"
    by (rule between_minus [OF bT bB]) (rule exact_pow2 exact_zero | use r in simp)+
  have "between 0 (2 ^ 84) ((n - ?lim) * (T - B))"
    by (rule between_mult [OF diff TB]) (rule exact_pow2 exact_zero | simp)+
  then have "between 0 (2 ^ 84) ((n - ?lim) * (T - B) / T)"
    by (rule between_divide [OF _ wT]) (rule exact_pow2 exact_zero | simp)+
  then show ?thesis by (rule between_add [OF wB]) (rule exact_pow2 exact_one | simp)+
qed

text \<open>The share of the cache is a number unless the settings are not.\<close>

lemma cache_share_not_nan:
  assumes "0 \<le> effective_cache_size g" "effective_cache_size g \<le> 2 ^ 31" "1 \<le> m" "m \<le> 2 ^ 32"
  shows "cache_share g proot (fl (of_int m)) ind \<noteq> NaN"
proof -
  let ?t = "Max_d (total_table_pages proot + ind) (fl 1)"
  let ?n = "dbl (effective_cache_size g) * fl (of_int m)"
  have r: "0 \<le> real_of_int (effective_cache_size g)" "real_of_int (effective_cache_size g) \<le> 2 ^ 31"
    "1 \<le> real_of_int m" "real_of_int m \<le> 2 ^ 32" using assms by (simp_all flip: of_int_le_iff)
  have "between 0 (2 ^ 31) (dbl (effective_cache_size g))" "between 1 (2 ^ 32) (fl (of_int m))"
    unfolding dbl_def by (rule between_fl; (rule exact_pow2 exact_zero exact_one | use r in simp)+)+
  then have "between 0 (2 ^ 63) ?n" by (rule between_mult) (rule exact_pow2 exact_zero | simp)+
  then obtain a where a: "?n = Fin a" by (auto simp: between_def)
  have t: "?t = PInf \<or> (\<exists>b. ?t = Fin b \<and> 1 \<le> val b)"
    using fl_eq_Fin [OF exact_one] unfolding Max_d_def
    by (cases "total_table_pages proot + ind") (auto simp: less_double_def)
  then have "?n / ?t \<noteq> NaN" unfolding a by (auto simp: divide_double_def)
  then have "ceil_d (?n / ?t) \<noteq> NaN" by (cases "?n / ?t") auto
  then show ?thesis by (simp add: cache_share_def Let_def)
qed

lemma index_pages_fetched_cases:
  assumes T: "table_pages pgs = fl (of_int m)" and m: "1 \<le> m" "m \<le> 2 ^ 32" and n: "between 1 (2 ^ 52) n"
    and c: "0 \<le> effective_cache_size g" "effective_cache_size g \<le> 2 ^ 31"
  shows "\<exists>i. index_pages_fetched g proot n pgs ind = fl (of_int i) \<and>
    between (of_int i) (of_int i) (index_pages_fetched g proot n pgs ind) \<and> 1 \<le> i \<and>
    (table_pages pgs \<le> cache_share g proot (table_pages pgs) ind \<longrightarrow> i \<le> m)"
proof -
  let ?b = "cache_share g proot (fl (of_int m)) ind"
  let ?q = "(fl 2 * fl (of_int m) * n) / (fl 2 * fl (of_int m) + n)"
  have q: "between (1 / 2 ^ 52) (2 ^ 85) ?q" by (rule fetch_formula [OF m n])
  have q': "\<exists>i. ceil_d ?q = fl (of_int i) \<and> between (of_int i) (of_int i) (ceil_d ?q) \<and> 1 \<le> i"
    using ceil_positive [OF q, of "2 ^ 85"] by auto
  have bm: "between (of_int m) (of_int m) (fl (of_int m))" using m by (intro between_int) simp
  show ?thesis
  proof (cases "fl (of_int m) \<le> ?b")
    case True
    show ?thesis
    proof (cases "?q \<ge> fl (of_int m)")
      case ge: True
      then show ?thesis using True m bm by (intro exI [of _ m]) (simp add: index_pages_fetched_def T Let_def)
    next
      case False
      then have "between (1 / 2 ^ 52) (of_int m) ?q" using q bm by (auto simp: between_def less_eq_double_def)
      from ceil_positive [OF this] show ?thesis using True False by (auto simp: index_pages_fetched_def T Let_def)
    qed
  next
    case False
    obtain b where b: "?b = fl (of_int b)" "1 \<le> b" "b \<le> m"
      using cache_share_int [OF False m cache_share_not_nan [OF c m]] by blast
    show ?thesis
    proof (cases "n \<le> (fl 2 * fl (of_int m) * ?b) / (fl 2 * fl (of_int m) - ?b)")
      case True
      then show ?thesis using q' False by (auto simp: index_pages_fetched_def T Let_def)
    next
      case l: False
      from ceil_positive [OF refetch_formula [OF m b(2,3) n refl b(1) l], of "2 ^ 86"] False l
      show ?thesis by (auto simp: index_pages_fetched_def T Let_def)
    qed
  qed
qed

subsection \<open>Bitmap scans\<close>

text \<open>No more pages than the table has.\<close>

lemma clamp_to_table:
  assumes T: "T = fl (of_int m)" "1 \<le> m" "m \<le> 2 ^ 32" and q: "nonneg q"
  shows "(if q \<ge> T then T else ceil_d q) = NaN \<or> between 0 (of_int m) (if q \<ge> T then T else ceil_d q)"
proof (cases "q \<ge> T")
  case True
  have "between (of_int m) (of_int m) T" unfolding T using T(2,3) by (intro between_int) simp
  then show ?thesis using True T(2) by (auto intro: between_weaken)
next
  case False
  obtain t where t: "T = Fin t" "val t = of_int m" using fl_eq_Fin [OF exact_of_int, of m] T by auto
  show ?thesis
  proof (cases q)
    case (Fin a)
    then have "between 0 (of_int m) q" using False t q by (auto simp: between_def less_eq_double_def)
    from ceil_between [OF this refl] obtain i where "between (of_int i) (of_int i) (ceil_d q)" "0 \<le> real_of_int i" "i \<le> m" by blast
    then show ?thesis using False by (auto intro: between_weaken)
  qed (use False t q in \<open>auto simp: less_eq_double_def\<close>)
qed

lemma page_fraction:
  assumes "between 0 (of_int m) x" "1 \<le> m" "m \<le> 2 ^ 32"
  shows "between 0 1 (sqrt_d (x / fl (of_int m)))"
proof -
  have m: "between (of_int m) (of_int m) (fl (of_int m))" using assms by (intro between_int) simp
  have "between 0 1 (x / fl (of_int m))"
    by (rule between_divide [OF assms(1) m]) (rule exact_zero exact_one | use assms in simp)+
  then obtain a where a: "x / fl (of_int m) = Fin a" "0 \<le> val a" "val a \<le> 1" by (auto simp: between_def)
  then have "between 0 1 (fl (sqrt (val a)))" by (intro between_fl exact_zero exact_one) auto
  then show ?thesis using a by simp
qed

definition tree_ok :: "gucs \<Rightarrow> bitmap_tree \<Rightarrow> bool" where
  "tree_ok g q \<longleftrightarrow> (\<forall>c s. cost_bitmap_tree_node g q = Inr (c, s) \<longrightarrow> nonneg c \<and> nonneg s)"

lemma nonneg_indexpath_pages:
  "get_indexpath_pages q = Inr n \<Longrightarrow> nonneg n"
  "nonneg r \<Longrightarrow> sum_indexpath_pages qs r = Inr n \<Longrightarrow> nonneg n"
proof (induction q and qs r arbitrary: n and n rule: get_indexpath_pages_sum_indexpath_pages.induct)
  case (6 q qs r)
  then show ?case by (auto simp: ebind_Inr_iff intro: nonneg_add)
qed (auto simp: nonneg_dbl)

lemma compute_bitmap_pages_ok:
  assumes "tree_ok g q" "nonneg (tuples rel)" "compute_bitmap_pages g proot rel q n = Inr (p, c, t)"
  shows "nonneg c" "nonneg t" "p = NaN \<or> between 0 (of_int (max 1 (uint (pages rel)))) p"
proof -
  obtain s where s: "cost_bitmap_tree_node g q = Inr (c, s)" and t: "t = clamp_row_est (s * tuples rel)"
    using assms(3) by (auto simp: compute_bitmap_pages_def ebind_Inr_iff Let_def)
  then have cs: "nonneg c" "nonneg s" using assms(1) by (auto simp: tree_ok_def)
  then show "nonneg c" and nt: "nonneg t" using assms(2) unfolding t by (auto intro: nonneg_intros)
  obtain m where m: "table_pages (pages rel) = fl (of_int m)" "1 \<le> m" "m \<le> 2 ^ 32" "m = max 1 (uint (pages rel))"
    using table_pages_int by blast
  obtain x where p: "p = (if x \<ge> table_pages (pages rel) then table_pages (pages rel) else ceil_d x)" and "nonneg x"
  proof (cases "1 < n")
    case True
    then obtain y where "get_indexpath_pages q = Inr y"
      and "p = (let x = index_pages_fetched g proot (t * dbl n) (pages rel) y / dbl n
        in if x \<ge> table_pages (pages rel) then table_pages (pages rel) else ceil_d x)"
      using assms(3) s t by (auto simp: compute_bitmap_pages_def ebind_Inr_iff Let_def)
    moreover have "nonneg (index_pages_fetched g proot (t * dbl n) (pages rel) y / dbl n)"
      using nt True by (intro nonneg_intros) simp_all
    ultimately show ?thesis using that by (simp add: Let_def)
  next
    case False
    moreover have "nonneg ((fl 2 * table_pages (pages rel) * t) / (fl 2 * table_pages (pages rel) + t))"
      using nt by (intro nonneg_intros) simp_all
    ultimately show ?thesis using that assms(3) s t by (auto simp: compute_bitmap_pages_def ebind_Inr_iff Let_def)
  qed
  then show "p = NaN \<or> between 0 (of_int (max 1 (uint (pages rel)))) p"
    using clamp_to_table [OF m(1-3)] m(4) by metis
qed

lemma nonneg_cost_per_page:
  assumes p: "p = NaN \<or> between 0 (of_int (max 1 (uint n))) p" and "nonneg r" "nonneg s"
  shows "nonneg (if p \<ge> fl 2 then r - (r - s) * sqrt_d (p / table_pages n) else r)"
proof (cases "p \<ge> fl 2")
  case True
  obtain m where m: "table_pages n = fl (of_int m)" "1 \<le> m" "m \<le> 2 ^ 32" "m = max 1 (uint n)"
    using table_pages_int by blast
  have "between 0 (of_int m) p" using True p m(4) by auto
  from nonneg_interpolate(2) [OF assms(2,3) page_fraction [OF this m(2,3)]] show ?thesis using True m(1) by simp
qed (use assms in simp)

lemma cost_bitmap_heap_scan_sane:
  assumes ok: "scan_ok g proot mem rel par" and t: "target_ok p" and q: "tree_ok g q"
  shows "yields (cache_ok g (catalogs proot) mem) (cost_bitmap_heap_scan g proot p rel par q loops) sane_costs"
proof -
  note facts = scan_okD [OF ok] target_okD [OF t] nonneg_page_costs [OF scan_okD(1) [OF ok]]
  have "yields (cache_ok g (catalogs proot) mem) (plift (compute_bitmap_pages g proot rel q (int_of_double loops)))
     (\<lambda>(n, c, t). nonneg c \<and> nonneg t \<and> (n = NaN \<or> between 0 (of_int (max 1 (uint (pages rel)))) n))"
    using compute_bitmap_pages_ok [OF q facts(6), of proot "int_of_double loops"]
    by (intro yields_lift) (auto split: prod.split simp del: of_int_max)
  then show ?thesis unfolding cost_bitmap_heap_scan_def Let_def case_prod_beta
  proof (rule yields_bind, goal_cases)
    case (1 x)
    then have x: "nonneg (fst (snd x))" "nonneg (snd (snd x))"
      and n: "fst x = NaN \<or> between 0 (of_int (max 1 (uint (pages rel)))) (fst x)" by (auto split: prod.splits)
    have "nonneg (fst x)" using n between_le le_imp_nonneg by auto
    note more = x this nonneg_cost_per_page [OF n facts(10,11)]
    show ?case
      by (rule yields_bind [OF facts(7)])
        (cases "0 < parallel_workers p"; simp only: if_True if_False fst_conv snd_conv;
          intro yields_return sane_sum nonneg_intros facts more; assumption)
  qed
qed

text \<open>The cost and selectivity of a subtree, where it has them.\<close>

definition fraction_tree :: "gucs \<Rightarrow> bitmap_tree \<Rightarrow> bool" where
  "fraction_tree g q \<longleftrightarrow> (\<exists>c s. cost_bitmap_tree_node g q = Inr (c, s) \<and> 0 \<le> c \<and> between 0 1 s)"

lemma bitmap_and_loop_bounds:
  assumes o: "0 \<le> fl 100 * cpu_operator_cost g" and "\<forall>q \<in> set qs. fraction_tree g q" "0 \<le> acc" "between 0 1 sel"
  shows "\<exists>c s. bitmap_and_loop g qs first acc sel = Inr (c, s) \<and> acc \<le> c \<and> between 0 1 s \<and> s \<le> sel \<and>
    (\<forall>q \<in> set qs. \<exists>cq sq. cost_bitmap_tree_node g q = Inr (cq, sq) \<and> cq \<le> c \<and> s \<le> sq)"
  using assms(2-)
proof (induction qs arbitrary: first acc sel)
  case Nil
  then show ?case using dle_refl [of acc] dle_refl [of sel] dle_not_nan between_not_nan by auto
next
  case (Cons q qs)
  obtain cq sq where q: "cost_bitmap_tree_node g q = Inr (cq, sq)" "0 \<le> cq" "between 0 1 sq"
    using Cons.prems(1) by (auto simp: fraction_tree_def)
  let ?acc = "if first then acc + cq else acc + cq + fl 100 * cpu_operator_cost g"
  have sums: "acc \<le> acc + cq" "cq \<le> acc + cq" "0 \<le> acc + cq" using dadd_nonneg_le [OF Cons.prems(2) q(2)] by simp_all
  note charge = dadd_nonneg_le [OF sums(3) o]
  have acc: "0 \<le> ?acc" "acc \<le> ?acc" "cq \<le> ?acc"
    using sums charge dle_trans [OF sums(1) charge(1)] dle_trans [OF sums(2) charge(1)] by simp_all
  note sel = fraction_mult [OF Cons.prems(3) q(3)]
  obtain c s where cs: "bitmap_and_loop g qs False ?acc (sel * sq) = Inr (c, s)" "?acc \<le> c" "between 0 1 s" "s \<le> sel * sq"
    "\<forall>q \<in> set qs. \<exists>cq sq. cost_bitmap_tree_node g q = Inr (cq, sq) \<and> cq \<le> c \<and> s \<le> sq"
    using Cons.IH [of ?acc "sel * sq" False] Cons.prems(1) acc sel(1) by auto
  moreover have "acc \<le> c" "cq \<le> c" "s \<le> sel" "s \<le> sq"
    by (rule dle_trans [OF acc(2) cs(2)] dle_trans [OF acc(3) cs(2)] dle_trans [OF cs(4) sel(2)] dle_trans [OF cs(4) sel(3)])+
  ultimately show ?case using q by auto
qed

lemma bitmap_or_loop_bounds:
  assumes o: "0 \<le> fl 100 * cpu_operator_cost g" and "\<forall>q \<in> set qs. fraction_tree g q" "0 \<le> acc" "0 \<le> sel"
  shows "\<exists>c s. bitmap_or_loop g qs first acc sel = Inr (c, s) \<and> acc \<le> c \<and> 0 \<le> s \<and> sel \<le> s \<and>
    (\<forall>q \<in> set qs. \<exists>cq sq. cost_bitmap_tree_node g q = Inr (cq, sq) \<and> cq \<le> c \<and> sq \<le> s)"
  using assms(2-)
proof (induction qs arbitrary: first acc sel)
  case Nil
  then show ?case using dle_refl [of acc] dle_refl [of sel] dle_not_nan by auto
next
  case (Cons q qs)
  obtain cq sq where q: "cost_bitmap_tree_node g q = Inr (cq, sq)" "0 \<le> cq" "between 0 1 sq"
    using Cons.prems(1) by (auto simp: fraction_tree_def)
  let ?acc = "if \<not> first \<and> \<not> is_index_path q then acc + cq + fl 100 * cpu_operator_cost g else acc + cq"
  have sums: "acc \<le> acc + cq" "cq \<le> acc + cq" "0 \<le> acc + cq" using dadd_nonneg_le [OF Cons.prems(2) q(2)] by simp_all
  note charge = dadd_nonneg_le [OF sums(3) o]
  have acc: "0 \<le> ?acc" "acc \<le> ?acc" "cq \<le> ?acc"
    using sums charge dle_trans [OF sums(1) charge(1)] dle_trans [OF sums(2) charge(1)] by simp_all
  note sel = dadd_nonneg_le [OF Cons.prems(3) between_le [OF q(3)]]
  obtain c s where cs: "bitmap_or_loop g qs False ?acc (sel + sq) = Inr (c, s)" "?acc \<le> c" "0 \<le> s" "sel + sq \<le> s"
    "\<forall>q \<in> set qs. \<exists>cq sq. cost_bitmap_tree_node g q = Inr (cq, sq) \<and> cq \<le> c \<and> sq \<le> s"
    using Cons.IH [of ?acc "sel + sq" False] Cons.prems(1) acc sel(3) by auto
  moreover have "acc \<le> c" "cq \<le> c" "sel \<le> s" "sq \<le> s"
    by (rule dle_trans [OF acc(2) cs(2)] dle_trans [OF acc(3) cs(2)] dle_trans [OF sel(1) cs(4)] dle_trans [OF sel(2) cs(4)])+
  ultimately show ?case using q by auto
qed

subsection \<open>Workers\<close>

lemma worker_loop_spec:
  "1 \<le> t \<Longrightarrow> t \<le> INT_MAX div 3 \<Longrightarrow>
   \<exists>k. worker_loop p t w = w + int k \<and> (0 < k \<longrightarrow> dbl (t * 3 ^ k) \<le> p) \<and>
     (\<not> dbl (t * 3 ^ Suc k) \<le> p \<or> INT_MAX div 3 < t * 3 ^ k)"
proof (induction p t w rule: worker_loop.induct)
  case (1 p t w)
  show ?case
  proof (cases "dbl (t * 3) \<le> p")
    case False
    then show ?thesis using 1 by (intro exI [of _ 0]) (simp add: worker_loop.simps)
  next
    case True
    show ?thesis
    proof (cases "INT_MAX div 3 < t * 3")
      case limit: True
      then show ?thesis using True 1 by (intro exI [of _ 1]) (simp add: worker_loop.simps [of p t w])
    next
      case False
      then obtain k where k: "worker_loop p (t * 3) (w + 1) = w + 1 + int k"
        "0 < k \<longrightarrow> dbl (t * 3 * 3 ^ k) \<le> p" "\<not> dbl (t * 3 * 3 ^ Suc k) \<le> p \<or> INT_MAX div 3 < t * 3 * 3 ^ k"
        using 1 True by auto
      have "worker_loop p t w = w + int (Suc k)" using True False 1 k(1) by (simp add: worker_loop.simps [of p t w])
      moreover have "dbl (t * 3 ^ Suc k) \<le> p" using k(2) True by (cases k) (simp_all add: mult.assoc)
      ultimately show ?thesis using k(3) by (intro exI [of _ "Suc k"]) (simp add: mult.assoc)
    qed
  qed
qed

lemma worker_loop_ge: "w \<le> worker_loop p t w"
proof (induction p t w rule: worker_loop.induct)
  case (1 p t w)
  then show ?case by (subst worker_loop.simps) auto
qed

subsection \<open>Index scans\<close>

definition am_ok :: "am_estimate \<Rightarrow> bool" where
  "am_ok e \<longleftrightarrow> nonneg (am_startup_cost e) \<and> \<not> am_total_cost e < am_startup_cost e \<and> nonneg (am_selectivity e) \<and>
     between (- 1) 1 (am_correlation e)"

lemma index_io_cost_nonneg:
  assumes g: "gucs_ok g" and v: "\<not> fl 1 < allvisfrac (index_rel index)" and n: "nonneg loops" "nonneg n" "nonneg sel"
    and io: "index_io_cost g proot index only loops n sel = (rp, pf, mx, mn)"
  shows "nonneg pf" "nonneg mx" "nonneg mn"
proof -
  note facts = g v n nonneg_page_costs [OF g, of proot "reltablespace (index_rel index)"]
  have minus: "nonneg (x - fl 1)" if "x > fl 1" for x using that by (intro nonneg_minus) (rule dless_asym)
  show "nonneg pf" "nonneg mx" "nonneg mn" using io
    by (auto simp: index_io_cost_def Let_def case_prod_beta split: if_splits intro!: nonneg_intros facts minus)
qed

lemma extract_nonindex_subset: "set (extract_nonindex_conditions ec qs is) \<subseteq> set qs"
  by (induction qs) auto

lemma index_qpquals_ok:
  "clauses_ok mem (indrestrictinfo (indexinfo p)) \<Longrightarrow> param_ok mem (param_info p) \<Longrightarrow> clauses_ok mem (index_qpquals ec p)"
  using extract_nonindex_subset clauses_ok_subset
  by (auto simp: index_qpquals_def param_ok_def split: option.splits)

lemma finish_index_sane:
  assumes "gucs_ok g" "nonneg (rows p)" "qual_nonneg (tlist_cost p)" "nonneg s" "nonneg r" "nonneg n" "nonneg io" "qual_nonneg q"
  shows "sane_costs (finish_index g p s r n io q)"
  unfolding finish_index_def Let_def
  by (cases "0 < parallel_workers p"; simp only: if_True if_False prod.case;
      intro sane_sum nonneg_intros assms less_imp_le; assumption)

lemma yields_if: "(b \<Longrightarrow> yields I x P) \<Longrightarrow> (\<not> b \<Longrightarrow> yields I y P) \<Longrightarrow> yields I (if b then x else y) P"
  by simp

lemma cost_index_sane:
  assumes ok: "scan_ok g proot mem (index_rel (indexinfo p)) (param_info p)" and t: "target_ok p"
    and r: "clauses_ok mem (indrestrictinfo (indexinfo p))" and loops: "nonneg loops"
    and v: "\<not> fl 1 < allvisfrac (index_rel (indexinfo p))" and am: "\<And>q l. am_ok (am q l)"
  shows "yields (cache_ok g (catalogs proot) mem) (cost_index g proot ec am p loops part)
    (\<lambda>q. part \<and> parallel_workers q \<le> 0 \<or> sane_costs q)"
proof -
  let ?rel = "index_rel (indexinfo p)"
  let ?p1 = "p\<lparr> rows := path_rows ?rel (param_info p) \<rparr>"
  let ?e = "am ?p1 loops"
  let ?n = "clamp_row_est (am_selectivity ?e * tuples ?rel)"
  obtain rp pf mx mn where io: "index_io_cost g proot (indexinfo p) (pathtype p = T_IndexOnlyScan) loops ?n (am_selectivity ?e) =
      (rp, pf, mx, mn)" by (metis prod_cases4)
  have e: "nonneg (am_startup_cost ?e)" "\<not> am_total_cost ?e < am_startup_cost ?e" "nonneg (am_selectivity ?e)"
    "between (- 1) 1 (am_correlation ?e)" using am unfolding am_ok_def by blast+
  note facts = scan_okD [OF ok] target_okD [OF t] e
  have n: "nonneg ?n" by (intro nonneg_intros facts)
  note ios = index_io_cost_nonneg [OF facts(1) v loops n e(3) io]
  note costs = ios nonneg_interpolate(1) [OF ios(2,3) square_fraction [OF e(4)]] n
  have qp: "yields (cache_ok g (catalogs proot) mem) (cost_qual_eval g (catalogs proot) (index_qpquals ec p)) qual_nonneg"
    by (intro cost_qual_eval_yields facts index_qpquals_ok r)
  show ?thesis unfolding cost_index_def Let_def io prod.case
  proof (rule yields_if, goal_cases)
    case 1
    show ?case by (rule yields_return, rule disjI1, rule 1)
  next
    case 2
    have s: "nonneg (disabled g (enable_indexscan g) 0 + am_startup_cost ?e)"
      and r: "nonneg (0 + (am_total_cost ?e - am_startup_cost ?e) + (mx + am_correlation ?e * am_correlation ?e * (mn - mx)))"
      by (intro nonneg_intros facts costs)+
    show ?case
      by (rule yields_bind [OF qp], intro yields_return disjI2 finish_index_sane facts(1) s r costs, simp_all add: facts(5,8))
  qed
qed

lemma worker_counts:
  assumes "1 \<le> min_parallel_table_scan_size g" "min_parallel_table_scan_size g \<le> INT_MAX div 3"
    "rel_parallel_workers rel = - 1" "0 \<le> h"
  shows "\<exists>k. compute_parallel_worker g rel h (fl (- 1)) =
    (if reloptkind rel = RELOPT_BASEREL \<and> h < dbl (min_parallel_table_scan_size g) then 0
     else min (1 + int k) (max_parallel_workers_per_gather g)) \<and>
    (0 < k \<longrightarrow> dbl (min_parallel_table_scan_size g * 3 ^ k) \<le> h) \<and>
    (\<not> dbl (min_parallel_table_scan_size g * 3 ^ Suc k) \<le> h \<or> INT_MAX div 3 < min_parallel_table_scan_size g * 3 ^ k)"
proof -
  have "\<not> 0 \<le> fl (- 1)" by (simp add: float_eval)
  moreover obtain k where k: "worker_loop h (min_parallel_table_scan_size g) 1 = 1 + int k"
    "0 < k \<longrightarrow> dbl (min_parallel_table_scan_size g * 3 ^ k) \<le> h"
    "\<not> dbl (min_parallel_table_scan_size g * 3 ^ Suc k) \<le> h \<or> INT_MAX div 3 < min_parallel_table_scan_size g * 3 ^ k"
    using worker_loop_spec [OF assms(1,2)] by blast
  moreover have "max (min_parallel_table_scan_size g) 1 = min_parallel_table_scan_size g" using assms(1) by simp
  ultimately show ?thesis using assms by (intro exI [of _ k]) (simp add: compute_parallel_worker_def Let_def)
qed

lemma worker_bounds:
  assumes "0 \<le> max_parallel_workers_per_gather g" "- 1 \<le> rel_parallel_workers rel"
  shows "0 \<le> compute_parallel_worker g rel h i" "compute_parallel_worker g rel h i \<le> max_parallel_workers_per_gather g"
proof -
  have "1 \<le> worker_loop p t 1" for p t using worker_loop_ge [of 1 p t] .
  from this [of h "max (min_parallel_table_scan_size g) 1"] this [of i "max (min_parallel_index_scan_size g) 1"]
  show "0 \<le> compute_parallel_worker g rel h i" using assms by (auto simp: compute_parallel_worker_def Let_def min_def)
  show "compute_parallel_worker g rel h i \<le> max_parallel_workers_per_gather g"
    using assms by (auto simp: compute_parallel_worker_def Let_def)
qed

subsection \<open>Examples\<close>

definition example_index :: IndexOptInfo where
  "example_index = \<lparr> index_rel = example_rel, index_pages = 10, indrestrictinfo = [] \<rparr>"

definition example_indexpath :: "double \<Rightarrow> Selectivity \<Rightarrow> IndexPath" where
  "example_indexpath c s = Path.extend (example_path (fl 0) (fl 100) (fl 40) [])
     \<lparr> indexinfo = example_index, indexquals = [], indextotalcost = c, indexselectivity = s \<rparr>"

lemma example_index_node:
  "cost_bitmap_tree_node default_gucs (BitmapIndexPath (example_indexpath c s)) =
     Inr (c + fl 0.1 * cpu_operator_cost default_gucs * fl 1000, s)"
  by (simp add: example_indexpath_def Path.defs example_path_def)

lemma example_operator_cost: "0 \<le> cpu_operator_cost default_gucs"
  by (simp add: default_gucs_def fl_ge_0)

lemma example_fraction_tree: "0 \<le> r \<Longrightarrow> fraction_tree default_gucs (BitmapIndexPath (example_indexpath (fl r) (fl (1 / 2))))"
proof -
  assume r: "0 \<le> r"
  have "between 0 1 (fl (1 / 2))" by (intro between_fl exact_zero exact_one) simp_all
  moreover have b: "between 0 1 (fl 0.1)" "between 0 1 (cpu_operator_cost default_gucs)" "between 0 1000 (fl 1000)"
    by (simp_all add: default_gucs_def between_fl exact_zero exact_one exact_numeral)
  have "between 0 1000 (fl 0.1 * cpu_operator_cost default_gucs * fl 1000)"
    by (rule between_mult [OF fraction_mult(1) [OF b(1,2)] b(3)]) (rule exact_zero exact_numeral | simp)+
  then have "0 \<le> fl 0.1 * cpu_operator_cost default_gucs * fl 1000" by (rule between_le)
  ultimately show ?thesis unfolding fraction_tree_def example_index_node using fl_ge_0 [OF r] dadd_nonneg_le(3) by blast
qed

subsection \<open>Correctness\<close>



text \<open>
  C37: \<^verbatim>\<open>BitmapAnd\<close> and \<^verbatim>\<open>BitmapOr\<close> nodes over costed inputs are never refused and combine them soundly: the
  selectivity stays a fraction, an intersection is no less selective and a union no more selective
  than any input, and the cost is at least that of every input.
\<close>

theorem bitmap_node_bounds:
  "0 \<le> cpu_operator_cost g \<Longrightarrow> \<forall>q \<in> set qs. fraction_tree g q \<Longrightarrow>
   (\<exists>c s. cost_bitmap_and_node g p qs = Inr (BitmapAndPath (set_costs 0 c c p) qs s) \<and> 0 \<le> c \<and> between 0 1 s \<and>
      (\<forall>q \<in> set qs. \<exists>cq sq. cost_bitmap_tree_node g q = Inr (cq, sq) \<and> cq \<le> c \<and> s \<le> sq)) \<and>
   (\<exists>c s. cost_bitmap_or_node g p qs = Inr (BitmapOrPath (set_costs 0 c c p) qs s) \<and> 0 \<le> c \<and> between 0 1 s \<and>
      (\<forall>q \<in> set qs. \<exists>cq sq. cost_bitmap_tree_node g q = Inr (cq, sq) \<and> cq \<le> c \<and> sq \<le> s))"
proof -
  assume "0 \<le> cpu_operator_cost g" and t: "\<forall>q \<in> set qs. fraction_tree g q"
  then have o: "0 \<le> fl 100 * cpu_operator_cost g" by (intro scale_nonneg exact_numeral) simp_all
  have z: "0 \<le> (0::double)" using fl_ge_0 [OF order_refl] unfolding zero_double_def .
  have one: "between 0 1 (fl 1)" by (intro between_fl exact_zero exact_one) simp_all
  obtain c s where a: "bitmap_and_loop g qs True 0 (fl 1) = Inr (c, s)" "0 \<le> c" "between 0 1 s"
    "\<forall>q \<in> set qs. \<exists>cq sq. cost_bitmap_tree_node g q = Inr (cq, sq) \<and> cq \<le> c \<and> s \<le> sq"
    using bitmap_and_loop_bounds [OF o t z one, of True] by blast
  obtain d u where b: "bitmap_or_loop g qs True 0 0 = Inr (d, u)" "0 \<le> d" "0 \<le> u"
    "\<forall>q \<in> set qs. \<exists>cq sq. cost_bitmap_tree_node g q = Inr (cq, sq) \<and> cq \<le> d \<and> sq \<le> u"
    using bitmap_or_loop_bounds [OF o t z z, of True] by blast
  have "\<exists>cq sq. cost_bitmap_tree_node g q = Inr (cq, sq) \<and> cq \<le> d \<and> sq \<le> Min_d u (fl 1)" if q: "q \<in> set qs" for q
  proof -
    obtain cq sq where c: "cost_bitmap_tree_node g q = Inr (cq, sq)" "cq \<le> d" "sq \<le> u" using b(4) q by blast
    have "between 0 1 sq" using t q c(1) by (auto simp: fraction_tree_def)
    then have "sq \<le> fl 1" using fl_eq_Fin [OF exact_one] by (auto simp: between_def less_eq_double_def)
    then show ?thesis using c by (auto simp: Min_d_def)
  qed
  then show ?thesis using a b Min_1 [OF b(3)] unfolding cost_bitmap_and_node_def cost_bitmap_or_node_def
    by (intro conjI exI [of _ c] exI [of _ s] exI [of _ d] exI [of _ "Min_d u (fl 1)"]) simp_all
qed

theorem bitmap_node_bounds_witness:
  "\<exists>c s. cost_bitmap_and_node default_gucs p100
       [BitmapIndexPath (example_indexpath (fl 5) (fl (1 / 2))), BitmapIndexPath (example_indexpath (fl 7) (fl (1 / 2)))] =
     Inr (BitmapAndPath (set_costs 0 c c p100)
       [BitmapIndexPath (example_indexpath (fl 5) (fl (1 / 2))), BitmapIndexPath (example_indexpath (fl 7) (fl (1 / 2)))] s) \<and>
     between 0 1 s"
proof -
  let ?qs = "[BitmapIndexPath (example_indexpath (fl 5) (fl (1 / 2))), BitmapIndexPath (example_indexpath (fl 7) (fl (1 / 2)))]"
  have "\<forall>q \<in> set ?qs. fraction_tree default_gucs q" using example_fraction_tree by simp
  from bitmap_node_bounds [OF example_operator_cost this, of p100] show ?thesis by blast
qed

text \<open>
  C38: The number of workers for a parallel scan is never negative and never above the configured maximum;
  for a table without its own setting it is zero below the minimal size and otherwise one more than the
  largest number of times the minimal size can be tripled within the pages to scan, the tripling
  stopping before the threshold would overflow.
\<close>

theorem compute_parallel_worker_logarithmic:
  "1 \<le> min_parallel_table_scan_size g \<Longrightarrow> min_parallel_table_scan_size g \<le> INT_MAX div 3 \<Longrightarrow>
   0 \<le> max_parallel_workers_per_gather g \<Longrightarrow> - 1 \<le> rel_parallel_workers rel \<Longrightarrow>
   0 \<le> compute_parallel_worker g rel h i \<and>
   compute_parallel_worker g rel h i \<le> max_parallel_workers_per_gather g \<and>
   (rel_parallel_workers rel = - 1 \<and> 0 \<le> h \<longrightarrow>
     (\<exists>k. compute_parallel_worker g rel h (fl (- 1)) =
        (if reloptkind rel = RELOPT_BASEREL \<and> h < dbl (min_parallel_table_scan_size g) then 0
         else min (1 + int k) (max_parallel_workers_per_gather g)) \<and>
        (0 < k \<longrightarrow> dbl (min_parallel_table_scan_size g * 3 ^ k) \<le> h) \<and>
        (\<not> dbl (min_parallel_table_scan_size g * 3 ^ Suc k) \<le> h \<or>
          INT_MAX div 3 < min_parallel_table_scan_size g * 3 ^ k)))"
  using worker_counts [of g rel h] worker_bounds [of g rel h i] by blast

theorem compute_parallel_worker_logarithmic_witness:
  "0 \<le> compute_parallel_worker default_gucs example_rel (fl 100) (fl (- 1)) \<and>
   compute_parallel_worker default_gucs example_rel (fl 100) (fl (- 1)) \<le> 2"
  using compute_parallel_worker_logarithmic [of default_gucs example_rel "fl 100" "fl (- 1)"]
  by (simp add: default_gucs_def example_rel_def)

end
