(* ===== verification/Cost_Upper.thy ===== *)
theory Cost_Upper
  imports Cost_Index
begin

text \<open>
  The cost of the nodes above the scans: recursive union, sort, merge append, materialization,
  aggregation, window functions and grouping, the cost of scanning a path again, and of subplans, from
  \<^verbatim>\<open>costsize.c\<close>, with \<^verbatim>\<open>tuplesort_merge_order\<close> of \<^verbatim>\<open>tuplesort.c\<close> and \<^verbatim>\<open>ExecMaterializesOutput\<close> of
  \<^verbatim>\<open>execAmi.c\<close>.
\<close>

subsection \<open>Recursive union\<close>

text \<open>The width is stored into the target shared with the relation.\<close>

definition cost_recursive_union :: "gucs \<Rightarrow> Path \<Rightarrow> Path \<Rightarrow> Path \<Rightarrow> Path" where
  "cost_recursive_union g runion nrterm rterm =
     (let total_rows = rows nrterm + fl 10 * rows rterm;
          total = total_cost nrterm + fl 10 * total_cost rterm + cpu_tuple_cost g * total_rows;
          cpu = cpu_tuple_cost g * total_rows
      in (set_power 0 cpu total 0 (set_costs total_rows (startup_cost nrterm) total runion))
           \<lparr> pathtarget := (pathtarget runion)\<lparr> target_width :=
               max (target_width (pathtarget nrterm)) (target_width (pathtarget rterm)) \<rparr> \<rparr>)"

subsection \<open>Sort\<close>

text \<open>The division of C truncates towards zero.\<close>

definition tuplesort_merge_order :: "int \<Rightarrow> int" where
  "tuplesort_merge_order allowedMem =
     (let n = allowedMem - BLCKSZ; d = BLCKSZ * 32 + BLCKSZ;
          mOrder = (if n < 0 then - ((- n) div d) else n div d)
      in min (max mOrder 6) 500)"

text \<open>The startup cost added for the comparisons and the disk traffic, and the page accesses.\<close>

definition sort_work :: "gucs \<Rightarrow> double \<Rightarrow> int \<Rightarrow> Cost \<Rightarrow> int \<Rightarrow> double \<Rightarrow> Cost \<Rightarrow> Cost \<times> double" where
  "sort_work g ntuples width comparison_cost sort_mem_bytes limit_tuples startup0 =
     (let input_bytes = relation_byte_size ntuples width;
          n = (if ntuples < fl 2 then fl 2 else ntuples);
          (output_tuples, output_bytes) =
            (if limit_tuples > 0 \<and> limit_tuples < n then (limit_tuples, relation_byte_size limit_tuples width)
             else (n, input_bytes))
      in if output_bytes > dbl sort_mem_bytes then
           let npgs = ceil_d (input_bytes / dbl BLCKSZ);
               nruns = input_bytes / dbl sort_mem_bytes;
               mergeorder = dbl (tuplesort_merge_order sort_mem_bytes);
               log_runs = (if nruns > mergeorder then ceil_d (log_d nruns / log_d mergeorder) else fl 1);
               npageaccesses = fl 2 * npgs * log_runs
           in (startup0 + comparison_cost * n * LOG2 n
                 + npageaccesses * (seq_page_cost g * fl 0.75 + random_page_cost g * fl 0.25), npageaccesses)
         else if n > fl 2 * output_tuples \<or> input_bytes > dbl sort_mem_bytes then
           (startup0 + comparison_cost * n * LOG2 (fl 2 * output_tuples), 0)
         else (startup0 + comparison_cost * n * LOG2 n, 0))"

definition cost_sort ::
    "gucs \<Rightarrow> Path \<Rightarrow> Cost \<Rightarrow> double \<Rightarrow> int \<Rightarrow> Cost \<Rightarrow> int \<Rightarrow> double \<Rightarrow> Path" where
  "cost_sort g path input_cost ntuples width comparison_cost0 sort_mem limit_tuples =
     (let n = (if ntuples < fl 2 then fl 2 else ntuples);
          comparison_cost = comparison_cost0 + fl 2 * cpu_operator_cost g;
          (startup0, io) = sort_work g ntuples width comparison_cost (sort_mem * 1024) limit_tuples
             (disabled g (enable_sort g) input_cost);
          run = 0 + cpu_operator_cost g * n;
          cpu = cpu_operator_cost g * n
      in set_power io cpu run 0 (set_costs ntuples startup0 (startup0 + run) path))"

subsection \<open>Merge append and materialization\<close>

definition cost_merge_append :: "gucs \<Rightarrow> Path \<Rightarrow> int \<Rightarrow> Cost \<Rightarrow> Cost \<Rightarrow> double \<Rightarrow> Path" where
  "cost_merge_append g path n_streams input_startup_cost input_total_cost ntuples =
     (let N = (if n_streams < 2 then fl 2 else dbl n_streams);
          logN = LOG2 N;
          comparison_cost = fl 2 * cpu_operator_cost g;
          startup0 = 0 + comparison_cost * N * logN;
          run = 0 + ntuples * comparison_cost * logN + cpu_operator_cost g * ntuples;
          cpu = ntuples * comparison_cost * logN + cpu_operator_cost g * ntuples
      in set_power 0 cpu run 0
           (set_costs (rows path) (startup0 + input_startup_cost) (startup0 + run + input_total_cost) path))"

text \<open>What rereading materialized rows costs when they do not fit into \<^verbatim>\<open>work_mem\<close>.\<close>

definition spill_pages :: "gucs \<Rightarrow> double \<Rightarrow> int \<Rightarrow> double option" where
  "spill_pages g ntuples width =
     (let nbytes = relation_byte_size ntuples width
      in if nbytes > dbl (work_mem g * 1024) then Some (ceil_d (nbytes / dbl BLCKSZ)) else None)"

definition cost_material :: "gucs \<Rightarrow> Path \<Rightarrow> Cost \<Rightarrow> Cost \<Rightarrow> double \<Rightarrow> int \<Rightarrow> Path" where
  "cost_material g path input_startup_cost input_total_cost ntuples width =
     (let run0 = (input_total_cost - input_startup_cost) + fl 2 * cpu_operator_cost g * ntuples;
          (run1, io) =
            (case spill_pages g ntuples width of
               Some npgs \<Rightarrow> (run0 + seq_page_cost g * npgs, npgs)
             | None \<Rightarrow> (run0, 0))
      in set_power io run1 run1 0 (set_costs ntuples input_startup_cost (input_startup_cost + run1) path))"

text \<open>\<^verbatim>\<open>cost_rescan\<close> writes two results; a hash join is recognized by the struct around the path.\<close>

definition cost_rescan :: "gucs \<Rightarrow> Path \<Rightarrow> Cost \<times> Cost" where
  "cost_rescan g path =
     (let first_scan = (startup_cost path, total_cost path);
          without_startup = (0, total_cost path - startup_cost path);
          reread = (\<lambda>run_cost. (0,
            case spill_pages g (rows path) (target_width (pathtarget path)) of
              Some npgs \<Rightarrow> run_cost + seq_page_cost g * npgs
            | None \<Rightarrow> run_cost))
      in case pathtype path of
           T_FunctionScan \<Rightarrow> without_startup
         | T_HashJoin \<Rightarrow> if path_node path = T_HashPath 1 then without_startup else first_scan
         | T_CteScan \<Rightarrow> reread (cpu_tuple_cost g * rows path)
         | T_WorkTableScan \<Rightarrow> reread (cpu_tuple_cost g * rows path)
         | T_Material \<Rightarrow> reread (cpu_operator_cost g * rows path)
         | T_Sort \<Rightarrow> reread (cpu_operator_cost g * rows path)
         | _ \<Rightarrow> first_scan)"

subsection \<open>Aggregation and grouping\<close>

datatype AggStrategy = AGG_PLAIN | AGG_SORTED | AGG_HASHED | AGG_MIXED

record AggClauseCosts =
  transCost :: QualCost
  finalCost :: Cost

definition cost_agg ::
    "gucs \<Rightarrow> Path \<Rightarrow> AggStrategy \<Rightarrow> AggClauseCosts option \<Rightarrow> int \<Rightarrow> double \<Rightarrow> Cost \<Rightarrow> Cost \<Rightarrow> double \<Rightarrow> Path" where
  "cost_agg g path aggstrategy aggcosts0 numGroupCols numGroups input_startup_cost input_total_cost input_tuples =
     (let aggcosts = (case aggcosts0 of Some c \<Rightarrow> c | None \<Rightarrow> \<lparr> transCost = zero_cost, finalCost = 0 \<rparr>);
          grouping = (cpu_operator_cost g * dbl numGroupCols) * input_tuples;
          (startup0, total, output_tuples, cpu) =
            (case aggstrategy of
               AGG_PLAIN \<Rightarrow>
                 let s = input_total_cost + startup (transCost aggcosts) + per_tuple (transCost aggcosts) * input_tuples
                           + finalCost aggcosts
                 in (s, s + cpu_tuple_cost g, fl 1, per_tuple (transCost aggcosts) * input_tuples)
             | AGG_HASHED \<Rightarrow>
                 let s = disabled g (enable_hashagg g) input_total_cost + startup (transCost aggcosts)
                           + per_tuple (transCost aggcosts) * input_tuples + grouping
                 in (s, s + finalCost aggcosts * numGroups + cpu_tuple_cost g * numGroups, numGroups,
                     grouping + cpu_tuple_cost g * numGroups)
             | _ \<Rightarrow>
                 let off = (aggstrategy = AGG_MIXED \<and> \<not> enable_hashagg g)
                 in (disabled g (\<not> off) input_startup_cost,
                     disabled g (\<not> off) input_total_cost + startup (transCost aggcosts)
                       + per_tuple (transCost aggcosts) * input_tuples + grouping
                       + finalCost aggcosts * numGroups + cpu_tuple_cost g * numGroups, numGroups,
                     grouping + cpu_tuple_cost g * numGroups))
      in set_power 0 cpu total 0 (set_costs output_tuples startup0 total path))"

text \<open>Of a window function: its procedure, its arguments and its filter.\<close>

record window_func =
  winfnoid :: Oid
  wargs :: "Node list"
  aggfilter :: "Node list"

fun window_funcs_cost ::
    "gucs \<Rightarrow> catalog \<Rightarrow> double \<Rightarrow> window_func list \<Rightarrow> Cost \<times> Cost \<Rightarrow> (Cost \<times> Cost) planner" where
  "window_funcs_cost g cat input_tuples [] costs = preturn costs"
| "window_funcs_cost g cat input_tuples (wfunc # l) (startup0, tot) =
     pbind (plift (get_func_cost cat (winfnoid wfunc))) (\<lambda>f.
     pbind (cost_qual_eval g cat (wargs wfunc)) (\<lambda>argcosts.
     pbind (cost_qual_eval g cat (aggfilter wfunc)) (\<lambda>filtercosts.
       let wfunccost = f * cpu_operator_cost g + per_tuple argcosts + per_tuple filtercosts
       in window_funcs_cost g cat input_tuples l
            (startup0 + startup argcosts + startup filtercosts, tot + wfunccost * input_tuples))))"

definition cost_windowagg ::
    "gucs \<Rightarrow> PlannerInfo \<Rightarrow> Path \<Rightarrow> window_func list \<Rightarrow> int \<Rightarrow> int \<Rightarrow> Cost \<Rightarrow> Cost \<Rightarrow> double \<Rightarrow> Path planner" where
  "cost_windowagg g proot path windowFuncs numPartCols numOrderCols input_startup_cost input_total_cost input_tuples =
     pbind (window_funcs_cost g (catalogs proot) input_tuples windowFuncs (input_startup_cost, input_total_cost))
       (\<lambda>(startup0, total0).
        let total = total0 + cpu_operator_cost g * dbl (numPartCols + numOrderCols) * input_tuples
                      + cpu_tuple_cost g * input_tuples;
            cpu = 0 + (total - input_total_cost)
        in preturn (set_power 0 cpu total 0 (set_costs input_tuples startup0 total path)))"

definition cost_group :: "gucs \<Rightarrow> Path \<Rightarrow> int \<Rightarrow> double \<Rightarrow> Cost \<Rightarrow> Cost \<Rightarrow> double \<Rightarrow> Path" where
  "cost_group g path numGroupCols numGroups input_startup_cost input_total_cost input_tuples =
     (let total = input_total_cost + cpu_operator_cost g * input_tuples * dbl numGroupCols;
          cpu = total - input_startup_cost
      in set_power 0 cpu total 0 (set_costs numGroups input_startup_cost total path))"

subsection \<open>Subplans\<close>

datatype SubLinkType =
  EXISTS_SUBLINK | ALL_SUBLINK | ANY_SUBLINK | ROWCOMPARE_SUBLINK | EXPR_SUBLINK | MULTIEXPR_SUBLINK
  | ARRAY_SUBLINK | CTE_SUBLINK

record SubPlanInfo =
  subLinkType :: SubLinkType
  testexpr :: "Node list"
  useHashTable :: bool
  parParam :: "nat list"

record Plan =
  plan_tag :: NodeTag
  plan_startup_cost :: Cost
  plan_total_cost :: Cost
  plan_rows :: double

definition ExecMaterializesOutput :: "NodeTag \<Rightarrow> bool" where
  "ExecMaterializesOutput plantype \<longleftrightarrow>
     plantype \<in> {T_Material, T_FunctionScan, T_TableFuncScan, T_CteScan, T_NamedTuplestoreScan, T_WorkTableScan, T_Sort}"

text \<open>\<^verbatim>\<open>cost_subplan\<close> stores a startup cost and a cost per call; the test expression is its list of conjuncts.\<close>

definition cost_subplan :: "gucs \<Rightarrow> PlannerInfo \<Rightarrow> SubPlanInfo \<Rightarrow> Plan \<Rightarrow> QualCost planner" where
  "cost_subplan g proot subplan plan =
     pbind (cost_qual_eval g (catalogs proot) (testexpr subplan)) (\<lambda>sp_cost.
       if useHashTable subplan then
         preturn (sp_cost\<lparr> startup := startup sp_cost +
           (plan_total_cost plan + cpu_operator_cost g * plan_rows plan) \<rparr>)
       else
         let plan_run_cost = plan_total_cost plan - plan_startup_cost plan;
             per_tuple1 =
               (if subLinkType subplan = EXISTS_SUBLINK then
                  per_tuple sp_cost + plan_run_cost / clamp_row_est (plan_rows plan)
                else if subLinkType subplan = ALL_SUBLINK \<or> subLinkType subplan = ANY_SUBLINK then
                  per_tuple sp_cost + fl 0.5 * plan_run_cost + fl 0.5 * plan_rows plan * cpu_operator_cost g
                else per_tuple sp_cost + plan_run_cost)
         in preturn
              (if parParam subplan = [] \<and> ExecMaterializesOutput (plan_tag plan)
               then \<lparr> startup = startup sp_cost + plan_startup_cost plan, per_tuple = per_tuple1 \<rparr>
               else \<lparr> startup = startup sp_cost, per_tuple = per_tuple1 + plan_startup_cost plan \<rparr>))"

subsection \<open>Sane costs\<close>

lemma nonneg_log: "\<not> x < fl 1 \<Longrightarrow> nonneg (log_d x)"
  using log_ge_1 [of x] dnot_less [of x "fl 1"] by (cases "is_nan x") (auto simp: is_nan_iff)

lemma nonneg_LOG2': "\<not> x < fl 1 \<Longrightarrow> nonneg (LOG2 x)"
  unfolding LOG2_def by (intro nonneg_divide nonneg_log nonneg_fl) simp_all

lemma nonneg_byte_size [nonneg_intros]: "0 \<le> width \<Longrightarrow> nonneg n \<Longrightarrow> nonneg (relation_byte_size n width)"
  unfolding relation_byte_size_def MAXALIGN_def by (intro nonneg_mult nonneg_dbl) simp_all

lemma at_least_2: "\<not> (if n < fl 2 then fl 2 else n) < fl 1"
proof -
  have a: "fl 1 < fl 2" by (simp add: float_eval)
  then have "\<not> fl 2 < fl 1" by (rule dless_asym)
  moreover have "n < fl 1 \<Longrightarrow> n < fl 2" using dless_trans [OF _ a] .
  ultimately show ?thesis by auto
qed

lemma nonneg_at_least_2: "nonneg (if n < fl 2 then fl 2 else n)"
proof -
  have a: "0 < fl 2" by (simp add: float_eval)
  have "n < 0 \<Longrightarrow> n < fl 2" using dless_trans [OF _ a] .
  then show ?thesis by (auto simp: nonneg_fl) (auto simp: nonneg_def)
qed

lemma dmult_nan [simp]: "x * NaN = (NaN::double)"
  by (cases x) (simp_all add: times_double_def)

lemma twice_at_least_1: "\<not> x < fl 1 \<Longrightarrow> \<not> fl 2 * x < fl 1"
proof -
  assume x: "\<not> x < fl 1"
  show ?thesis
  proof (cases "is_nan x")
    case False
    then have le: "fl 1 \<le> x" using x dnot_less by simp
    have "nonneg (fl 2)" by (simp add: nonneg_fl)
    from dmult_mono_not_less [OF this le] have a: "\<not> fl 2 * x < fl 2" by simp
    have "fl 1 \<le> fl 2" by (intro fl_mono) simp
    then show ?thesis using a by (metis dless_le_trans)
  qed (simp add: is_nan_iff)
qed

lemma merge_order_range: "6 \<le> tuplesort_merge_order m" "tuplesort_merge_order m \<le> 500"
  by (auto simp: tuplesort_merge_order_def Let_def)

lemma merge_order_ge_1: "\<not> dbl (tuplesort_merge_order m) < fl 1"
proof -
  have "fl 1 \<le> dbl (tuplesort_merge_order m)" unfolding dbl_def using merge_order_range(1) [of m] by (intro fl_mono) simp
  then show ?thesis by (metis dless_not_le)
qed

definition limit_ok :: "double \<Rightarrow> bool" where
  "limit_ok l \<longleftrightarrow> \<not> (0 < l \<and> l < fl 1)"

lemma sort_work_nonneg:
  assumes "gucs_ok g" "nonneg n" "0 \<le> width" "nonneg cmp" "0 \<le> mem" "limit_ok l" "nonneg s"
  shows "nonneg (fst (sort_work g n width cmp mem l s))" "nonneg (snd (sort_work g n width cmp mem l s))"
    "\<not> fst (sort_work g n width cmp mem l s) < s"
proof -
  let ?n = "if n < fl 2 then fl 2 else n"
  note nn = nonneg_at_least_2 [of n]
  have lg: "nonneg (LOG2 ?n)" by (rule nonneg_LOG2' [OF at_least_2])
  obtain ot ob where ot: "(if l > 0 \<and> l < ?n then (l, relation_byte_size l width) else (?n, relation_byte_size n width)) = (ot, ob)"
    by (cases "if l > 0 \<and> l < ?n then (l, relation_byte_size l width) else (?n, relation_byte_size n width)")
  have "\<not> ot < fl 1"
  proof (cases "l > 0 \<and> l < ?n")
    case True
    then show ?thesis using ot assms(6) by (simp add: limit_ok_def)
  next
    case False
    then have "ot = ?n" using ot by (simp only: if_False prod.inject)
    then show ?thesis using at_least_2 by simp
  qed
  then have out: "nonneg (LOG2 (fl 2 * ot))" by (intro nonneg_LOG2' twice_at_least_1)
  have "nonneg (ceil_d (log_d r / log_d (dbl (tuplesort_merge_order mem))))" if "r > dbl (tuplesort_merge_order mem)" for r
  proof -
    have "\<not> r < fl 1" using that merge_order_ge_1 [of mem] dless_trans by blast
    then show ?thesis using merge_order_ge_1 [of mem] by (intro nonneg_ceil nonneg_divide nonneg_log)
  qed
  then have runs: "nonneg (if r > dbl (tuplesort_merge_order mem)
      then ceil_d (log_d r / log_d (dbl (tuplesort_merge_order mem))) else fl 1)" for r
    by (simp add: nonneg_fl)
  have b: "0 \<le> BLCKSZ" by simp
  note rules = nonneg_intros assms nn lg out runs b
  show "nonneg (fst (sort_work g n width cmp mem l s))"
    unfolding sort_work_def Let_def ot prod.case
    by (cases "dbl mem < ob"; cases "?n > fl 2 * ot \<or> relation_byte_size n width > dbl mem"; simp only: if_True if_False fst_conv; intro rules; simp)
  show "nonneg (snd (sort_work g n width cmp mem l s))"
    unfolding sort_work_def Let_def ot prod.case
    by (cases "dbl mem < ob"; cases "?n > fl 2 * ot \<or> relation_byte_size n width > dbl mem"; simp only: if_True if_False snd_conv; intro rules; simp)
  show "\<not> fst (sort_work g n width cmp mem l s) < s"
    unfolding sort_work_def Let_def ot prod.case
    by (cases "dbl mem < ob"; cases "?n > fl 2 * ot \<or> relation_byte_size n width > dbl mem"; simp only: if_True if_False fst_conv; intro grows1 grows2 rules; simp)
qed

lemma cost_sort_sane:
  assumes "gucs_ok g" "nonneg c" "nonneg n" "0 \<le> width" "nonneg cmp" "0 \<le> mem" "limit_ok l"
  shows "sane_costs (cost_sort g p c n width cmp mem l)"
proof -
  have work: "nonneg (cmp + fl 2 * cpu_operator_cost g)" "0 \<le> mem * 1024" "nonneg (disabled g (enable_sort g) c)"
    using assms by (auto intro!: nonneg_intros)
  note facts = sort_work_nonneg [OF assms(1,3,4) work(1,2) assms(7) work(3)]
  show ?thesis unfolding cost_sort_def Let_def case_prod_beta
    by (intro sane_sum nonneg_add nonneg_zero nonneg_mult gucs_okD facts nonneg_at_least_2 assms)
qed

lemma cost_recursive_union_sane:
  assumes "gucs_ok g" and a: "sane_costs a" and b: "sane_costs b"
  shows "sane_costs (cost_recursive_union g p a b)"
proof -
  have "sane_costs (set_power 0 (cpu_tuple_cost g * (rows a + fl 10 * rows b)) run 0
      (set_costs (rows a + fl 10 * rows b) (startup_cost a)
        (total_cost a + fl 10 * total_cost b + cpu_tuple_cost g * (rows a + fl 10 * rows b)) p))" for run
    using saneD [OF a] saneD [OF b] assms by (intro sane_set grows nonneg_intros) simp_all
  then show ?thesis by (simp add: cost_recursive_union_def Let_def sane_costs_def)
qed

lemma streams_at_least_1: "fl 1 \<le> (if n < 2 then fl 2 else dbl n)"
  unfolding dbl_def by (auto intro!: fl_mono)

lemma cost_merge_append_sane:
  assumes "gucs_ok g" "nonneg is" "nonneg it" "\<not> it < is" "nonneg n" "nonneg (rows p)"
  shows "sane_costs (cost_merge_append g p k is it n)"
proof -
  let ?N = "if k < 2 then fl 2 else dbl k"
  have N: "nonneg ?N" "nonneg (LOG2 ?N)"
    using streams_at_least_1 [of k] nonneg_LOG2 dle_trans [of 0 "fl 1" ?N] le_imp_nonneg nonneg_not_nan [OF nonneg_one]
    by (auto simp: one_fl)
  show ?thesis unfolding cost_merge_append_def Let_def
    by (intro sane_set dadd_mono_not_less grows1 nonneg_add nonneg_mult nonneg_zero nonneg_fl gucs_okD N assms; simp)
qed

lemma spill_pages_nonneg: "spill_pages g n w = Some k \<Longrightarrow> 0 \<le> w \<Longrightarrow> nonneg n \<Longrightarrow> nonneg k"
  by (auto simp: spill_pages_def Let_def split: if_splits intro!: nonneg_intros)

lemma cost_material_sane:
  assumes "gucs_ok g" "nonneg is" "\<not> it < is" "nonneg n" "0 \<le> w"
  shows "sane_costs (cost_material g p is it n w)"
proof (cases "spill_pages g n w")
  case None
  then show ?thesis using assms by (auto simp: cost_material_def Let_def intro!: sane_sum nonneg_intros)
next
  case (Some k)
  then have "nonneg k" using spill_pages_nonneg assms by blast
  then show ?thesis using assms Some by (auto simp: cost_material_def Let_def intro!: sane_sum nonneg_intros)
qed

definition agg_ok :: "AggClauseCosts option \<Rightarrow> bool" where
  "agg_ok a \<longleftrightarrow> (case a of None \<Rightarrow> True | Some c \<Rightarrow> qual_nonneg (transCost c) \<and> nonneg (finalCost c))"

lemma cost_agg_sane:
  assumes g: "gucs_ok g" and "agg_ok a" and n: "0 \<le> cols" "nonneg k" "nonneg is" "nonneg it" "nonneg n" and le: "\<not> it < is"
  shows "sane_costs (cost_agg g p st a cols k is it n)"
proof -
  obtain c where c: "(case a of Some c \<Rightarrow> c | None \<Rightarrow> \<lparr> transCost = zero_cost, finalCost = 0 \<rparr>) = c"
    "nonneg (startup (transCost c))" "nonneg (per_tuple (transCost c))" "nonneg (finalCost c)"
    using assms(2) qual_nonneg_intros(1) by (cases a) (auto simp: agg_ok_def qual_nonneg_def)
  have le': "\<not> disabled g e it < disabled g e is" for e using le by (simp add: disabled_def dadd_mono_not_less)
  have parts: "nonneg (per_tuple (transCost c) * n)" "nonneg (finalCost c * k)" "nonneg (cpu_tuple_cost g * k)"
    "nonneg (cpu_operator_cost g * dbl cols * n)" "nonneg (cpu_tuple_cost g)"
    "nonneg (disabled g e it)" "nonneg (disabled g e is)" for e
    by (intro nonneg_mult nonneg_dbl nonneg_disabled gucs_okD g n c(2-))+
  have one: "nonneg (fl 1)" by (simp add: nonneg_fl)
  have plain: "sane_costs (cost_agg g p AGG_PLAIN a cols k is it n)"
    unfolding cost_agg_def c(1) Let_def AggStrategy.case prod.case
    by (intro sane_set grows1 nonneg_add nonneg_zero one parts n c(2-))
  have hashed: "sane_costs (cost_agg g p AGG_HASHED a cols k is it n)"
    unfolding cost_agg_def c(1) Let_def AggStrategy.case prod.case
    by (intro sane_set grows2 nonneg_add nonneg_zero one parts n c(2-))
  have "sane_costs (cost_agg g p st a cols k is it n)" if "st = AGG_SORTED \<or> st = AGG_MIXED"
  proof -
    have "\<not> disabled g e it + startup (transCost c) + per_tuple (transCost c) * n + cpu_operator_cost g * dbl cols * n
        + finalCost c * k + cpu_tuple_cost g * k < disabled g e is" for e
      by (intro grows le' parts c(2-))
    then show ?thesis using that unfolding cost_agg_def c(1) Let_def
      by (elim disjE; simp only: AggStrategy.case prod.case) (intro sane_set nonneg_add nonneg_zero one parts n c(2-); simp)+
  qed
  then show ?thesis using plain hashed by (cases st) auto
qed

lemma cost_group_sane:
  assumes "gucs_ok g" "0 \<le> cols" "nonneg k" "nonneg is" "nonneg it" "\<not> it < is" "nonneg n"
  shows "sane_costs (cost_group g p cols k is it n)"
  unfolding cost_group_def Let_def
  using assms grows [OF assms(6), of "cpu_operator_cost g * n * dbl cols"]
  by (intro sane_set nonneg_minus nonneg_intros) (auto intro!: nonneg_intros)

lemma cost_subplan_nonneg:
  assumes "gucs_ok g" "catalog_ok (catalogs proot)" "clauses_ok mem (testexpr sp)"
    and plan: "nonneg (plan_startup_cost plan)" "\<not> plan_total_cost plan < plan_startup_cost plan" "nonneg (plan_total_cost plan)"
      "nonneg (plan_rows plan)"
  shows "yields (cache_ok g (catalogs proot) mem) (cost_subplan g proot sp plan) qual_nonneg"
  unfolding cost_subplan_def Let_def
proof (rule yields_bind [OF cost_qual_eval_yields [OF assms(1-3)]])
  fix q assume q: "qual_nonneg q"
  note rules = nonneg_intros assms q
  have run: "nonneg (plan_total_cost plan - plan_startup_cost plan)" by (intro nonneg_minus plan)
  show "yields (cache_ok g (catalogs proot) mem) (if useHashTable sp then preturn (q\<lparr> startup := startup q +
           (plan_total_cost plan + cpu_operator_cost g * plan_rows plan) \<rparr>)
       else preturn
              (if parParam sp = [] \<and> ExecMaterializesOutput (plan_tag plan)
               then \<lparr> startup = startup q + plan_startup_cost plan, per_tuple = (if subLinkType sp = EXISTS_SUBLINK then
                  per_tuple q + (plan_total_cost plan - plan_startup_cost plan) / clamp_row_est (plan_rows plan)
                else if subLinkType sp = ALL_SUBLINK \<or> subLinkType sp = ANY_SUBLINK then
                  per_tuple q + fl 0.5 * (plan_total_cost plan - plan_startup_cost plan) + fl 0.5 * plan_rows plan * cpu_operator_cost g
                else per_tuple q + (plan_total_cost plan - plan_startup_cost plan)) \<rparr>
               else \<lparr> startup = startup q, per_tuple = (if subLinkType sp = EXISTS_SUBLINK then
                  per_tuple q + (plan_total_cost plan - plan_startup_cost plan) / clamp_row_est (plan_rows plan)
                else if subLinkType sp = ALL_SUBLINK \<or> subLinkType sp = ANY_SUBLINK then
                  per_tuple q + fl 0.5 * (plan_total_cost plan - plan_startup_cost plan) + fl 0.5 * plan_rows plan * cpu_operator_cost g
                else per_tuple q + (plan_total_cost plan - plan_startup_cost plan)) + plan_startup_cost plan \<rparr>)) qual_nonneg"
    by (auto simp: qual_nonneg_def intro!: yields_return nonneg_add nonneg_mult nonneg_divide nonneg_clamp nonneg_fl run plan
        qual_nonnegD [OF q] gucs_okD [OF assms(1)])
qed

lemma double_not_less: "nonneg x \<Longrightarrow> \<not> fl 2 * x < x"
proof (cases x)
  case (Fin a)
  assume "nonneg x"
  then have "val a \<le> 2 * val a" using Fin by simp
  then have "fl (val a) \<le> fl (2 * val a)" by (rule fl_mono)
  moreover obtain t where "fl 2 = Fin t" "val t = 2" using fl_eq_Fin [OF exact_of_int [of 2]] by auto
  ultimately have "x \<le> fl 2 * x" using Fin by (simp add: times_double_def)
  then show ?thesis by (metis dless_not_le)
next
  case PInf
  moreover obtain t where "fl 2 = Fin t" "val t = 2" using fl_eq_Fin [OF exact_of_int [of 2]] by auto
  ultimately show ?thesis by (simp add: times_double_def)
qed (auto simp: nonneg_def)

lemma cost_material_fields:
  "startup_cost (cost_material g p is it n w) = is" "rows (cost_material g p is it n w) = n"
  "pathtype (cost_material g p is it n w) = pathtype p" "pathtarget (cost_material g p is it n w) = pathtarget p"
  "total_cost (cost_material g p is it n w) = is + (case spill_pages g n w of
     Some k \<Rightarrow> (it - is) + fl 2 * cpu_operator_cost g * n + seq_page_cost g * k
   | None \<Rightarrow> (it - is) + fl 2 * cpu_operator_cost g * n)"
  by (simp_all add: cost_material_def Let_def set_power_def set_costs_def split: option.split)

lemma material_charges:
  assumes "gucs_ok g" "nonneg n" "\<not> it < is"
  shows "\<not> (it - is) + fl 2 * cpu_operator_cost g * n < cpu_operator_cost g * n"
proof -
  have "\<not> fl 2 * cpu_operator_cost g * n < cpu_operator_cost g * n"
  proof (cases "is_nan (cpu_operator_cost g) \<or> is_nan (fl 2 * cpu_operator_cost g)")
    case True
    then show ?thesis by (auto simp: is_nan_iff times_double_def)
  next
    case False
    have "nonneg (cpu_operator_cost g)" by (rule gucs_okD [OF assms(1)])
    from double_not_less [OF this] have "cpu_operator_cost g \<le> fl 2 * cpu_operator_cost g"
      using False dnot_less by blast
    from dmult_mono_not_less [OF assms(2) this] show ?thesis by (simp add: dmult_commute [of n])
  qed
  then have "\<not> fl 2 * cpu_operator_cost g * n + (it - is) < cpu_operator_cost g * n"
    by (rule grows) (rule nonneg_minus [OF assms(3)])
  then show ?thesis by (simp add: dadd_commute [of "it - is"])
qed

subsection \<open>Examples\<close>

text \<open>A window function filtered by an initialization plan that has to run first.\<close>

definition example_window :: window_func where
  "example_window = \<lparr> winfnoid = 65, wargs = [], aggfilter = [SubPlan (fl 1000) (fl 0)] \<rparr>"

lemma example_filter_cost:
  "cost_qual_eval default_gucs example_catalog [SubPlan (fl 1000) (fl 0)] unset_cache =
     Inr (unset_cache, \<lparr> startup = fl 1000, per_tuple = 0 \<rparr>)"
  by (simp add: cost_qual_eval_def cost_qual_eval_walker.simps walk_children.simps(2) add_qual_cost_def zero_cost_def dzero_add zero_double_def [symmetric])

lemma example_window_cost:
  "\<exists>path. cost_windowagg default_gucs example_root p100 [example_window] 0 0 0 0 0 unset_cache = Inr (unset_cache, path) \<and>
     startup_cost path = fl 1000 \<and> total_cost path = 0"
proof -
  have fin: "\<exists>a. fl r = Fin a" if "0 \<le> r" "r \<le> 1" for r
    using between_fl [OF that exact_zero exact_one] by (auto simp: between_def)
  obtain a b where ab: "fl 0.0025 = Fin a" "fl 0.01 = Fin b" using fin [of "0.0025"] fin [of "0.01"] by auto
  have z: "dbl 0 = 0" by (simp add: dbl_def zero_double_def)
  have e: "cost_qual_eval default_gucs example_catalog [] unset_cache = Inr (unset_cache, zero_cost)"
    by (simp add: cost_qual_eval_def)
  have g: "cpu_operator_cost default_gucs = Fin a" "cpu_tuple_cost default_gucs = Fin b" "catalogs example_root = example_catalog"
    "get_func_cost example_catalog 65 = Inr (fl 1)"
    using ab by (simp_all add: default_gucs_def example_root_def get_func_cost_def example_catalog_def)
  have "(0::double) * 0 = 0" using fl_exact_eqs(3) [OF exact_zero exact_zero] by (simp add: zero_double_def)
  then show ?thesis
    by (simp add: cost_windowagg_def pbind_def plift_def preturn_def example_window_def g example_filter_cost e z
        zero_cost_def Let_def set_power_def set_costs_def dzero_add)
qed

subsection \<open>Correctness\<close>



text \<open>
  Materializing pays off on every rescan: rereading the rows of a \<^verbatim>\<open>Material\<close> node never costs more than
  the first scan, whether or not they spill to disk.
\<close>

lemma material_rescan_not_dearer:
  "gucs_ok g \<Longrightarrow> nonneg is \<Longrightarrow> \<not> it < is \<Longrightarrow> nonneg n \<Longrightarrow> 0 \<le> target_width (pathtarget p) \<Longrightarrow> pathtype p = T_Material \<Longrightarrow>
   fst (cost_rescan g (cost_material g p is it n (target_width (pathtarget p)))) = 0 \<and>
   \<not> total_cost (cost_material g p is it n (target_width (pathtarget p))) <
     snd (cost_rescan g (cost_material g p is it n (target_width (pathtarget p))))"
proof -
  assume ok: "gucs_ok g" "nonneg is" "\<not> it < is" "nonneg n" "0 \<le> target_width (pathtarget p)" and t: "pathtype p = T_Material"
  have start: "\<not> is + r < (r' :: double)" if "\<not> r < r'" for r r'
    using grows [OF that ok(2)] by (simp add: dadd_commute [of "is"])
  note charge = material_charges [OF ok(1,4,3)]
  show ?thesis
    by (cases "spill_pages g n (target_width (pathtarget p))")
      (simp_all add: cost_rescan_def Let_def cost_material_fields t start charge dadd_mono_not_less)
qed

text \<open>
  \<^verbatim>\<open>cost_windowagg\<close> adds the startup cost of arguments and filters of the window functions to the startup
  cost of the node only and not to its total cost, so a plan with an expensive initialization is
  recorded as ready to run before it has started: its total cost is below its startup cost.
\<close>

theorem windowagg_total_below_startup:
  "\<exists>cache path. cost_windowagg default_gucs example_root p100 [example_window] 0 0 0 0 0 unset_cache =
     Inr (cache, path) \<and> total_cost path < startup_cost path"
proof -
  have "(0::double) < fl 1000" by (simp add: float_eval)
  then show ?thesis using example_window_cost by force
qed

end
