(* ===== verification/Hash_Table.thy ===== *)
theory Hash_Table
  imports Cost_Index
begin

text \<open>
  The size of the hash table of a hash join: \<^verbatim>\<open>ExecChooseHashTableSize\<close> of \<^verbatim>\<open>nodeHash.c\<close>, which the planner
  calls, and \<^verbatim>\<open>my_log2\<close> of \<^verbatim>\<open>dynahash.c\<close>. Sizes are those of a 64-bit machine: a \<^verbatim>\<open>long\<close> has 64 bits and
  a pointer eight bytes.
\<close>

abbreviation LONG_MAX :: int where "LONG_MAX \<equiv> 9223372036854775807"

function log2_loop :: "int \<Rightarrow> nat \<Rightarrow> int \<Rightarrow> nat" where
  "log2_loop num i limit = (if 0 < limit \<and> limit < num then log2_loop num (Suc i) (limit * 2) else i)"
  by pat_completeness auto
termination
  by (relation "measure (\<lambda>(num, i, limit). nat (num - limit))") auto

declare log2_loop.simps [simp del]

definition my_log2 :: "int \<Rightarrow> nat" where
  "my_log2 num = log2_loop (if num > LONG_MAX div 2 then LONG_MAX div 2 else num) 0 1"

function batch_loop :: "int \<Rightarrow> int \<Rightarrow> int" where
  "batch_loop minbatch nbatch = (if 0 < nbatch \<and> nbatch < minbatch then batch_loop minbatch (nbatch * 2) else nbatch)"
  by pat_completeness auto
termination
  by (relation "measure (\<lambda>(m, n). nat (m - n))") auto

declare batch_loop.simps [simp del]

text \<open>Sizes: of a tuple in the table, and of the pointer array.\<close>

definition hash_tupsize :: "int \<Rightarrow> int" where
  "hash_tupsize tupwidth = MAXALIGN 16 + MAXALIGN 15 + MAXALIGN tupwidth"

text \<open>The memory for the main table and the number of most common values that get a bucket of the skew
  table.\<close>

definition hash_table_space :: "gucs \<Rightarrow> int \<Rightarrow> bool \<Rightarrow> int \<times> int" where
  "hash_table_space g tupwidth useskew =
     (let hash_table_bytes = work_mem g * 1024
      in if useskew then
           let skew_table_bytes = hash_table_bytes * 2 div 100;
               num_skew_mcvs = skew_table_bytes div (hash_tupsize tupwidth + 8 * 8 + 4 + MAXALIGN 16)
           in (if num_skew_mcvs > 0 then hash_table_bytes - skew_table_bytes else hash_table_bytes, num_skew_mcvs)
         else (hash_table_bytes, 0))"

definition max_hash_pointers :: "gucs \<Rightarrow> int" where
  "max_hash_pointers g =
     (let p0 = min (work_mem g * 1024 div 8) (1073741823 div 8);
          mppow2 = 2 ^ my_log2 p0;
          p1 = (if p0 \<noteq> mppow2 then mppow2 div 2 else p0)
      in min p1 (INT_MAX div 2))"

definition ExecChooseHashTableSize :: "gucs \<Rightarrow> double \<Rightarrow> int \<Rightarrow> bool \<Rightarrow> int \<times> int \<times> int" where
  "ExecChooseHashTableSize g ntuples0 tupwidth useskew =
     (let ntuples = (if ntuples0 \<le> 0 then fl 1000 else ntuples0);
          tupsize = hash_tupsize tupwidth;
          inner_rel_bytes = ntuples * dbl tupsize;
          (hash_table_bytes, num_skew_mcvs) = hash_table_space g tupwidth useskew;
          max_pointers = max_hash_pointers g;
          dbuckets = Min_d (ceil_d (ntuples / fl 1)) (dbl max_pointers);
          nbuckets0 = 2 ^ my_log2 (max (int_of_double dbuckets) 1024);
          bucket_bytes = 8 * nbuckets0
      in if inner_rel_bytes + dbl bucket_bytes > dbl hash_table_bytes then
           let bucket_size = tupsize + 8;
               lbuckets = min (2 ^ my_log2 (hash_table_bytes div bucket_size)) max_pointers;
               nbuckets1 = 2 ^ my_log2 lbuckets;
               dbatch = Min_d (ceil_d (inner_rel_bytes / dbl (hash_table_bytes - nbuckets1 * 8))) (dbl max_pointers);
               nbatch = batch_loop (int_of_double dbatch) 2
           in (nbuckets1, nbatch, num_skew_mcvs)
         else (nbuckets0, 1, num_skew_mcvs))"

subsection \<open>Powers of two\<close>

lemma log2_loop_spec:
  "limit = 2 ^ i \<Longrightarrow> (0 < i \<Longrightarrow> 2 ^ (i - 1) < num) \<Longrightarrow>
   num \<le> 2 ^ log2_loop num i limit \<and> (0 < log2_loop num i limit \<longrightarrow> 2 ^ (log2_loop num i limit - 1) < num)"
proof (induction num i limit rule: log2_loop.induct)
  case (1 num i limit)
  show ?case
  proof (cases "limit < num")
    case True
    moreover have "0 < limit" using 1(2) by simp
    ultimately have "log2_loop num i limit = log2_loop num (Suc i) (limit * 2)" by (subst log2_loop.simps) simp
    moreover have "num \<le> 2 ^ log2_loop num (Suc i) (limit * 2) \<and>
        (0 < log2_loop num (Suc i) (limit * 2) \<longrightarrow> 2 ^ (log2_loop num (Suc i) (limit * 2) - 1) < num)"
      using 1 True \<open>0 < limit\<close> by simp
    ultimately show ?thesis by simp
  next
    case False
    then have "log2_loop num i limit = i" by (subst log2_loop.simps) simp
    then show ?thesis using False 1(2,3) by simp
  qed
qed

lemma my_log2_spec:
  assumes "num \<le> LONG_MAX div 2"
  shows "num \<le> 2 ^ my_log2 num" "0 < my_log2 num \<Longrightarrow> 2 ^ (my_log2 num - 1) < num"
  using log2_loop_spec [of 1 0 num] assms by (simp_all add: my_log2_def)

text \<open>The exponent is the least one that reaches the number.\<close>

lemma my_log2_le: "num \<le> 2 ^ k \<Longrightarrow> num \<le> LONG_MAX div 2 \<Longrightarrow> my_log2 num \<le> k"
proof (rule ccontr)
  assume a: "num \<le> 2 ^ k" "num \<le> LONG_MAX div 2" "\<not> my_log2 num \<le> k"
  then have "2 ^ (my_log2 num - 1) < num" using my_log2_spec(2) [OF a(2)] by simp
  moreover have "(2::int) ^ k \<le> 2 ^ (my_log2 num - 1)" using a(3) by (intro power_increasing) simp_all
  ultimately show False using a(1) by linarith
qed

lemma batch_loop_spec:
  "n = 2 ^ j \<Longrightarrow> m \<le> 2 ^ k \<Longrightarrow> j \<le> k \<Longrightarrow> \<exists>i. batch_loop m n = 2 ^ i \<and> i \<le> k \<and> j \<le> i \<and> m \<le> 2 ^ i"
proof (induction m n arbitrary: j rule: batch_loop.induct)
  case (1 m n)
  show ?case
  proof (cases "n < m")
    case True
    have "(2::int) ^ j < 2 ^ k" using True 1 by linarith
    then have "Suc j \<le> k" by (simp add: Suc_leI)
    moreover have "n * 2 = 2 ^ Suc j" "0 < n" using 1 by simp_all
    moreover have "batch_loop m n = batch_loop m (n * 2)" using True \<open>0 < n\<close> by (subst batch_loop.simps) simp
    ultimately show ?thesis using 1(1) [OF _ _ 1(3), of "Suc j"] True Suc_leD by fastforce
  next
    case False
    then have "batch_loop m n = n" by (subst batch_loop.simps) simp
    then show ?thesis using 1 False by (intro exI [of _ j]) simp
  qed
qed

lemma max_hash_pointers_spec:
  assumes "64 \<le> work_mem g" "work_mem g \<le> INT_MAX"
  shows "\<exists>k. max_hash_pointers g = 2 ^ k \<and> k \<le> 26 \<and> 10 \<le> k \<and> 8 * 2 ^ k \<le> work_mem g * 1024"
proof -
  let ?p = "min (work_mem g * 1024 div 8) (1073741823 div 8)"
  have p: "8192 \<le> ?p" "?p \<le> 134217727" "8 * ?p \<le> work_mem g * 1024" using assms by auto
  have l: "?p \<le> LONG_MAX div 2" using p by simp
  note s = my_log2_spec [OF l]
  let ?k = "my_log2 ?p"
  have k: "13 \<le> ?k"
  proof (rule ccontr)
    assume "\<not> 13 \<le> ?k"
    then have "(2::int) ^ ?k \<le> 2 ^ 12" by (intro power_increasing) simp_all
    then show False using s(1) p(1) by simp
  qed
  have k27: "?k \<le> 27" using my_log2_le [of ?p 27] p by simp
  define q where "q = (if ?p = 2 ^ ?k then ?k else ?k - 1)"
  have q: "2 ^ q \<le> ?p" "10 \<le> q" using s(2) k by (auto simp: q_def)
  have "q \<le> 26"
  proof (rule ccontr)
    assume "\<not> q \<le> 26"
    then have "(2::int) ^ 27 \<le> 2 ^ q" by (intro power_increasing) simp_all
    then show False using q(1) p(2) by simp
  qed
  have "(2::int) ^ ?k div 2 = 2 ^ (?k - 1)" using k by (cases ?k) simp_all
  then have e: "(if ?p \<noteq> 2 ^ ?k then 2 ^ ?k div 2 else ?p) = 2 ^ q" by (simp add: q_def)
  have "(2::int) ^ q \<le> INT_MAX div 2" using q p(2) by simp
  then have "max_hash_pointers g = 2 ^ q" unfolding max_hash_pointers_def Let_def e by (simp only: min_absorb1)
  then show ?thesis using q p(3) \<open>q \<le> 26\<close> by (intro exI [of _ q]) simp
qed

lemma int_of_double_Min:
  assumes "0 \<le> m" "m \<le> INT_MAX"
  shows "int_of_double (Min_d x (dbl m)) \<le> m"
proof -
  have "\<bar>m\<bar> \<le> 2 ^ 53" using assms by simp
  then obtain b where b: "dbl m = Fin b" "val b = of_int m" using fl_eq_Fin [OF exact_of_int] by (auto simp: dbl_def)
  have fin: "int_of_double (Fin a) \<le> m" if "val a \<le> of_int m" for a
    using that assms by (auto simp: Let_def ceiling_le_iff floor_le_iff)
  show ?thesis unfolding b using fin assms b by (cases x) (auto simp: Min_d_def less_double_def)
qed

lemma MAXALIGN_ge: "x \<le> MAXALIGN x"
  unfolding MAXALIGN_def by presburger

lemma hash_tupsize_ge: "0 \<le> w \<Longrightarrow> 32 \<le> hash_tupsize w"
  using MAXALIGN_ge [of w] by (simp add: hash_tupsize_def MAXALIGN_def)

lemma hash_table_space_bounds:
  assumes "64 \<le> work_mem g"
  shows "64000 \<le> fst (hash_table_space g w useskew)" "fst (hash_table_space g w useskew) \<le> work_mem g * 1024"
  using assms by (auto simp: hash_table_space_def Let_def)

text \<open>The bucket array of one batch of several: at most half of the memory.\<close>

lemma batch_buckets_half:
  assumes "16 \<le> h" "h \<le> 2 ^ 41" "40 \<le> s"
  shows "8 * 2 ^ my_log2 (h div s) \<le> h div 2"
proof (cases "my_log2 (h div s) = 0")
  case True
  then show ?thesis using assms by simp
next
  case False
  have q: "h div s \<le> h div 40" using assms by (simp add: zdiv_mono2)
  moreover have "h \<le> 2199023255552" using assms by simp
  ultimately have "h div s \<le> LONG_MAX div 2" by linarith
  from my_log2_spec(2) [OF this] False have "2 ^ (my_log2 (h div s) - 1) < h div s" by simp
  moreover have "(2::int) ^ my_log2 (h div s) = 2 * 2 ^ (my_log2 (h div s) - 1)" using False by (cases "my_log2 (h div s)") simp_all
  ultimately show ?thesis using q assms(1) by linarith
qed

lemma power2_min: "min (2 ^ i) (2 ^ k) = (2::int) ^ min i k"
  by (simp add: min_def)

lemma my_log2_power2: "k \<le> 40 \<Longrightarrow> my_log2 (2 ^ k) = k"
proof (rule antisym)
  assume "k \<le> 40"
  then have "(2::int) ^ k \<le> 2 ^ 40" by (intro power_increasing) simp_all
  then have l: "(2::int) ^ k \<le> LONG_MAX div 2" by simp
  then show "my_log2 (2 ^ k) \<le> k" by (rule my_log2_le [rotated]) simp
  show "k \<le> my_log2 (2 ^ k)" using my_log2_spec(1) [OF l] by simp
qed

text \<open>
  C19: \<^verbatim>\<open>ExecChooseHashTableSize\<close> chooses a number of buckets and a number of batches that are powers of two
  within an \<^verbatim>\<open>int\<close> (so that the two shifts and the doubling loop cannot overflow), the array of buckets fits in
  \<^verbatim>\<open>work_mem\<close>, and with several batches the function's own assertion holds: the array takes at most half of the
  memory that is left beside the skew table.
\<close>

theorem hash_table_size_ok:
  assumes "64 \<le> work_mem g" "work_mem g \<le> INT_MAX" "0 \<le> tupwidth"
    and "ExecChooseHashTableSize g ntuples tupwidth useskew = (nbuckets, nbatch, mcvs)"
  shows "(\<exists>i. nbuckets = 2 ^ i \<and> i \<le> 26) \<and> (\<exists>j. nbatch = 2 ^ j \<and> j \<le> 26) \<and> 8 * nbuckets \<le> work_mem g * 1024 \<and>
    (1 < nbatch \<longrightarrow> 8 * nbuckets \<le> fst (hash_table_space g tupwidth useskew) div 2)"
proof -
  obtain k where k: "max_hash_pointers g = 2 ^ k" "k \<le> 26" "10 \<le> k" "8 * 2 ^ k \<le> work_mem g * 1024"
    using max_hash_pointers_spec [OF assms(1,2)] by blast
  have k': "(0::int) \<le> 2 ^ k" "(2::int) ^ k \<le> INT_MAX" using power_increasing [OF k(2), of "2::int"] by simp_all
  have k10: "(1024::int) \<le> 2 ^ k" using power_increasing [OF k(3), of "2::int"] by simp
  obtain h m where h: "hash_table_space g tupwidth useskew = (h, m)" by fastforce
  have hb: "64000 \<le> h" "h \<le> work_mem g * 1024" using hash_table_space_bounds [OF assms(1), of tupwidth useskew] h by simp_all
  have one: "my_log2 (max (int_of_double (Min_d x (dbl (2 ^ k)))) 1024) \<le> k" for x
    using int_of_double_Min [OF k', of x] k10 k'(2) by (intro my_log2_le) simp_all
  define i where "i = min (my_log2 (h div (hash_tupsize tupwidth + 8))) k"
  have i: "my_log2 (2 ^ i) = i" "i \<le> k" using k(2) by (simp_all add: i_def my_log2_power2)
  have "8 * 2 ^ my_log2 (h div (hash_tupsize tupwidth + 8)) \<le> h div 2"
    using hb assms(2) hash_tupsize_ge [OF assms(3)] by (intro batch_buckets_half) simp_all
  moreover have "(2::int) ^ i \<le> 2 ^ my_log2 (h div (hash_tupsize tupwidth + 8))" by (rule power_increasing) (simp_all add: i_def)
  ultimately have half: "8 * 2 ^ i \<le> h div 2" by linarith
  have batches: "\<exists>j. batch_loop (int_of_double (Min_d x (dbl (2 ^ k)))) 2 = 2 ^ j \<and> j \<le> 26" for x
    using batch_loop_spec [of 2 1 "int_of_double (Min_d x (dbl (2 ^ k)))" k] int_of_double_Min [OF k', of x] k(2,3)
    by fastforce
  have fits: "8 * (2::int) ^ e \<le> work_mem g * 1024" "e \<le> 26" if "e \<le> k" for e
  proof -
    have "(2::int) ^ e \<le> 2 ^ k" using that by simp
    then show "8 * (2::int) ^ e \<le> work_mem g * 1024" using k(4) by linarith
    show "e \<le> 26" using that k(2) by simp
  qed
  have "\<exists>j. (2::int) ^ j = 1 \<and> j \<le> 26" by (rule exI [of _ 0]) simp
  then show ?thesis
    using assms(4) fits [OF one] fits [OF i(2)] half batches
    by (auto simp: ExecChooseHashTableSize_def h k(1) power2_min i_def [symmetric] i(1) Let_def split: if_splits)
qed

theorem hash_table_size_ok_witness:
  "case ExecChooseHashTableSize default_gucs (fl 5) 100 True of (nbuckets, nbatch, mcvs) \<Rightarrow>
     (\<exists>i. nbuckets = 2 ^ i \<and> i \<le> 26) \<and> (\<exists>j. nbatch = 2 ^ j \<and> j \<le> 26) \<and> 8 * nbuckets \<le> 4194304"
  using hash_table_size_ok [of default_gucs 100 "fl 5" True] by (auto simp: default_gucs_def split: prod.split)

end
