(* ===== verification/Cost_Join.thy ===== *)
theory Cost_Join
  imports Cost_Upper Hash_Table
begin

text \<open>
  The cost of joins: the two phases of nested loop, merge and hash join costing in \<^verbatim>\<open>costsize.c\<close> with
  their helpers, \<^verbatim>\<open>ExecSupportsMarkRestore\<close> of \<^verbatim>\<open>execAmi.c\<close>, \<^verbatim>\<open>join_clause_is_movable_into\<close> of
  \<^verbatim>\<open>restrictinfo.c\<close> and the operand accessors of \<^verbatim>\<open>clauses.c\<close>. The first phase fills a \<^verbatim>\<open>JoinCostWorkspace\<close>
  with lower bounds; the second takes it and stores the costs in the join path. The estimators that read
  column statistics are the fields of one record, \<open>estimators\<close>, which is an argument of the routines.
\<close>

subsection \<open>Data\<close>

datatype JoinType =
  JOIN_INNER | JOIN_LEFT | JOIN_FULL | JOIN_RIGHT | JOIN_SEMI | JOIN_ANTI | JOIN_UNIQUE_OUTER | JOIN_UNIQUE_INNER

definition IS_OUTER_JOIN :: "JoinType \<Rightarrow> bool" where
  "IS_OUTER_JOIN j \<longleftrightarrow> j \<in> {JOIN_LEFT, JOIN_FULL, JOIN_RIGHT, JOIN_ANTI}"

record SpecialJoinInfo =
  min_lefthand :: Relids
  min_righthand :: Relids
  syn_lefthand :: Relids
  syn_righthand :: Relids
  sj_jointype :: JoinType
  lhs_strict :: bool
  delay_upper_joins :: bool
  semi_can_btree :: bool
  semi_can_hash :: bool
  semi_operators :: "Oid list"
  semi_rhs_exprs :: "Node list"

record SemiAntiJoinFactors =
  outer_match_frac :: Selectivity
  match_count :: Selectivity

record JoinPathExtraData =
  extra_restrictlist :: "Node list"
  mergeclause_list :: "Node list"
  inner_unique :: bool
  extra_sjinfo :: SpecialJoinInfo
  semifactors :: SemiAntiJoinFactors
  param_source_rels :: Relids

record JoinCostWorkspace =
  ws_startup_cost :: Cost
  ws_total_cost :: Cost
  ws_io_cost :: Cost
  ws_cpu_cost :: Cost
  ws_power_cost :: Cost
  ws_run_cost :: Cost
  ws_inner_run_cost :: Cost
  ws_inner_rescan_run_cost :: Cost
  ws_outer_rows :: double
  ws_inner_rows :: double
  ws_outer_skip_rows :: double
  ws_inner_skip_rows :: double
  ws_numbuckets :: int
  ws_numbatches :: int

text \<open>The number of batches of a \<^verbatim>\<open>HashPath\<close> is in its \<open>path_node\<close>, \<open>T_HashPath num_batches\<close>, where
  \<open>cost_rescan\<close> finds it.\<close>

record JoinPath = Path +
  jointype :: JoinType
  path_inner_unique :: bool
  outerjoinpath :: Path
  innerjoinpath :: Path
  joinrestrictinfo :: "Node list"

record MergePath = JoinPath +
  path_mergeclauses :: "Node list"
  outersortkeys :: "PathKey list"
  innersortkeys :: "PathKey list"
  skip_mark_restore :: bool
  materialize_inner :: bool

record HashPath = JoinPath +
  path_hashclauses :: "Node list"

text \<open>The part of a \<^verbatim>\<open>RestrictInfo\<close> that only join costing reads, by its address, and the sort-order
  details of a \<^verbatim>\<open>PathKey\<close>.\<close>

record rinfo_data =
  clause_relids :: Relids
  outer_relids :: Relids
  nullable_relids :: Relids
  rinfo_parent_ec :: "nat option"
  rinfo_left_ec :: "nat option"
  can_join :: bool
  hashjoinoperator :: Oid

record pathkey_data =
  pk_opfamily :: Oid
  ec_collation :: Oid
  pk_strategy :: int
  pk_nulls_first :: bool

record MergeScanSelCache =
  sc_opfamily :: Oid
  sc_collation :: Oid
  sc_strategy :: int
  sc_nulls_first :: bool
  leftstartsel :: Selectivity
  leftendsel :: Selectivity
  rightstartsel :: Selectivity
  rightendsel :: Selectivity

text \<open>The caches in the clauses: scan selectivities per ordering, and the bucket sizes of the left and the
  right side, negative when not set.\<close>

type_synonym scansel_cache = "nat \<Rightarrow> MergeScanSelCache list"
type_synonym bucket_cache = "nat \<Rightarrow> Selectivity \<times> Selectivity"

record estimators =
  clause_selectivity :: "Node \<Rightarrow> int \<Rightarrow> JoinType \<Rightarrow> SpecialJoinInfo option \<Rightarrow> Selectivity"
  clauselist_selectivity :: "Node list \<Rightarrow> int \<Rightarrow> JoinType \<Rightarrow> SpecialJoinInfo option \<Rightarrow> Selectivity"
  estimate_hash_bucketsize :: "Node option \<Rightarrow> double \<Rightarrow> Selectivity"
  mergejoinscansel :: "Node \<Rightarrow> Oid \<Rightarrow> int \<Rightarrow> bool \<Rightarrow> Selectivity \<times> Selectivity \<times> Selectivity \<times> Selectivity"

subsection \<open>Helpers\<close>

text \<open>A made-up \<^verbatim>\<open>SpecialJoinInfo\<close> for inner join semantics.\<close>

definition inner_sjinfo :: "Relids \<Rightarrow> Relids \<Rightarrow> SpecialJoinInfo" where
  "inner_sjinfo outer inner =
     \<lparr> min_lefthand = outer, min_righthand = inner, syn_lefthand = outer, syn_righthand = inner,
       sj_jointype = JOIN_INNER, lhs_strict = False, delay_upper_joins = False, semi_can_btree = False,
       semi_can_hash = False, semi_operators = [], semi_rhs_exprs = [] \<rparr>"

definition compute_semi_anti_join_factors ::
    "estimators \<Rightarrow> RelOptBase \<Rightarrow> RelOptBase \<Rightarrow> JoinType \<Rightarrow> SpecialJoinInfo \<Rightarrow> Node list \<Rightarrow> SemiAntiJoinFactors" where
  "compute_semi_anti_join_factors est outerrel innerrel jt sjinfo restrictlist =
     (let joinquals =
            (if IS_OUTER_JOIN jt then filter (\<lambda>rinfo. \<not> is_pushed_down rinfo) restrictlist else restrictlist);
          jselec = clauselist_selectivity est joinquals 0 (if jt = JOIN_ANTI then JOIN_ANTI else JOIN_SEMI) (Some sjinfo);
          norm_sjinfo = inner_sjinfo (relids outerrel) (relids innerrel);
          nselec = clauselist_selectivity est joinquals 0 JOIN_INNER (Some norm_sjinfo);
          avgmatch = (if jselec > 0 then Max_d (fl 1) (nselec * rel_rows innerrel / jselec) else fl 1)
      in \<lparr> outer_match_frac = jselec, match_count = avgmatch \<rparr>)"

definition approx_tuple_count :: "estimators \<Rightarrow> 'a JoinPath_scheme \<Rightarrow> Node list \<Rightarrow> double" where
  "approx_tuple_count est path quals =
     (let outer_tuples = rows (outerjoinpath path);
          inner_tuples = rows (innerjoinpath path);
          sjinfo = inner_sjinfo (relids (parent (outerjoinpath path))) (relids (parent (innerjoinpath path)));
          selec = foldl (\<lambda>s qual. s * clause_selectivity est qual 0 JOIN_INNER (Some sjinfo)) (fl 1) quals
      in clamp_row_est (selec * outer_tuples * inner_tuples))"

definition join_clause_is_movable_into :: "rinfo_data \<Rightarrow> Relids \<Rightarrow> Relids \<Rightarrow> bool" where
  "join_clause_is_movable_into rinfo currentrelids current_and_outer \<longleftrightarrow>
     bms_is_subset (clause_relids rinfo) current_and_outer \<and>
     bms_overlap currentrelids (clause_relids rinfo) \<and>
     \<not> bms_overlap currentrelids (outer_relids rinfo) \<and>
     \<not> bms_overlap currentrelids (nullable_relids rinfo)"

fun indexed_quals_loop ::
    "(nat \<Rightarrow> rinfo_data) \<Rightarrow> Relids \<Rightarrow> Relids \<Rightarrow> Node list \<Rightarrow> Node list \<Rightarrow> bool \<Rightarrow> bool" where
  "indexed_quals_loop rinfos innerrelids joinrelids indexclauses [] found_one = found_one"
| "indexed_quals_loop rinfos innerrelids joinrelids indexclauses (rinfo # l) found_one =
     (if join_clause_is_movable_into (rinfos (rinfo_address rinfo)) innerrelids joinrelids then
        (if \<not> (list_member_ptr indexclauses rinfo \<or>
               is_redundant_derived_clause (\<lambda>a. rinfo_parent_ec (rinfos a)) rinfo indexclauses)
         then False
         else indexed_quals_loop rinfos innerrelids joinrelids indexclauses l True)
      else indexed_quals_loop rinfos innerrelids joinrelids indexclauses l found_one)"

text \<open>The clauses of the index scan or simple bitmap scan below, looked up by casts.\<close>

definition inner_indexclauses :: "Path \<Rightarrow> Node list option" where
  "inner_indexclauses innerpath =
     (case (pathtype innerpath, path_node innerpath) of
        (T_IndexScan, T_IndexPath indexclauses) \<Rightarrow> Some indexclauses
      | (T_IndexOnlyScan, T_IndexPath indexclauses) \<Rightarrow> Some indexclauses
      | (T_BitmapHeapScan, T_BitmapHeapPath bmqual) \<Rightarrow> bmqual
      | _ \<Rightarrow> None)"

definition has_indexed_join_quals :: "(nat \<Rightarrow> rinfo_data) \<Rightarrow> JoinPath \<Rightarrow> bool" where
  "has_indexed_join_quals rinfos joinpath =
     (let innerpath = innerjoinpath joinpath
      in if joinrestrictinfo joinpath \<noteq> [] then False
         else case param_info innerpath of
           None \<Rightarrow> False
         | Some ppi \<Rightarrow>
             (case inner_indexclauses innerpath of
                None \<Rightarrow> False
              | Some indexclauses \<Rightarrow>
                  indexed_quals_loop rinfos (relids (parent innerpath)) (relids (parent joinpath)) indexclauses
                    (ppi_clauses ppi) False))"

text \<open>Row counts that are zero or not a number count as one row.\<close>

definition protect_rows :: "double \<Rightarrow> double" where
  "protect_rows n = (if n \<le> 0 \<or> is_nan n then fl 1 else n)"

text \<open>The row estimate of a join path, scaled for partial paths.\<close>

definition join_rows :: "'a Path_scheme \<Rightarrow> double" where
  "join_rows path =
     (let n = path_rows (parent path) (param_info path)
      in if parallel_workers path > 0 then clamp_row_est (n / get_parallel_divisor path) else n)"

definition first_match_only :: "JoinType \<Rightarrow> JoinPathExtraData \<Rightarrow> bool" where
  "first_match_only jt extra \<longleftrightarrow> jt = JOIN_SEMI \<or> jt = JOIN_ANTI \<or> inner_unique extra"

subsection \<open>Nested loop\<close>

definition initial_cost_nestloop ::
    "gucs \<Rightarrow> JoinCostWorkspace \<Rightarrow> JoinType \<Rightarrow> Path \<Rightarrow> Path \<Rightarrow> JoinPathExtraData \<Rightarrow> JoinCostWorkspace" where
  "initial_cost_nestloop g workspace jt outer_path inner_path extra =
     (let outer_path_rows = rows outer_path;
          (inner_rescan_start_cost, inner_rescan_total_cost) = cost_rescan g inner_path;
          startup0 = 0 + (startup_cost outer_path + startup_cost inner_path);
          run0 = 0 + (total_cost outer_path - startup_cost outer_path);
          run1 = (if outer_path_rows > fl 1 then run0 + (outer_path_rows - fl 1) * inner_rescan_start_cost else run0);
          inner_run_cost = total_cost inner_path - startup_cost inner_path;
          inner_rescan_run_cost = inner_rescan_total_cost - inner_rescan_start_cost;
          (run2, ws) =
            (if first_match_only jt extra then
               (run1, workspace\<lparr> ws_inner_run_cost := inner_run_cost, ws_inner_rescan_run_cost := inner_rescan_run_cost \<rparr>)
             else
               (if outer_path_rows > fl 1
                then run1 + inner_run_cost + (outer_path_rows - fl 1) * inner_rescan_run_cost
                else run1 + inner_run_cost, workspace))
      in ws\<lparr> ws_startup_cost := startup0, ws_total_cost := startup0 + run2, ws_run_cost := run2,
             ws_io_cost := 0 + ((outer_path_rows - fl 1) + (rows inner_path - fl 1)),
             ws_cpu_cost := 0, ws_power_cost := 0 \<rparr>)"

text \<open>The tuples processed, the run cost and the page accesses when the executor stops after the first
  match.\<close>

definition first_match_nestloop ::
    "JoinCostWorkspace \<Rightarrow> SemiAntiJoinFactors \<Rightarrow> bool \<Rightarrow> double \<Rightarrow> double \<Rightarrow> double \<times> Cost \<times> Cost" where
  "first_match_nestloop ws sf indexed outer_path_rows inner_path_rows =
     (let inner_run_cost = ws_inner_run_cost ws;
          inner_rescan_run_cost = ws_inner_rescan_run_cost ws;
          outer_matched_rows = rint_d (outer_path_rows * outer_match_frac sf);
          outer_unmatched_rows = outer_path_rows - outer_matched_rows;
          inner_scan_frac = fl 2 / (match_count sf + fl 1);
          ntuples = outer_matched_rows * inner_path_rows * inner_scan_frac
      in if indexed then
           let run0 = ws_run_cost ws + inner_run_cost * inner_scan_frac;
               run1 = (if outer_matched_rows > fl 1
                       then run0 + (outer_matched_rows - fl 1) * inner_rescan_run_cost * inner_scan_frac else run0);
               io0 = ws_io_cost ws + (outer_matched_rows - fl 1);
               run2 = run1 + outer_unmatched_rows * inner_rescan_run_cost / inner_path_rows;
               io1 = io0 + (outer_path_rows - outer_matched_rows)
           in (ntuples, run2, io1)
         else
           let run0 = ws_run_cost ws + inner_run_cost;
               (unmatched, matched) =
                 (if outer_unmatched_rows \<ge> fl 1 then (outer_unmatched_rows - fl 1, outer_matched_rows)
                  else (outer_unmatched_rows, outer_matched_rows - fl 1));
               (run1, io1) =
                 (if matched > 0
                  then (run0 + matched * inner_rescan_run_cost * inner_scan_frac, ws_io_cost ws + (matched - fl 1))
                  else (run0, ws_io_cost ws));
               (run2, io2) =
                 (if unmatched > 0 then (run1 + unmatched * inner_rescan_run_cost, io1 + (outer_path_rows - matched))
                  else (run1, io1))
           in (ntuples + outer_unmatched_rows * inner_path_rows, run2, io2))"

definition final_cost_nestloop ::
    "gucs \<Rightarrow> PlannerInfo \<Rightarrow> (nat \<Rightarrow> rinfo_data) \<Rightarrow> JoinPath \<Rightarrow> JoinCostWorkspace \<Rightarrow> JoinPathExtraData \<Rightarrow> JoinPath planner" where
  "final_cost_nestloop g proot rinfos path ws extra =
     (let outer_path_rows = protect_rows (rows (outerjoinpath path));
          inner_path_rows = protect_rows (rows (innerjoinpath path));
          rows0 = join_rows path;
          startup0 = disabled g (enable_nestloop g) (ws_startup_cost ws);
          (ntuples, run0, io) =
            (if first_match_only (jointype path) extra
             then first_match_nestloop ws (semifactors extra) (has_indexed_join_quals rinfos path) outer_path_rows inner_path_rows
             else (outer_path_rows * inner_path_rows, ws_run_cost ws, ws_io_cost ws))
      in pbind (cost_qual_eval g (catalogs proot) (joinrestrictinfo path)) (\<lambda>restrict_qual_cost.
         let startup1 = startup0 + startup restrict_qual_cost + startup (tlist_cost path);
             cpu_per_tuple = cpu_tuple_cost g + per_tuple restrict_qual_cost;
             run1 = run0 + cpu_per_tuple * ntuples + per_tuple (tlist_cost path) * rows0;
             cpu = ws_cpu_cost ws + cpu_per_tuple * ntuples
         in preturn (set_power io cpu run1 (parallel_workers path) (set_costs rows0 startup1 (startup1 + run1) path))))"

subsection \<open>Merge join\<close>

definition cached_scansel ::
    "estimators \<Rightarrow> (PathKey \<Rightarrow> pathkey_data) \<Rightarrow> Node \<Rightarrow> PathKey \<Rightarrow> scansel_cache \<Rightarrow> scansel_cache \<times> MergeScanSelCache" where
  "cached_scansel est pks rinfo pathkey cache =
     (let pk = pks pathkey; a = rinfo_address rinfo
      in case find (\<lambda>c. sc_opfamily c = pk_opfamily pk \<and> sc_collation c = ec_collation pk \<and>
                        sc_strategy c = pk_strategy pk \<and> sc_nulls_first c = pk_nulls_first pk) (cache a) of
           Some c \<Rightarrow> (cache, c)
         | None \<Rightarrow>
             (case mergejoinscansel est (clause rinfo) (pk_opfamily pk) (pk_strategy pk) (pk_nulls_first pk) of
                (ls, le, rs, re) \<Rightarrow>
                  let c = \<lparr> sc_opfamily = pk_opfamily pk, sc_collation = ec_collation pk, sc_strategy = pk_strategy pk,
                            sc_nulls_first = pk_nulls_first pk, leftstartsel = ls, leftendsel = le,
                            rightstartsel = rs, rightendsel = re \<rparr>
                  in (cache(a := cache a @ [c]), c)))"

text \<open>The fractions of the inputs that are scanned: start and end of the outer, start and end of the inner
  input.\<close>

definition merge_scan_fractions ::
    "estimators \<Rightarrow> (PathKey \<Rightarrow> pathkey_data) \<Rightarrow> JoinType \<Rightarrow> Node list \<Rightarrow> Path \<Rightarrow> Path \<Rightarrow> PathKey list \<Rightarrow> PathKey list \<Rightarrow>
     scansel_cache \<Rightarrow> (scansel_cache \<times> Selectivity \<times> Selectivity \<times> Selectivity \<times> Selectivity) ereport" where
  "merge_scan_fractions est pks jt mergeclauses outer_path inner_path outerkeys innerkeys cache =
     (case mergeclauses of
        firstclause # _ \<Rightarrow>
          if jt = JOIN_FULL then Inr (cache, 0, fl 1, 0, fl 1)
          else
            (case (if outerkeys \<noteq> [] then outerkeys else pathkeys outer_path,
                   if innerkeys \<noteq> [] then innerkeys else pathkeys inner_path) of
               (opathkey # _, ipathkey # _) \<Rightarrow>
                 if pks opathkey \<noteq> pks ipathkey then Inl ''left and right pathkeys do not match in mergejoin''
                 else
                   let (cache', c) = cached_scansel est pks firstclause opathkey cache;
                       (ostart, oend, istart, iend) =
                         (if bms_is_subset (left_relids firstclause) (relids (parent outer_path))
                          then (leftstartsel c, leftendsel c, rightstartsel c, rightendsel c)
                          else (rightstartsel c, rightendsel c, leftstartsel c, leftendsel c))
                   in Inr (cache',
                        if jt = JOIN_LEFT \<or> jt = JOIN_ANTI then (0, fl 1, istart, iend)
                        else if jt = JOIN_RIGHT then (ostart, oend, 0, fl 1)
                        else (ostart, oend, istart, iend))
             | _ \<Rightarrow> Inl ''null pointer'')
      | [] \<Rightarrow> Inr (cache, 0, fl 1, 0, fl 1))"

text \<open>The startup and total cost of an input, sorted if there are sort keys.\<close>

definition merge_input :: "gucs \<Rightarrow> Path \<Rightarrow> PathKey list \<Rightarrow> double \<Rightarrow> Cost \<times> Cost" where
  "merge_input g path sortkeys path_rws =
     (if sortkeys \<noteq> [] then
        let sort_path = cost_sort g path (total_cost path) path_rws (target_width (pathtarget path)) 0 (work_mem g) (fl (- 1))
        in (startup_cost sort_path, total_cost sort_path)
      else (startup_cost path, total_cost path))"

text \<open>The first phase once the scanned fractions are known.\<close>

definition start_mergejoin ::
    "gucs \<Rightarrow> JoinCostWorkspace \<Rightarrow> Path \<Rightarrow> Path \<Rightarrow> PathKey list \<Rightarrow> PathKey list \<Rightarrow>
     Selectivity \<Rightarrow> Selectivity \<Rightarrow> Selectivity \<Rightarrow> Selectivity \<Rightarrow> JoinCostWorkspace" where
  "start_mergejoin g workspace outer_path inner_path outerkeys innerkeys ostart oend istart iend =
     (let outer_path_rows = protect_rows (rows outer_path);
          inner_path_rows = protect_rows (rows inner_path);
          outer_skip_rows = rint_d (outer_path_rows * ostart);
          inner_skip_rows = rint_d (inner_path_rows * istart);
          outer_rows = clamp_row_est (outer_path_rows * oend);
          inner_rows = clamp_row_est (inner_path_rows * iend);
          outerstartsel = outer_skip_rows / outer_path_rows;
          innerstartsel = inner_skip_rows / inner_path_rows;
          outerendsel = outer_rows / outer_path_rows;
          innerendsel = inner_rows / inner_path_rows;
          (outer_start, outer_tot) = merge_input g outer_path outerkeys outer_path_rows;
          (inner_start, inner_tot) = merge_input g inner_path innerkeys inner_path_rows;
          startup0 = 0 + outer_start + (outer_tot - outer_start) * outerstartsel;
          run = 0 + (outer_tot - outer_start) * (outerendsel - outerstartsel);
          startup1 = startup0 + inner_start + (inner_tot - inner_start) * innerstartsel;
          inner_run = (inner_tot - inner_start) * (innerendsel - innerstartsel)
      in workspace\<lparr>
           ws_startup_cost := startup1, ws_total_cost := startup1 + run + inner_run, ws_run_cost := run,
           ws_inner_run_cost := inner_run, ws_outer_rows := outer_rows, ws_inner_rows := inner_rows,
           ws_outer_skip_rows := outer_skip_rows, ws_inner_skip_rows := inner_skip_rows,
           ws_io_cost := 0 + (outerendsel - outerstartsel) + (innerendsel - innerstartsel),
           ws_cpu_cost := 0, ws_power_cost := 0 \<rparr>)"

definition initial_cost_mergejoin ::
    "gucs \<Rightarrow> estimators \<Rightarrow> (PathKey \<Rightarrow> pathkey_data) \<Rightarrow> JoinCostWorkspace \<Rightarrow> JoinType \<Rightarrow> Node list \<Rightarrow> Path \<Rightarrow> Path \<Rightarrow>
     PathKey list \<Rightarrow> PathKey list \<Rightarrow> scansel_cache \<Rightarrow> (scansel_cache \<times> JoinCostWorkspace) ereport" where
  "initial_cost_mergejoin g est pks workspace jt mergeclauses outer_path inner_path outerkeys innerkeys cache =
     ebind (merge_scan_fractions est pks jt mergeclauses outer_path inner_path outerkeys innerkeys cache)
       (\<lambda>(cache', ostart, oend, istart, iend).
          Inr (cache', start_mergejoin g workspace outer_path inner_path outerkeys innerkeys ostart oend istart iend))"

fun ExecSupportsMarkRestore :: "NodeTag \<Rightarrow> path_node \<Rightarrow> bool" where
  "ExecSupportsMarkRestore tag node =
     (case tag of
        T_IndexScan \<Rightarrow> True | T_IndexOnlyScan \<Rightarrow> True | T_Material \<Rightarrow> True | T_Sort \<Rightarrow> True
      | T_CustomScan \<Rightarrow> (case node of T_CustomPath supports \<Rightarrow> supports | _ \<Rightarrow> False)
      | T_Result \<Rightarrow>
          (case node of T_ProjectionPath subtype subpath \<Rightarrow> ExecSupportsMarkRestore subtype subpath | _ \<Rightarrow> False)
      | _ \<Rightarrow> False)"

declare ExecSupportsMarkRestore.simps [simp del]

definition rescan_ratio :: "MergePath \<Rightarrow> bool \<Rightarrow> double \<Rightarrow> double \<Rightarrow> double" where
  "rescan_ratio path skip mergejointuples inner_path_rows =
     (let rescannedtuples =
            (if path_node (outerjoinpath path) = T_UniquePath \<or> skip then 0
             else let d = mergejointuples - inner_path_rows in if d < 0 then 0 else d)
      in fl 1 + rescannedtuples / inner_path_rows)"

definition choose_materialize :: "gucs \<Rightarrow> MergePath \<Rightarrow> bool \<Rightarrow> double \<Rightarrow> Cost \<Rightarrow> Cost \<Rightarrow> bool" where
  "choose_materialize g path skip inner_path_rows mat_inner_cost bare_inner_cost =
     (let inner_path = innerjoinpath path
      in if skip then False
         else if enable_material g \<and> mat_inner_cost < bare_inner_cost then True
         else if innersortkeys path = [] \<and> \<not> ExecSupportsMarkRestore (pathtype inner_path) (path_node inner_path) then True
         else if enable_material g \<and> innersortkeys path \<noteq> [] \<and>
                 relation_byte_size inner_path_rows (target_width (pathtarget inner_path)) > dbl (work_mem g * 1024) then True
         else False)"

text \<open>The second phase once the clause costs are known.\<close>

definition finish_mergejoin ::
    "gucs \<Rightarrow> estimators \<Rightarrow> MergePath \<Rightarrow> JoinCostWorkspace \<Rightarrow> JoinPathExtraData \<Rightarrow> QualCost \<Rightarrow> QualCost \<Rightarrow> MergePath" where
  "finish_mergejoin g est path ws extra merge_qual_cost all_qual_cost =
     (let inner_path_rows = protect_rows (rows (innerjoinpath path));
          rows0 = join_rows path;
          startup0 = disabled g (enable_mergejoin g) (ws_startup_cost ws);
          qp_startup = startup all_qual_cost - startup merge_qual_cost;
          qp_per_tuple = per_tuple all_qual_cost - per_tuple merge_qual_cost;
          skip = (first_match_only (jointype path) extra \<and>
                  length (joinrestrictinfo path) = length (path_mergeclauses path));
          mergejointuples = approx_tuple_count est path (path_mergeclauses path);
          rescanratio = rescan_ratio path skip mergejointuples inner_path_rows;
          bare_inner_cost = ws_inner_run_cost ws * rescanratio;
          mat_inner_cost = ws_inner_run_cost ws + cpu_operator_cost g * inner_path_rows * rescanratio;
          materialize = choose_materialize g path skip inner_path_rows mat_inner_cost bare_inner_cost;
          (run0, io) =
            (if materialize then (ws_run_cost ws + mat_inner_cost, ws_io_cost ws + inner_path_rows * rescanratio)
             else (ws_run_cost ws + bare_inner_cost, ws_io_cost ws + ws_io_cost ws * rescanratio));
          comparisons = per_tuple merge_qual_cost *
            ((ws_outer_rows ws - ws_outer_skip_rows ws) + (ws_inner_rows ws - ws_inner_skip_rows ws) * rescanratio);
          startup1 = startup0 + startup merge_qual_cost +
            per_tuple merge_qual_cost * (ws_outer_skip_rows ws + ws_inner_skip_rows ws * rescanratio)
            + qp_startup + startup (tlist_cost path);
          cpu_per_tuple = cpu_tuple_cost g + qp_per_tuple;
          cpu = ws_cpu_cost ws + comparisons + cpu_per_tuple * mergejointuples;
          run1 = run0 + comparisons + cpu_per_tuple * mergejointuples + per_tuple (tlist_cost path) * rows0
      in (set_power io cpu run1 0 (set_costs rows0 startup1 (startup1 + run1) path))
           \<lparr> power_cost := ws_power_cost ws + count_power_cost io cpu run1 0,
             skip_mark_restore := skip, materialize_inner := materialize \<rparr>)"

definition final_cost_mergejoin ::
    "gucs \<Rightarrow> PlannerInfo \<Rightarrow> estimators \<Rightarrow> MergePath \<Rightarrow> JoinCostWorkspace \<Rightarrow> JoinPathExtraData \<Rightarrow> MergePath planner" where
  "final_cost_mergejoin g proot est path ws extra =
     pbind (cost_qual_eval g (catalogs proot) (path_mergeclauses path)) (\<lambda>merge_qual_cost.
     pbind (cost_qual_eval g (catalogs proot) (joinrestrictinfo path)) (\<lambda>all_qual_cost.
       preturn (finish_mergejoin g est path ws extra merge_qual_cost all_qual_cost)))"

subsection \<open>Hash join\<close>

definition initial_cost_hashjoin ::
    "gucs \<Rightarrow> JoinCostWorkspace \<Rightarrow> Node list \<Rightarrow> Path \<Rightarrow> Path \<Rightarrow> JoinCostWorkspace" where
  "initial_cost_hashjoin g workspace hashclauses outer_path inner_path =
     (let outer_path_rows = rows outer_path;
          inner_path_rows = rows inner_path;
          num_hashclauses = dbl (int (length hashclauses));
          startup0 = 0 + startup_cost outer_path;
          run0 = 0 + (total_cost outer_path - startup_cost outer_path);
          startup1 = startup0 + total_cost inner_path
            + (cpu_operator_cost g * num_hashclauses + cpu_tuple_cost g) * inner_path_rows;
          hashing = cpu_operator_cost g * num_hashclauses * outer_path_rows;
          run1 = run0 + hashing;
          cpu = 0 + hashing;
          (numbuckets, numbatches, num_skew_mcvs) =
            ExecChooseHashTableSize g inner_path_rows (target_width (pathtarget inner_path)) True;
          (startup2, run2, io) =
            (if numbatches > 1 then
               let outerpages = page_size outer_path_rows (target_width (pathtarget outer_path));
                   innerpages = page_size inner_path_rows (target_width (pathtarget inner_path))
               in (startup1 + seq_page_cost g * innerpages,
                   run1 + seq_page_cost g * (innerpages + fl 2 * outerpages),
                   0 + (innerpages + (innerpages + fl 2 * outerpages)))
             else (startup1, run1, 0))
      in workspace\<lparr> ws_startup_cost := startup2, ws_total_cost := startup2 + run2, ws_run_cost := run2,
           ws_numbuckets := numbuckets, ws_numbatches := numbatches,
           ws_io_cost := io, ws_cpu_cost := cpu, ws_power_cost := 0 \<rparr>)"

fun get_leftop :: "Node \<Rightarrow> Node option" where
  "get_leftop (OpExpr _ _ (a # _)) = Some a"
| "get_leftop (DistinctExpr _ _ (a # _)) = Some a"
| "get_leftop (NullIfExpr _ _ (a # _)) = Some a"
| "get_leftop _ = None"

fun get_rightop :: "Node \<Rightarrow> Node option" where
  "get_rightop (OpExpr _ _ (_ # b # _)) = Some b"
| "get_rightop (DistinctExpr _ _ (_ # b # _)) = Some b"
| "get_rightop (NullIfExpr _ _ (_ # b # _)) = Some b"
| "get_rightop _ = None"

text \<open>The least bucket size estimated for a hash clause, through the cache in the clauses.\<close>

definition clause_bucketsize ::
    "estimators \<Rightarrow> double \<Rightarrow> Relids \<Rightarrow> Node \<Rightarrow> bucket_cache \<Rightarrow> bucket_cache \<times> Selectivity" where
  "clause_bucketsize est virtualbuckets inner_relids rinfo cache =
     (let a = rinfo_address rinfo; (left_bucketsize, right_bucketsize) = cache a
      in if bms_is_subset (right_relids rinfo) inner_relids then
           (if right_bucketsize < 0 then
              let b = estimate_hash_bucketsize est (get_rightop (clause rinfo)) virtualbuckets
              in (cache(a := (left_bucketsize, b)), b)
            else (cache, right_bucketsize))
         else
           (if left_bucketsize < 0 then
              let b = estimate_hash_bucketsize est (get_leftop (clause rinfo)) virtualbuckets
              in (cache(a := (b, right_bucketsize)), b)
            else (cache, left_bucketsize)))"

fun bucketsize_loop ::
    "estimators \<Rightarrow> double \<Rightarrow> Relids \<Rightarrow> Node list \<Rightarrow> Selectivity \<Rightarrow> bucket_cache \<Rightarrow> bucket_cache \<times> Selectivity" where
  "bucketsize_loop est virtualbuckets inner_relids [] innerbucketsize cache = (cache, innerbucketsize)"
| "bucketsize_loop est virtualbuckets inner_relids (rinfo # l) innerbucketsize cache =
     (case clause_bucketsize est virtualbuckets inner_relids rinfo cache of
        (cache', thisbucketsize) \<Rightarrow>
          bucketsize_loop est virtualbuckets inner_relids l
            (if innerbucketsize > thisbucketsize then thisbucketsize else innerbucketsize) cache')"

text \<open>The cost of comparing hash clauses, and the tuples that pass them.\<close>

definition hash_comparisons ::
    "estimators \<Rightarrow> HashPath \<Rightarrow> JoinPathExtraData \<Rightarrow> Cost \<Rightarrow> Selectivity \<Rightarrow> double \<Rightarrow> Cost \<Rightarrow> Cost \<times> double" where
  "hash_comparisons est path extra hash_per_tuple innerbucketsize virtualbuckets run0 =
     (let outer_path_rows = rows (outerjoinpath path);
          inner_path_rows = rows (innerjoinpath path)
      in if first_match_only (jointype path) extra then
           let outer_matched_rows = rint_d (outer_path_rows * outer_match_frac (semifactors extra));
               inner_scan_frac = fl 2 / (match_count (semifactors extra) + fl 1);
               run1 = run0 + hash_per_tuple * outer_matched_rows *
                 clamp_row_est (inner_path_rows * innerbucketsize * inner_scan_frac) * fl 0.5;
               run2 = run1 + hash_per_tuple * (outer_path_rows - outer_matched_rows) *
                 clamp_row_est (inner_path_rows / virtualbuckets) * fl 0.05
           in (run2, if jointype path = JOIN_SEMI then outer_matched_rows else outer_path_rows - outer_matched_rows)
         else
           (run0 + hash_per_tuple * outer_path_rows * clamp_row_est (inner_path_rows * innerbucketsize) * fl 0.5,
            approx_tuple_count est path (path_hashclauses path)))"

definition final_cost_hashjoin ::
    "gucs \<Rightarrow> PlannerInfo \<Rightarrow> estimators \<Rightarrow> HashPath \<Rightarrow> JoinCostWorkspace \<Rightarrow> JoinPathExtraData \<Rightarrow> bucket_cache \<Rightarrow>
     (bucket_cache \<times> HashPath) planner" where
  "final_cost_hashjoin g proot est path ws extra buckets =
     (let rows0 = join_rows path;
          startup0 = disabled g (enable_hashjoin g) (ws_startup_cost ws);
          virtualbuckets = dbl (ws_numbuckets ws) * dbl (ws_numbatches ws);
          (buckets', innerbucketsize) =
            (if path_node (innerjoinpath path) = T_UniquePath then (buckets, fl 1 / virtualbuckets)
             else bucketsize_loop est virtualbuckets (relids (parent (innerjoinpath path))) (path_hashclauses path) (fl 1) buckets)
      in pbind (cost_qual_eval g (catalogs proot) (path_hashclauses path)) (\<lambda>hash_qual_cost.
         pbind (cost_qual_eval g (catalogs proot) (joinrestrictinfo path)) (\<lambda>all_qual_cost.
         let qp_startup = startup all_qual_cost - startup hash_qual_cost;
             qp_per_tuple = per_tuple all_qual_cost - per_tuple hash_qual_cost;
             (run0, hashjointuples) =
               hash_comparisons est path extra (per_tuple hash_qual_cost) innerbucketsize virtualbuckets (ws_run_cost ws);
             startup1 = startup0 + startup hash_qual_cost + qp_startup + startup (tlist_cost path);
             cpu_per_tuple = cpu_tuple_cost g + qp_per_tuple;
             run1 = run0 + cpu_per_tuple * hashjointuples;
             cpu = ws_cpu_cost ws + (run1 - ws_run_cost ws);
             run2 = run1 + per_tuple (tlist_cost path) * rows0
         in preturn (buckets', (set_power (ws_io_cost ws) cpu run2 0 (set_costs rows0 startup1 (startup1 + run2) path))
              \<lparr> path_node := T_HashPath (ws_numbatches ws) \<rparr>))))"

end
