(* ===== verification/Join_Bounds.thy ===== *)
theory Join_Bounds
  imports Cost_Join
begin

text \<open>
  Facts about join costing: row counts and fractions of them, the two phases of nested loop, hash and merge
  join costing with the lower bounds that the first phase promises, the cost of some clauses subtracted from
  the cost of all, the caches in the clauses, and the choice to materialize the inner input of a merge join.
\<close>

subsection \<open>Row counts\<close>

text \<open>A whole number of rows (or an infinite one, or none at all).\<close>

definition whole :: "double \<Rightarrow> bool" where
  "whole n \<longleftrightarrow> rint_d n = n"

lemma whole_Fin: "whole (Fin a) \<longleftrightarrow> val a = of_int (rne (val a))"
  using rint_Fin [of a] by (auto simp: whole_def)

lemma whole_fl_1: "whole (fl 1)"
  using fl_eq_Fin [OF exact_one] rne_of_int [of 1] by (auto simp: whole_Fin)

lemma whole_rint: "whole (rint_d x)"
proof (cases x)
  case (Fin a)
  obtain c where "rint_d (Fin a) = Fin c" "val c = of_int (rne (val a))" using rint_Fin by blast
  then show ?thesis using Fin by (simp add: whole_Fin)
qed (simp_all add: whole_def)

lemma whole_clamp: "whole (clamp_row_est x)"
  by (simp add: clamp_row_est_def whole_fl_1 whole_rint)

lemma whole_fl_int: "whole (fl (of_int k))"
proof (cases "\<bar>k\<bar> \<le> 2 ^ 53")
  case True
  then obtain a where "fl (of_int k) = Fin a" "val a = of_int k" using fl_eq_Fin [OF exact_of_int] by blast
  then show ?thesis by (simp add: whole_Fin)
next
  case False
  have two53: "rnd (of_int (2 ^ 53)) = of_int (2 ^ 53)" by (rule rnd_f64 [OF exact_of_int]) simp
  have large: "2 ^ 53 \<le> \<bar>rnd (of_int k)\<bar>"
  proof (cases "0 \<le> k")
    case True
    then have "of_int (2 ^ 53) \<le> rnd (of_int k)" using False two53 rnd_mono [of "of_int (2 ^ 53)" "of_int k"] by simp
    then show ?thesis by simp
  next
    case neg: False
    then have "of_int (2 ^ 53) \<le> rnd (- of_int k)" using False two53 rnd_mono [of "of_int (2 ^ 53)" "of_int (- k)"] by simp
    then show ?thesis by (simp add: rnd_minus)
  qed
  show ?thesis
  proof (cases "of_int k :: real" rule: fl_cases)
    case (fin a)
    then have a: "2 ^ 53 \<le> \<bar>val a\<bar>" using large by simp
    have "\<exists>i. val a = of_int i"
    proof (cases "\<bar>val a\<bar> = 2 ^ 53")
      case True
      then have "val a = of_int (2 ^ 53) \<or> val a = of_int (- (2 ^ 53))" by auto
      then show ?thesis by blast
    qed (use a f64_large_int [OF val [of a]] in simp)
    then show ?thesis using fin by (auto simp: whole_Fin)
  qed (simp_all add: whole_def)
qed

lemma minus_inf': "NaN - x = (NaN :: double)" "x - NaN = (NaN :: double)" "NInf - Fin b = NInf"
proof -
  show "NaN - x = (NaN :: double)" "x - NaN = (NaN :: double)" by (cases x; simp add: minus_double_def)+
  obtain c where "fl (- val b) = Fin c" using fl_eq_Fin [OF exact_neg [OF val [of b]]] by blast
  then show "NInf - Fin b = NInf" by (simp add: minus_double_def uminus_double_def)
qed

lemma minus_zero: "n - 0 = (n :: double)"
  using fl_eq_Fin [OF exact_zero] by (cases n) (auto simp: zero_double_def minus_inf minus_inf' minus_Fin)

lemma whole_minus_1: "whole n \<Longrightarrow> whole (n - fl 1)"
proof (cases n)
  case (Fin a)
  assume "whole n"
  then obtain i where i: "val a = of_int i" using Fin by (auto simp: whole_Fin)
  obtain e where e: "fl 1 = Fin e" "val e = 1" using fl_eq_Fin [OF exact_one] by blast
  have "n - fl 1 = fl (of_int (i - 1))" unfolding Fin e(1) minus_Fin using i e(2) by simp
  then show ?thesis by (simp only: whole_fl_int)
qed (use fl_eq_Fin [OF exact_one] in \<open>auto simp: minus_inf minus_inf' whole_def\<close>)

lemma whole_pos: "whole n \<Longrightarrow> 0 < n \<Longrightarrow> \<not> n < fl 1"
proof (cases n)
  case (Fin a)
  assume "whole n" "0 < n"
  then obtain i where "val a = of_int i" "0 < val a" using Fin by (auto simp: whole_Fin)
  then have "1 \<le> val a" by simp
  then show ?thesis using Fin fl_eq_Fin [OF exact_one] by (auto simp: less_double_def)
qed simp_all

lemma protect_rows_ok:
  assumes "nonneg n" "whole n"
  shows "nonneg (protect_rows n)" "whole (protect_rows n)" "\<not> is_nan (protect_rows n)" "0 < protect_rows n"
  using assms dnot_less [of 0 n] by (auto simp: protect_rows_def nonneg_fl whole_fl_1 float_eval)

lemma rint_mono: "x \<le> y \<Longrightarrow> rint_d x \<le> rint_d y"
proof (cases x; cases y)
  fix a b assume "x \<le> y" and xy: "x = Fin a" "y = Fin b"
  then have "rne (val a) \<le> rne (val b)" by (auto intro: rne_mono simp: less_eq_double_def)
  then show ?thesis using rint_Fin [of a] rint_Fin [of b] xy by (auto simp: less_eq_double_def)
next
  fix a assume "x = Fin a" "y = PInf"
  then show ?thesis using rint_Fin [of a] by (auto simp: less_eq_double_def)
next
  fix b assume "x = NInf" "y = Fin b"
  then show ?thesis using rint_Fin [of b] by (auto simp: less_eq_double_def)
qed (auto simp: less_eq_double_def)

text \<open>The rows of a fraction are no more than the rows, once rounded.\<close>

lemma fraction_rows:
  assumes "nonneg n" "whole n" "between 0 1 f"
  shows "nonneg (rint_d (n * f))" "\<not> n < rint_d (n * f)"
proof -
  show "nonneg (rint_d (n * f))" using assms by (intro nonneg_rint nonneg_mult) (auto simp: between_def)
  obtain c where c: "f = Fin c" "0 \<le> val c" "val c \<le> 1" using assms(3) by (auto simp: between_def)
  show "\<not> n < rint_d (n * f)"
  proof (cases n)
    case (Fin a)
    then have "val a * val c \<le> val a" using c assms(1) mult_left_mono [of "val c" 1 "val a"] by simp
    then have "fl (val a * val c) \<le> n" using fl_mono [of _ "val a"] Fin by simp
    from rint_mono [OF this] have "rint_d (n * f) \<le> n" using Fin c assms(2) by (simp add: times_double_def whole_def)
    then show ?thesis by (metis dless_not_le)
  qed (use assms(1) in simp_all)
qed

text \<open>Costs that only grow.\<close>

definition reaches :: "double \<Rightarrow> double \<Rightarrow> bool" where
  "reaches s t \<longleftrightarrow> \<not> t < s"

lemma reaches_refl: "reaches s s"
  by (simp add: reaches_def)

lemma reaches_add: "reaches s t \<Longrightarrow> nonneg a \<Longrightarrow> reaches s (t + a)"
  unfolding reaches_def by (rule grows)

lemma reaches_sum: "reaches s t \<Longrightarrow> reaches s' t' \<Longrightarrow> reaches (s + s') (t + t')"
  unfolding reaches_def by (rule dadd_mono_not_less)

subsection \<open>Nested loops\<close>

text \<open>Estimates of matches: a fraction of the outer rows, and a number of inner rows.\<close>

definition factors_ok :: "SemiAntiJoinFactors \<Rightarrow> bool" where
  "factors_ok sf \<longleftrightarrow> between 0 1 (outer_match_frac sf) \<and> nonneg (match_count sf)"

lemma nonneg_pos: "0 < x \<Longrightarrow> nonneg x"
  by (simp add: nonneg_def dless_asym)

lemma nonneg_not_below_1: "\<not> n < fl 1 \<Longrightarrow> nonneg n"
proof -
  have "(0::double) < fl 1" by (simp add: float_eval)
  then show "\<not> n < fl 1 \<Longrightarrow> nonneg n" unfolding nonneg_def using dless_trans by blast
qed

lemma nonneg_scan_frac: "nonneg c \<Longrightarrow> nonneg (fl 2 / (c + fl 1))"
  by (intro nonneg_divide nonneg_add nonneg_fl) simp_all

lemma nonneg_less_1: "fl 1 < x \<Longrightarrow> nonneg (x - fl 1)" "fl 1 \<le> x \<Longrightarrow> nonneg (x - fl 1)"
  by (rule nonneg_minus, metis dless_asym, rule nonneg_minus, metis dless_not_le)

lemma first_match_io:
  assumes "nonneg io0" "nonneg m" "whole m" "\<not> n < m" "\<not> n < fl 1"
  shows "nonneg (io0 + (m - fl 1) + (n - m))"
proof (cases "0 < m")
  case True
  then have "nonneg (m - fl 1)" using whole_pos [OF assms(3)] by (intro nonneg_minus)
  moreover have "nonneg (n - m)" using assms(4) by (rule nonneg_minus)
  ultimately show ?thesis using assms(1) by (intro nonneg_add)
next
  case False
  show ?thesis
  proof (cases "is_nan m")
    case True
    then show ?thesis by (cases io0) (simp_all add: is_nan_iff minus_inf' plus_double_def)
  next
    case nn: False
    then have "0 \<le> m" using assms(2) by (intro nonneg_not_nan)
    moreover have "m \<le> 0" using False nn dnot_less [of 0 m] by (simp add: zero_double_def)
    ultimately have "m = 0" by (metis dantisym)
    have e: "0 + fl (- 1) + fl 1 = (0 :: double)" by (simp add: float_eval)
    have "\<not> io0 + fl (- 1) + n < 0 + fl (- 1) + fl 1"
      using assms(1,5) by (intro dadd_mono_not_less) (simp_all add: nonneg_def)
    moreover have "0 - fl 1 = fl (- 1)" by (simp add: float_eval)
    ultimately show ?thesis unfolding \<open>m = 0\<close> e by (simp only: minus_zero nonneg_def simp_thms)
  qed
qed

lemma less_minus_1: "n < m - fl 1 \<Longrightarrow> n < m"
proof (cases m)
  case (Fin a)
  assume n: "n < m - fl 1"
  obtain e where e: "fl 1 = Fin e" "val e = 1" using fl_eq_Fin [OF exact_one] by blast
  have "m - fl 1 \<le> m" unfolding Fin e(1) minus_Fin using fl_mono [of "val a - val e" "val a"] e(2) by simp
  then show ?thesis using n dless_le_trans by blast
qed (use fl_eq_Fin [OF exact_one] in \<open>auto simp: minus_inf minus_inf'\<close>)

lemma first_match_nestloop_ok:
  assumes "nonneg (ws_inner_run_cost ws)" "nonneg (ws_inner_rescan_run_cost ws)" "nonneg (ws_run_cost ws)"
    and "nonneg (ws_io_cost ws)" "factors_ok sf" "\<not> n < fl 1" "whole n" "nonneg n'"
    and r: "first_match_nestloop ws sf indexed n n' = (ntuples, run, io)"
  shows "nonneg ntuples \<and> nonneg run \<and> reaches (ws_run_cost ws) run \<and> nonneg io"
proof -
  define m where "m = rint_d (n * outer_match_frac sf)"
  define frac where "frac = fl 2 / (match_count sf + fl 1)"
  define u where "u = n - m"
  have f: "between 0 1 (outer_match_frac sf)" "nonneg frac"
    using assms(5) by (simp_all add: factors_ok_def frac_def nonneg_scan_frac)
  have n: "nonneg n" using assms(6) by (rule nonneg_not_below_1)
  have m: "nonneg m" "\<not> n < m" "whole m" using fraction_rows [OF n assms(7) f(1)] by (simp_all add: m_def whole_rint)
  then have u: "nonneg u" unfolding u_def by (intro nonneg_minus)
  note facts = assms(1-4,8) m(1) u f(2)
  note split = r [unfolded first_match_nestloop_def Let_def, folded m_def frac_def, folded u_def]
  have "nonneg ntuples"
    using split by (cases indexed) (auto intro!: nonneg_intros facts split: prod.splits)
  moreover have "nonneg run"
    using split by (cases indexed) (auto intro!: nonneg_add nonneg_mult nonneg_divide facts
        dest: nonneg_pos nonneg_less_1 split: prod.splits if_splits)
  moreover have "reaches (ws_run_cost ws) run"
    using split by (cases indexed) (auto intro!: reaches_refl reaches_add nonneg_mult nonneg_divide facts
        dest: nonneg_pos nonneg_less_1 split: prod.splits if_splits)
  moreover have "nonneg io"
  proof (cases indexed)
    case True
    then have "io = ws_io_cost ws + (m - fl 1) + (n - m)" using split by (auto simp: u_def)
    then show ?thesis using assms(4,6) m by (simp add: first_match_io)
  next
    case False
    have "nonneg (k - fl 1)" if "0 < k" "whole k" for k using that by (intro nonneg_minus whole_pos)
    then show ?thesis using split False m whole_minus_1
      by (auto intro!: nonneg_add facts dest: less_minus_1 intro: nonneg_minus split: prod.splits if_splits)
  qed
  ultimately show ?thesis by simp
qed

definition rows_ok :: "double \<Rightarrow> bool" where
  "rows_ok n \<longleftrightarrow> whole n \<and> \<not> n < fl 1"

text \<open>What a join relies on: inputs with sane costs and clamped row counts, clauses that can be costed,
  and an estimate of the join's own rows.\<close>

definition input_ok :: "Path \<Rightarrow> bool" where
  "input_ok p \<longleftrightarrow> sane_costs p \<and> rows_ok (rows p) \<and> 0 \<le> target_width (pathtarget p)"

definition join_ok :: "gucs \<Rightarrow> PlannerInfo \<Rightarrow> (nat \<Rightarrow> Node) \<Rightarrow> 'a JoinPath_scheme \<Rightarrow> bool" where
  "join_ok g proot mem path \<longleftrightarrow> gucs_ok g \<and> catalog_ok (catalogs proot) \<and> clauses_ok mem (joinrestrictinfo path) \<and>
     input_ok (outerjoinpath path) \<and> input_ok (innerjoinpath path) \<and> target_ok path \<and>
     nonneg (path_rows (parent path) (param_info path))"

lemma input_okD:
  assumes "input_ok p"
  shows "nonneg (rows p)" "nonneg (startup_cost p)" "nonneg (total_cost p)" "\<not> total_cost p < startup_cost p"
    "whole (rows p)" "\<not> rows p < fl 1" "0 \<le> target_width (pathtarget p)" "nonneg (total_cost p - startup_cost p)"
    "nonneg (rows p - fl 1)"
  using assms saneD nonneg_minus unfolding input_ok_def rows_ok_def by blast+

lemma join_okD:
  assumes "join_ok g proot mem path"
  shows "gucs_ok g" "catalog_ok (catalogs proot)" "clauses_ok mem (joinrestrictinfo path)"
    "input_ok (outerjoinpath path)" "input_ok (innerjoinpath path)"
    "qual_nonneg (tlist_cost path)" "0 \<le> parallel_workers path" "nonneg (path_rows (parent path) (param_info path))"
  using assms unfolding join_ok_def target_ok_def by blast+

lemma protect_rows_id: "\<not> n < fl 1 \<Longrightarrow> \<not> is_nan n \<Longrightarrow> protect_rows n = n"
proof -
  assume n: "\<not> n < fl 1" "\<not> is_nan n"
  have z: "0 < fl 1" by (simp add: float_eval)
  have "\<not> n \<le> 0" using n(1) dle_less_trans [OF _ z] by blast
  then show ?thesis using n by (simp add: protect_rows_def)
qed

lemma protect_rows_input:
  assumes "input_ok p"
  shows "nonneg (protect_rows (rows p))" "whole (protect_rows (rows p))" "\<not> protect_rows (rows p) < fl 1"
    "0 < protect_rows (rows p)" "\<not> is_nan (protect_rows (rows p))"
proof -
  note f = input_okD [OF assms]
  show "nonneg (protect_rows (rows p))" "whole (protect_rows (rows p))" "0 < protect_rows (rows p)"
    "\<not> is_nan (protect_rows (rows p))"
    using protect_rows_ok [OF f(1,5)] by blast+
  then show "\<not> protect_rows (rows p) < fl 1" by (intro whole_pos)
qed

lemma nonneg_join_rows: "0 \<le> parallel_workers p \<Longrightarrow> nonneg (path_rows (parent p) (param_info p)) \<Longrightarrow> nonneg (join_rows p)"
  unfolding join_rows_def Let_def by (auto intro!: nonneg_intros)

lemma cost_rescan_ok:
  assumes "gucs_ok g" "input_ok p" "cost_rescan g p = (s, t)"
  shows "nonneg s" "nonneg (t - s)"
proof -
  note f = input_okD [OF assms(2)]
  have spill: "nonneg k" if "spill_pages g (rows p) (target_width (pathtarget p)) = Some k" for k
    using spill_pages_nonneg [OF that f(7,1)] .
  have reread: "nonneg (case spill_pages g (rows p) (target_width (pathtarget p)) of
      Some k \<Rightarrow> c + seq_page_cost g * k | None \<Rightarrow> c)" if "nonneg c" for c
    using that assms(1) spill by (auto split: option.split intro!: nonneg_intros)
  note facts = f(2,8) nonneg_zero reread nonneg_mult gucs_okD [OF assms(1)] f(1)
  show "nonneg s" "nonneg (t - s)"
    using assms(3) facts unfolding cost_rescan_def Let_def
    by (cases "pathtype p"; auto simp: minus_zero split: if_splits)+
qed

text \<open>Sane costs that the preliminary estimates bound from below.\<close>

definition bounded_by :: "JoinCostWorkspace \<Rightarrow> 'a Path_scheme \<Rightarrow> bool" where
  "bounded_by ws p \<longleftrightarrow> sane_costs p \<and> reaches (ws_startup_cost ws) (startup_cost p) \<and>
     reaches (ws_total_cost ws) (total_cost p)"

lemma bounded_by_set:
  assumes "nonneg r" "nonneg s" "nonneg run" "nonneg io" "nonneg cpu"
    and "reaches (ws_startup_cost ws) s" "reaches (ws_run_cost ws) run"
    and "ws_total_cost ws = ws_startup_cost ws + ws_run_cost ws"
  shows "bounded_by ws (set_power io cpu run' wh (set_costs r s (s + run) p))"
  using sane_sum [OF assms(1-5)] reaches_sum [OF assms(6,7)] assms(6,8)
  by (simp add: bounded_by_def set_power_def set_costs_def)

lemma initial_nestloop_ok:
  assumes g: "gucs_ok g" and p: "input_ok outer" and q: "input_ok inner"
    and ws: "ws = initial_cost_nestloop g ws0 jt outer inner extra"
  shows "nonneg (ws_startup_cost ws)" "nonneg (ws_run_cost ws)" "nonneg (ws_io_cost ws)" "ws_cpu_cost ws = 0"
    "ws_total_cost ws = ws_startup_cost ws + ws_run_cost ws"
    "first_match_only jt extra \<Longrightarrow> nonneg (ws_inner_run_cost ws) \<and> nonneg (ws_inner_rescan_run_cost ws)"
proof -
  obtain s t where r: "cost_rescan g inner = (s, t)" by fastforce
  note facts = input_okD [OF p] input_okD [OF q] cost_rescan_ok [OF g q r]
  note unfolded = ws [unfolded initial_cost_nestloop_def r Let_def prod.case]
  show "nonneg (ws_startup_cost ws)"
    unfolding unfolded by (cases "first_match_only jt extra") (auto intro!: nonneg_add facts)
  show "nonneg (ws_run_cost ws)"
    unfolding unfolded by (cases "first_match_only jt extra") (auto intro!: nonneg_add nonneg_mult facts)
  show "nonneg (ws_io_cost ws)"
    unfolding unfolded by (cases "first_match_only jt extra") (auto intro!: nonneg_add facts)
  show "ws_cpu_cost ws = 0" "ws_total_cost ws = ws_startup_cost ws + ws_run_cost ws"
    unfolding unfolded by (cases "first_match_only jt extra"; simp)+
  show "nonneg (ws_inner_run_cost ws) \<and> nonneg (ws_inner_rescan_run_cost ws)" if "first_match_only jt extra"
    using that facts unfolding unfolded by simp
qed


lemma final_nestloop_ok:
  assumes ok: "join_ok g proot mem path" and sf: "first_match_only (jointype path) extra \<Longrightarrow> factors_ok (semifactors extra)"
    and ws: "ws = initial_cost_nestloop g ws0 (jointype path) (outerjoinpath path) (innerjoinpath path) extra"
  shows "yields (cache_ok g (catalogs proot) mem) (final_cost_nestloop g proot rinfos path ws extra)
    (bounded_by ws)"
proof -
  note j = join_okD [OF ok]
  note w = initial_nestloop_ok [OF j(1,4,5) ws]
  note po = protect_rows_input [OF j(4)] and pi = protect_rows_input [OF j(5)]
  obtain ntuples run io where r: "(if first_match_only (jointype path) extra
      then first_match_nestloop ws (semifactors extra) (has_indexed_join_quals rinfos path)
        (protect_rows (rows (outerjoinpath path))) (protect_rows (rows (innerjoinpath path)))
      else (protect_rows (rows (outerjoinpath path)) * protect_rows (rows (innerjoinpath path)), ws_run_cost ws, ws_io_cost ws))
    = (ntuples, run, io)"
    by (metis prod_cases3)
  have f: "nonneg ntuples \<and> nonneg run \<and> reaches (ws_run_cost ws) run \<and> nonneg io"
  proof (cases "first_match_only (jointype path) extra")
    case True
    then have e: "first_match_nestloop ws (semifactors extra) (has_indexed_join_quals rinfos path)
        (protect_rows (rows (outerjoinpath path))) (protect_rows (rows (innerjoinpath path))) = (ntuples, run, io)"
      using r by (simp only: if_True)
    show ?thesis using w(6) [OF True] sf [OF True] by (intro first_match_nestloop_ok [OF _ _ w(2,3) _ po(3,2) pi(1) e]) simp_all
  next
    case False
    then show ?thesis using r w(2,3) po(1) pi(1) by (auto intro!: nonneg_mult reaches_refl)
  qed
  note rows = nonneg_join_rows [OF j(7,8)]
  note facts = f [THEN conjunct1] f [THEN conjunct2, THEN conjunct1] f [THEN conjunct2, THEN conjunct2, THEN conjunct1]
    f [THEN conjunct2, THEN conjunct2, THEN conjunct2]
  have d: "reaches (ws_startup_cost ws) (disabled g e (ws_startup_cost ws))" for e
    using gucs_okD [OF j(1)] by (auto simp: disabled_def intro!: reaches_refl reaches_add)
  show ?thesis unfolding final_cost_nestloop_def Let_def r prod.case
  proof (rule yields_bind [OF cost_qual_eval_yields [OF j(1-3)]], rule yields_return)
    fix q assume q: "qual_nonneg q"
    note n = qual_nonnegD [OF q] qual_nonnegD [OF j(6)] gucs_okD [OF j(1)] facts rows w(1) nonneg_disabled [OF j(1)]
    let ?s = "disabled g (enable_nestloop g) (ws_startup_cost ws) + startup q + startup (tlist_cost path)"
    let ?r = "run + (cpu_tuple_cost g + per_tuple q) * ntuples + per_tuple (tlist_cost path) * join_rows path"
    have "reaches (ws_startup_cost ws) ?s" by (intro reaches_add d n)
    moreover have "reaches (ws_run_cost ws) ?r" by (intro reaches_add nonneg_mult nonneg_add n)
    moreover have "nonneg ?s" "nonneg ?r" "nonneg (ws_cpu_cost ws + (cpu_tuple_cost g + per_tuple q) * ntuples)"
      unfolding w(4) by (intro nonneg_add nonneg_mult nonneg_zero n)+
    ultimately show "bounded_by ws (set_power io (ws_cpu_cost ws + (cpu_tuple_cost g + per_tuple q) * ntuples) ?r
        (parallel_workers path) (set_costs (join_rows path) ?s (?s + ?r) path))"
      using w(5) facts(4) rows by (intro bounded_by_set)
  qed
qed

subsection \<open>The cost of some of the clauses\<close>

text \<open>One cost is up to another if it is at most the other, or the other is not a number.\<close>

definition upto_cost :: "double \<Rightarrow> double \<Rightarrow> bool" where
  "upto_cost a b \<longleftrightarrow> is_nan b \<or> a \<le> b"

definition qual_upto :: "QualCost \<Rightarrow> QualCost \<Rightarrow> bool" where
  "qual_upto q r \<longleftrightarrow> upto_cost (startup q) (startup r) \<and> upto_cost (per_tuple q) (per_tuple r)"

lemma add_nan: "is_nan (a + b) \<longleftrightarrow> is_nan a \<or> is_nan b" if "nonneg a" "nonneg b"
  using that by (cases a; cases b) (auto simp: plus_double_def)

lemma add_nan_right: "is_nan b \<Longrightarrow> is_nan (a + b)" "is_nan a \<Longrightarrow> is_nan (a + b)"
  by (cases a; cases b; simp add: plus_double_def)+

lemma upto_cost_add:
  assumes "upto_cost a b" "nonneg a" "nonneg b" "nonneg c"
  shows "upto_cost (a + c) (b + c)"
proof (cases "is_nan b \<or> is_nan c")
  case True
  then show ?thesis using add_nan_right by (auto simp: upto_cost_def)
next
  case False
  then have le: "a \<le> b" "c \<le> c" using assms(1) dle_refl by (auto simp: upto_cost_def)
  have "\<not> is_nan (a + c)" "\<not> is_nan (b + c)"
    using False le dle_not_nan add_nan assms(2-4) by blast+
  then show ?thesis using dadd_mono [OF le] dnot_less by (auto simp: upto_cost_def)
qed

lemma upto_cost_grow:
  assumes "upto_cost a b" "nonneg c"
  shows "upto_cost a (b + c)"
proof (cases "is_nan b \<or> is_nan (b + c)")
  case True
  then show ?thesis using add_nan_right by (auto simp: upto_cost_def)
next
  case False
  then have "a \<le> b" using assms(1) by (simp add: upto_cost_def)
  moreover have "b \<le> b + c" using False add_nonneg_not_less1 [OF assms(2), of b] dnot_less by blast
  ultimately show ?thesis using dle_trans by (auto simp: upto_cost_def)
qed

lemma upto_cost_minus: "upto_cost a b \<Longrightarrow> nonneg (b - a)"
proof -
  assume "upto_cost a b"
  then have "\<not> b < a" by (auto simp: upto_cost_def is_nan_iff dest: dless_not_le)
  then show ?thesis by (rule nonneg_minus)
qed

lemma qual_upto_add:
  "qual_upto q r \<Longrightarrow> qual_nonneg q \<Longrightarrow> qual_nonneg r \<Longrightarrow> qual_nonneg c \<Longrightarrow> qual_upto (add_qual_cost q c) (add_qual_cost r c)"
  "qual_upto q r \<Longrightarrow> qual_nonneg c \<Longrightarrow> qual_upto q (add_qual_cost r c)"
  by (auto simp: qual_upto_def qual_nonneg_def add_qual_cost_def intro: upto_cost_add upto_cost_grow)

lemma rinfo_cost_nonneg:
  assumes "gucs_ok g" "catalog_ok cat" "node_ok r" "is_RestrictInfo r" "rinfo_cost g cat r = Inr c"
  shows "qual_nonneg c"
  using assms qual_cost_nonneg(1) [OF assms(1,2) node_ok_parts(2) [OF assms(3,4)] qual_nonneg_intros(1)]
  by (auto simp: rinfo_cost_def ebind_Inr_iff intro: qual_nonneg_intros)

lemma qual_costs_rinfo:
  assumes "is_RestrictInfo r" "qual_costs g cat (r # rs) t = Inr q"
  obtains c where "rinfo_cost g cat r = Inr c" "qual_costs g cat rs (add_qual_cost t c) = Inr q"
  using assms by (auto simp: ebind_Inr_iff qual_cost.simps [of g cat r] rinfo_cost_def)

lemma qual_costs_subseq:
  assumes "subseq xs ys" "gucs_ok g" "catalog_ok cat" "\<forall>r \<in> set ys. is_RestrictInfo r \<and> node_ok r"
    and "qual_upto s t" "qual_nonneg s" "qual_nonneg t"
    and "qual_costs g cat xs s = Inr q" "qual_costs g cat ys t = Inr r"
  shows "qual_upto q r"
  using assms
proof (induction arbitrary: s t rule: list_emb.induct)
  case (list_emb_Nil ys)
  then show ?case
  proof (induction ys arbitrary: t)
    case (Cons y ys)
    obtain c where c: "rinfo_cost g cat y = Inr c" "qual_costs g cat ys (add_qual_cost t c) = Inr r"
      using qual_costs_rinfo [OF _ Cons.prems(8)] Cons.prems(3) by auto
    have "qual_nonneg c" using rinfo_cost_nonneg [OF assms(2,3) _ _ c(1)] Cons.prems(3) by simp
    then show ?case using Cons.IH [OF assms(2,3) _ qual_upto_add(2) _ _ _ c(2)] Cons.prems
      by (auto intro: qual_nonneg_intros)
  qed simp
next
  case (list_emb_Cons xs ys y)
  obtain c where c: "rinfo_cost g cat y = Inr c" "qual_costs g cat ys (add_qual_cost t c) = Inr r"
    using qual_costs_rinfo [OF _ list_emb_Cons.prems(8)] list_emb_Cons.prems(3) by auto
  have "qual_nonneg c" using rinfo_cost_nonneg [OF assms(2,3) _ _ c(1)] list_emb_Cons.prems(3) by simp
  then show ?case using list_emb_Cons.IH [OF assms(2,3) _ qual_upto_add(2) _ _ _ c(2)] list_emb_Cons.prems
    by (auto intro: qual_nonneg_intros)
next
  case (list_emb_Cons2 x y xs ys)
  have y: "is_RestrictInfo y" "node_ok y" "x = y" using list_emb_Cons2 by auto
  obtain c where c: "rinfo_cost g cat y = Inr c" "qual_costs g cat ys (add_qual_cost t c) = Inr r"
    using qual_costs_rinfo [OF y(1) list_emb_Cons2.prems(8)] .
  have d: "qual_costs g cat xs (add_qual_cost s c) = Inr q"
    using qual_costs_rinfo [OF y(1) list_emb_Cons2.prems(7) [unfolded y(3)]] c(1) by auto
  have "qual_nonneg c" by (rule rinfo_cost_nonneg [OF assms(2,3) y(2,1) c(1)])
  then show ?case using list_emb_Cons2.IH [OF assms(2,3) _ qual_upto_add(1) _ _ d c(2)] list_emb_Cons2.prems
    by (auto intro: qual_nonneg_intros)
qed

text \<open>Evaluating some of the clauses, then all.\<close>

lemma cost_qual_eval_yields_costs:
  assumes "gucs_ok g" "catalog_ok cat" "clauses_ok mem ns"
  shows "yields (cache_ok g cat mem) (cost_qual_eval g cat ns) (\<lambda>q. qual_nonneg q \<and> qual_costs g cat ns zero_cost = Inr q)"
  unfolding yields_def
proof (intro allI impI)
  fix c c' q assume c: "cache_ok g cat mem c" and q: "cost_qual_eval g cat ns c = Inr (c', q)"
  have "\<forall>n \<in> set ns. in_memory mem n" using assms(3) by (auto simp: clauses_ok_def)
  with walker_agrees(2) [OF this c, of zero_cost] q
  have "agrees g cat mem (qual_costs g cat ns zero_cost) (Inr (c', q))" by (simp add: cost_qual_eval_def)
  then have "qual_costs g cat ns zero_cost = Inr q"
    by (cases "qual_costs g cat ns zero_cost") (auto simp: agrees_simps)
  then show "cache_ok g cat mem c' \<and> qual_nonneg q \<and> qual_costs g cat ns zero_cost = Inr q"
    using yieldsD [OF cost_qual_eval_yields [OF assms] c q] by blast
qed

definition restriction_list :: "Node list \<Rightarrow> bool" where
  "restriction_list ns \<longleftrightarrow> (\<forall>r \<in> set ns. is_RestrictInfo r)"

lemma yields_some_of_all:
  assumes g: "gucs_ok g" "catalog_ok cat" and all: "clauses_ok mem all" "restriction_list all" and some: "subseq some all"
    and f: "\<And>q r. qual_nonneg q \<Longrightarrow> qual_nonneg (\<lparr> startup = startup r - startup q, per_tuple = per_tuple r - per_tuple q \<rparr>) \<Longrightarrow>
      yields (cache_ok g cat mem) (f q r) P"
  shows "yields (cache_ok g cat mem) (pbind (cost_qual_eval g cat some) (\<lambda>q. pbind (cost_qual_eval g cat all) (f q))) P"
proof -
  have s: "clauses_ok mem some" using clauses_ok_subset [OF all(1)] some by (auto dest: list_emb_set)
  have nodes: "\<forall>r \<in> set all. is_RestrictInfo r \<and> node_ok r"
    using all by (auto simp: clauses_ok_def restriction_list_def)
  have z: "qual_upto zero_cost zero_cost"
    by (simp add: qual_upto_def upto_cost_def zero_cost_def dle_refl zero_double_def)
  show ?thesis
  proof (rule yields_bind [OF cost_qual_eval_yields_costs [OF g s]], rule yields_bind [OF cost_qual_eval_yields_costs [OF g all(1)]])
    fix q r assume q: "qual_nonneg q \<and> qual_costs g cat some zero_cost = Inr q"
      and r: "qual_nonneg r \<and> qual_costs g cat all zero_cost = Inr r"
    have "qual_upto q r"
      using qual_costs_subseq [OF some g nodes z qual_nonneg_intros(1) qual_nonneg_intros(1)] q r by blast
    then have "qual_nonneg (\<lparr> startup = startup r - startup q, per_tuple = per_tuple r - per_tuple q \<rparr>)"
      by (auto simp: qual_upto_def qual_nonneg_def intro: upto_cost_minus)
    then show "yields (cache_ok g cat mem) (f q r) P" using q by (intro f) blast+
  qed
qed

subsection \<open>Hash joins\<close>

lemma batch_loop_ge: "0 < n \<Longrightarrow> n \<le> batch_loop m n"
proof (induction m n rule: batch_loop.induct)
  case (1 m n)
  show ?case
  proof (cases "n < m")
    case True
    then have "n * 2 \<le> batch_loop m (n * 2)" using 1 by simp
    moreover have "batch_loop m n = batch_loop m (n * 2)" using True 1(2) by (subst batch_loop.simps) simp
    ultimately show ?thesis using 1(2) by linarith
  qed (subst batch_loop.simps, simp)
qed

lemma hash_table_positive:
  "ExecChooseHashTableSize g n w skew = (nbuckets, nbatch, mcvs) \<Longrightarrow> 0 \<le> nbuckets \<and> 0 \<le> nbatch"
proof -
  have two: "2 \<le> batch_loop m 2" for m using batch_loop_ge [of 2 m] by simp
  then have "0 \<le> batch_loop m 2" for m using two [of m] by linarith
  then show "ExecChooseHashTableSize g n w skew = (nbuckets, nbatch, mcvs) \<Longrightarrow> 0 \<le> nbuckets \<and> 0 \<le> nbatch"
    by (auto simp: ExecChooseHashTableSize_def Let_def split: prod.splits if_splits)
qed

text \<open>What the estimators promise: fractions, with the start of a scan not after its end.\<close>

definition estimators_ok :: "estimators \<Rightarrow> bool" where
  "estimators_ok est \<longleftrightarrow>
     (\<forall>n v jt sj. nonneg (clause_selectivity est n v jt sj)) \<and>
     (\<forall>ns v jt sj. between 0 1 (clauselist_selectivity est ns v jt sj)) \<and>
     (\<forall>n v. nonneg (estimate_hash_bucketsize est n v)) \<and>
     (\<forall>n f s b. case mergejoinscansel est n f s b of (ls, le, rs, re) \<Rightarrow>
        between 0 1 ls \<and> between 0 1 le \<and> between 0 1 rs \<and> between 0 1 re \<and> ls \<le> le \<and> rs \<le> re)"

lemma estimators_okD:
  assumes "estimators_ok est"
  shows "nonneg (clause_selectivity est n v jt sj)" "between 0 1 (clauselist_selectivity est ns v jt sj)"
    "nonneg (estimate_hash_bucketsize est m u)"
  using assms by (auto simp: estimators_ok_def)

lemma compute_factors_ok:
  "estimators_ok est \<Longrightarrow> nonneg (rel_rows inner) \<Longrightarrow>
   factors_ok (compute_semi_anti_join_factors est outer inner jt sj clauses)"
proof -
  assume e: "estimators_ok est" and n: "nonneg (rel_rows inner)"
  have s: "nonneg (clauselist_selectivity est ns v j i)" for ns v j i
    using estimators_okD(2) [OF e, of ns v j i] by (auto simp: between_def)
  have "nonneg (if 0 < y then Max_d (fl 1) (clauselist_selectivity est ns v j i * rel_rows inner / y) else fl 1)"
    if "nonneg y" for y ns v j i using that n by (auto intro!: nonneg_Max nonneg_fl nonneg_divide nonneg_mult s)
  then show ?thesis using estimators_okD(2) [OF e] s
    by (simp add: factors_ok_def compute_semi_anti_join_factors_def Let_def)
qed

lemma nonneg_approx_tuple_count:
  assumes e: "estimators_ok est" and i: "input_ok (outerjoinpath path)" "input_ok (innerjoinpath path)"
  shows "nonneg (approx_tuple_count est path quals)"
proof -
  have "nonneg s \<Longrightarrow> nonneg (foldl (\<lambda>s qual. s * clause_selectivity est qual 0 JOIN_INNER sj) s quals)" for s sj
    by (induction quals arbitrary: s) (auto intro: nonneg_mult estimators_okD [OF e])
  then show ?thesis unfolding approx_tuple_count_def Let_def
    by (intro nonneg_clamp nonneg_mult input_okD i) (simp add: nonneg_fl)
qed

lemma bucketsize_loop_nonneg:
  assumes "estimators_ok est" "nonneg b"
  shows "nonneg (snd (bucketsize_loop est v rels ns b cache))"
  using assms(2)
proof (induction ns arbitrary: b cache)
  case (Cons n ns)
  obtain c s where c: "clause_bucketsize est v rels n cache = (c, s)" by fastforce
  then have "nonneg s" using estimators_okD(3) [OF assms(1)]
    by (auto simp: clause_bucketsize_def Let_def nonneg_def split: prod.splits if_splits)
  then show ?case using Cons.IH [of "if s < b then s else b" c] Cons.prems c by simp
qed simp

lemma initial_hashjoin_ok:
  assumes g: "gucs_ok g" and p: "input_ok outer" and q: "input_ok inner"
    and ws: "ws = initial_cost_hashjoin g ws0 clauses outer inner"
  shows "nonneg (ws_startup_cost ws)" "nonneg (ws_run_cost ws)" "nonneg (ws_io_cost ws)" "nonneg (ws_cpu_cost ws)"
    "ws_total_cost ws = ws_startup_cost ws + ws_run_cost ws" "0 \<le> ws_numbuckets ws" "0 \<le> ws_numbatches ws"
proof -
  obtain k l m where t: "ExecChooseHashTableSize g (rows inner) (target_width (pathtarget inner)) True = (k, l, m)"
    by (metis prod_cases3)
  note facts = input_okD [OF p] input_okD [OF q] gucs_okD [OF g] hash_table_positive [OF t]
  have pages: "nonneg (page_size (rows outer) (target_width (pathtarget outer)))"
    "nonneg (page_size (rows inner) (target_width (pathtarget inner)))"
    unfolding page_size_def by (intro nonneg_ceil nonneg_divide nonneg_byte_size nonneg_dbl facts; simp)+
  have "nonneg (dbl (int (length clauses)))" by (simp add: nonneg_dbl)
  note rules = nonneg_add nonneg_mult nonneg_zero facts(1-18) pages this gucs_okD [OF g]
  have two: "nonneg (fl 2)" by (simp add: nonneg_fl)
  note unfolded = ws [unfolded initial_cost_hashjoin_def t Let_def prod.case]
  show "nonneg (ws_startup_cost ws)" "nonneg (ws_run_cost ws)" "nonneg (ws_io_cost ws)" "nonneg (ws_cpu_cost ws)"
    unfolding unfolded by (cases "1 < l"; simp; intro rules two)+
  show "ws_total_cost ws = ws_startup_cost ws + ws_run_cost ws" "0 \<le> ws_numbuckets ws" "0 \<le> ws_numbatches ws"
    using hash_table_positive [OF t] unfolding unfolded by (cases "1 < l"; simp)+
qed

lemma hash_comparisons_ok:
  assumes i: "input_ok (outerjoinpath path)" "input_ok (innerjoinpath path)" and e: "estimators_ok est"
    and sf: "first_match_only (jointype path) extra \<Longrightarrow> factors_ok (semifactors extra)"
    and n: "nonneg h" "nonneg b" "nonneg v" "nonneg run0"
    and r: "hash_comparisons est path extra h b v run0 = (run, tups)"
  shows "nonneg run" "nonneg tups" "reaches run0 run"
proof -
  note facts = input_okD [OF i(1)] input_okD [OF i(2)] n
  have c: "nonneg (fl (1 / 2))" "nonneg (fl (1 / 20))" by (simp_all add: nonneg_fl)
  show "nonneg run" "nonneg tups" "reaches run0 run"
  proof (atomize (full), cases "first_match_only (jointype path) extra")
    case True
    define m where "m = rint_d (rows (outerjoinpath path) * outer_match_frac (semifactors extra))"
    define frac where "frac = fl 2 / (match_count (semifactors extra) + fl 1)"
    have f: "between 0 1 (outer_match_frac (semifactors extra))" "nonneg frac"
      using sf [OF True] by (simp_all add: factors_ok_def frac_def nonneg_scan_frac)
    have m: "nonneg m" "nonneg (rows (outerjoinpath path) - m)"
      using fraction_rows [OF facts(1,5) f(1)] by (auto simp: m_def intro: nonneg_minus)
    note split = r [unfolded hash_comparisons_def Let_def, folded m_def frac_def]
    show "nonneg run \<and> nonneg tups \<and> reaches run0 run"
      using split True by (auto intro!: nonneg_add nonneg_mult nonneg_clamp nonneg_divide reaches_add reaches_refl facts c f m)
  next
    case False
    then show "nonneg run \<and> nonneg tups \<and> reaches run0 run"
      using r nonneg_approx_tuple_count [OF e i]
      by (auto simp: hash_comparisons_def Let_def
          intro!: nonneg_add nonneg_mult nonneg_clamp reaches_add reaches_refl facts c)
  qed
qed

lemma final_hashjoin_ok:
  assumes ok: "join_ok g proot mem path" and sf: "first_match_only (jointype path) extra \<Longrightarrow> factors_ok (semifactors extra)"
    and e: "estimators_ok est"
    and cl: "restriction_list (joinrestrictinfo path)" "subseq (path_hashclauses path) (joinrestrictinfo path)"
    and ws: "ws = initial_cost_hashjoin g ws0 (path_hashclauses path) (outerjoinpath path) (innerjoinpath path)"
  shows "yields (cache_ok g (catalogs proot) mem) (final_cost_hashjoin g proot est path ws extra buckets)
    (\<lambda>(b, p). bounded_by ws p)"
proof -
  note j = join_okD [OF ok]
  note w = initial_hashjoin_ok [OF j(1,4,5) ws]
  define v where "v = dbl (ws_numbuckets ws) * dbl (ws_numbatches ws)"
  have v: "nonneg v" unfolding v_def by (intro nonneg_mult nonneg_dbl w)
  obtain b' s where b: "(if path_node (innerjoinpath path) = T_UniquePath then (buckets, fl 1 / v)
     else bucketsize_loop est v (relids (parent (innerjoinpath path))) (path_hashclauses path) (fl 1) buckets) = (b', s)"
    by fastforce
  have one: "nonneg (fl 1)" by (simp add: nonneg_fl)
  have s: "nonneg s"
    using b bucketsize_loop_nonneg [OF e one, of v "relids (parent (innerjoinpath path))" "path_hashclauses path" buckets]
      nonneg_divide [OF one v] by (auto split: if_splits)
  note rows = nonneg_join_rows [OF j(7,8)]
  have d: "reaches (ws_startup_cost ws) (disabled g x (ws_startup_cost ws))" for x
    using gucs_okD [OF j(1)] by (auto simp: disabled_def intro!: reaches_refl reaches_add)
  have node: "bounded_by ws p \<Longrightarrow> bounded_by ws (p\<lparr> path_node := x \<rparr>)" for p :: HashPath and x
    by (simp add: bounded_by_def sane_costs_def)
  show ?thesis unfolding final_cost_hashjoin_def Let_def v_def [symmetric] b prod.case
  proof (rule yields_some_of_all [OF j(1-3) cl])
    fix q r assume q: "qual_nonneg q" and r: "qual_nonneg \<lparr> startup = startup r - startup q, per_tuple = per_tuple r - per_tuple q \<rparr>"
    obtain run tups where c: "hash_comparisons est path extra (per_tuple q) s v (ws_run_cost ws) = (run, tups)" by fastforce
    note h = hash_comparisons_ok [OF j(4,5) e sf qual_nonnegD(2) [OF q] s v w(2) c]
    note n = qual_nonnegD [OF q] qual_nonnegD [OF r, simplified] qual_nonnegD [OF j(6)] gucs_okD [OF j(1)] h(1,2) rows w
      nonneg_disabled [OF j(1)]
    let ?s = "disabled g (enable_hashjoin g) (ws_startup_cost ws) + startup q + (startup r - startup q) + startup (tlist_cost path)"
    let ?r0 = "run + (cpu_tuple_cost g + (per_tuple r - per_tuple q)) * tups"
    have r0: "reaches (ws_run_cost ws) ?r0" by (intro reaches_add nonneg_mult nonneg_add n h)
    have "nonneg (?r0 - ws_run_cost ws)" using r0 unfolding reaches_def by (rule nonneg_minus)
    then have "bounded_by ws (set_power (ws_io_cost ws) (ws_cpu_cost ws + (?r0 - ws_run_cost ws))
        (?r0 + per_tuple (tlist_cost path) * join_rows path) 0
        (set_costs (join_rows path) ?s (?s + (?r0 + per_tuple (tlist_cost path) * join_rows path)) path))"
      by (intro bounded_by_set reaches_add nonneg_add nonneg_mult r0 d n)
    from node [OF this] show "yields (cache_ok g (catalogs proot) mem)
      (case hash_comparisons est path extra (per_tuple q) s v (ws_run_cost ws) of (run0, hashjointuples) \<Rightarrow>
        preturn (b', (set_power (ws_io_cost ws)
          (ws_cpu_cost ws + (run0 + (cpu_tuple_cost g + (per_tuple r - per_tuple q)) * hashjointuples - ws_run_cost ws))
          (run0 + (cpu_tuple_cost g + (per_tuple r - per_tuple q)) * hashjointuples + per_tuple (tlist_cost path) * join_rows path) 0
          (set_costs (join_rows path) ?s
            (?s + (run0 + (cpu_tuple_cost g + (per_tuple r - per_tuple q)) * hashjointuples + per_tuple (tlist_cost path) * join_rows path)) path))
          \<lparr> path_node := T_HashPath (ws_numbatches ws) \<rparr>)) (\<lambda>(b, p). bounded_by ws p)"
      unfolding c prod.case by (intro yields_return) (simp only: prod.case)
  qed
qed

subsection \<open>Merge joins\<close>

text \<open>The scan selectivities that the clauses in memory have cached are those of the estimator.\<close>

definition scansel_ok :: "estimators \<Rightarrow> (nat \<Rightarrow> Node) \<Rightarrow> scansel_cache \<Rightarrow> bool" where
  "scansel_ok est mem cache \<longleftrightarrow> (\<forall>a. \<forall>c \<in> set (cache a).
     (leftstartsel c, leftendsel c, rightstartsel c, rightendsel c) =
       mergejoinscansel est (clause (mem a)) (sc_opfamily c) (sc_strategy c) (sc_nulls_first c))"

lemma cached_scansel_cases:
  assumes "scansel_ok est mem cache" "mem (rinfo_address r) = r" "cached_scansel est pks r k cache = (cache', c)"
  shows "(leftstartsel c, leftendsel c, rightstartsel c, rightendsel c) =
      mergejoinscansel est (clause r) (pk_opfamily (pks k)) (pk_strategy (pks k)) (pk_nulls_first (pks k))"
    "scansel_ok est mem cache'" "c \<in> set (cache' (rinfo_address r))"
    "sc_opfamily c = pk_opfamily (pks k)" "sc_collation c = ec_collation (pks k)"
    "sc_strategy c = pk_strategy (pks k)" "sc_nulls_first c = pk_nulls_first (pks k)"
proof -
  let ?f = "\<lambda>c. sc_opfamily c = pk_opfamily (pks k) \<and> sc_collation c = ec_collation (pks k) \<and>
      sc_strategy c = pk_strategy (pks k) \<and> sc_nulls_first c = pk_nulls_first (pks k)"
  have "(leftstartsel c, leftendsel c, rightstartsel c, rightendsel c) =
      mergejoinscansel est (clause r) (pk_opfamily (pks k)) (pk_strategy (pks k)) (pk_nulls_first (pks k)) \<and>
    scansel_ok est mem cache' \<and> c \<in> set (cache' (rinfo_address r)) \<and> ?f c"
  proof (cases "find ?f (cache (rinfo_address r))")
    case None
    obtain ls le rs re where
      m: "mergejoinscansel est (clause r) (pk_opfamily (pks k)) (pk_strategy (pks k)) (pk_nulls_first (pks k)) = (ls, le, rs, re)"
      by (metis prod_cases4)
    show ?thesis using assms None m by (auto simp: cached_scansel_def scansel_ok_def Let_def split: if_splits)
  next
    case (Some d)
    then have "d \<in> set (cache (rinfo_address r))" "?f d" by (auto simp: find_Some_iff)
    then show ?thesis using assms Some by (fastforce simp: cached_scansel_def scansel_ok_def Let_def)
  qed
  then show "(leftstartsel c, leftendsel c, rightstartsel c, rightendsel c) =
      mergejoinscansel est (clause r) (pk_opfamily (pks k)) (pk_strategy (pks k)) (pk_nulls_first (pks k))"
    "scansel_ok est mem cache'" "c \<in> set (cache' (rinfo_address r))"
    "sc_opfamily c = pk_opfamily (pks k)" "sc_collation c = ec_collation (pks k)"
    "sc_strategy c = pk_strategy (pks k)" "sc_nulls_first c = pk_nulls_first (pks k)" by blast+
qed

lemma find_append: "find f xs = None \<Longrightarrow> f d \<Longrightarrow> find f (xs @ [d]) = Some d"
  by (induction xs) (auto split: if_splits)

lemma scan_again:
  assumes "cached_scansel est pks r k cache = (cache', c)"
  shows "cached_scansel est pks r k cache' = (cache', c)"
proof -
  let ?f = "\<lambda>c. sc_opfamily c = pk_opfamily (pks k) \<and> sc_collation c = ec_collation (pks k) \<and>
      sc_strategy c = pk_strategy (pks k) \<and> sc_nulls_first c = pk_nulls_first (pks k)"
  show ?thesis
  proof (cases "find ?f (cache (rinfo_address r))")
    case None
    obtain ls le rs re where
      m: "mergejoinscansel est (clause r) (pk_opfamily (pks k)) (pk_strategy (pks k)) (pk_nulls_first (pks k)) = (ls, le, rs, re)"
      by (metis prod_cases4)
    show ?thesis using assms None m by (auto simp: cached_scansel_def Let_def find_append)
  next
    case (Some d)
    then show ?thesis using assms by (auto simp: cached_scansel_def Let_def)
  qed
qed

text \<open>Fractions of a scan: between zero and one, the start not after the end.\<close>

definition scan_part :: "Selectivity \<Rightarrow> Selectivity \<Rightarrow> bool" where
  "scan_part s e \<longleftrightarrow> between 0 1 s \<and> between 0 1 e \<and> s \<le> e"

lemma scan_part_all: "scan_part 0 (fl 1)"
proof -
  have "between 0 1 (fl 1)" "between 0 1 (fl 0)" by (rule between_fl; simp add: exact_zero exact_one)+
  moreover have "fl 0 \<le> fl 1" by (rule fl_mono) simp
  ultimately show ?thesis by (simp add: scan_part_def zero_double_def)
qed

lemma merge_scan_fractions_ok:
  assumes est: "estimators_ok est" and c: "scansel_ok est mem cache" and m: "\<forall>r \<in> set clauses. mem (rinfo_address r) = r"
    and r: "merge_scan_fractions est pks jt clauses outer inner okeys ikeys cache = Inr (cache', os, oe, is, ie)"
  shows "scan_part os oe" "scan_part is ie" "scansel_ok est mem cache'"
proof -
  have "scan_part os oe \<and> scan_part is ie \<and> scansel_ok est mem cache'"
  proof (cases "clauses = [] \<or> jt = JOIN_FULL")
    case True
    then show ?thesis using r c scan_part_all by (cases clauses) (auto simp: merge_scan_fractions_def split: list.splits)
  next
    case False
    then obtain f fs where f: "clauses = f # fs" by (cases clauses) auto
    let ?ok = "if okeys \<noteq> [] then okeys else pathkeys outer" and ?ik = "if ikeys \<noteq> [] then ikeys else pathkeys inner"
    obtain k ks i is' where keys: "?ok = k # ks" "?ik = i # is'"
      using r False f by (cases ?ok; cases ?ik) (simp_all add: merge_scan_fractions_def)
    obtain k' d where k: "cached_scansel est pks f k cache = (k', d)" by fastforce
    have res: "cache' = k'" "(os, oe) \<in> {(leftstartsel d, leftendsel d), (rightstartsel d, rightendsel d), (0, fl 1)}"
        "(is, ie) \<in> {(leftstartsel d, leftendsel d), (rightstartsel d, rightendsel d), (0, fl 1)}"
      using r False unfolding f merge_scan_fractions_def keys list.case prod.case k Let_def by (auto split: if_splits)
    note s = cached_scansel_cases [OF c m [rule_format] k]
    have f_in: "f \<in> set clauses" using f by simp
    have "scan_part (leftstartsel d) (leftendsel d)" "scan_part (rightstartsel d) (rightendsel d)"
      using est s(1) [OF f_in] unfolding estimators_ok_def scan_part_def by (metis (mono_tags, lifting) case_prod_conv)+
    then show ?thesis using res s(2) [OF f_in] scan_part_all by auto
  qed
  then show "scan_part os oe" "scan_part is ie" "scansel_ok est mem cache'" by blast+
qed

lemma rint_le_clamp:
  assumes "x \<le> y"
  shows "rint_d x \<le> clamp_row_est y"
proof (cases "y \<le> fl 1")
  case True
  then have "rint_d x \<le> rint_d (fl 1)" using assms dle_trans rint_mono by blast
  then show ?thesis using True whole_fl_1 by (simp add: clamp_row_est_def whole_def)
next
  case False
  then show ?thesis using rint_mono [OF assms] by (simp add: clamp_row_est_def)
qed

lemma divide_mono_not_less: "0 < n \<Longrightarrow> b \<le> a \<Longrightarrow> \<not> a / n < b / (n :: double)"
proof (cases n; cases a; cases b)
  fix k x y assume n: "0 < n" "n = Fin k" and le: "b \<le> a" "a = Fin x" "b = Fin y"
  then have "val y / val k \<le> val x / val k" by (intro divide_right_mono) (simp_all add: less_eq_double_def)
  from fl_mono [OF this] show ?thesis using n le dless_not_le by (auto simp: divide_double_def)
qed (auto simp: divide_double_def less_eq_double_def)

lemma rint_nan: "is_nan (rint_d x) \<longleftrightarrow> is_nan x"
  by (cases x) auto

lemma nan_arith: "is_nan a \<Longrightarrow> is_nan (a / n)" "is_nan a \<Longrightarrow> is_nan (a - n)" "is_nan a \<Longrightarrow> is_nan (n - a)"
  by (cases n; simp add: is_nan_iff minus_inf' divide_double_def)+

lemma clamp_nan: "is_nan x \<Longrightarrow> is_nan (clamp_row_est x)"
  by (simp add: is_nan_iff clamp_row_est_def)

lemma nonneg_nan: "is_nan x \<Longrightarrow> nonneg x"
  by (simp add: is_nan_iff)

lemma merge_rows:
  assumes n: "0 < n" and p: "scan_part s e"
  shows "nonneg (rint_d (n * s))" "nonneg (clamp_row_est (n * e))" "nonneg (clamp_row_est (n * e) - rint_d (n * s))"
    "nonneg (rint_d (n * s) / n)" "nonneg (clamp_row_est (n * e) / n - rint_d (n * s) / n)"
proof -
  have part: "nonneg s" "nonneg e" "s \<le> e" using p by (auto simp: scan_part_def between_def)
  have nn: "nonneg n" using n by (rule nonneg_pos)
  show s: "nonneg (rint_d (n * s))" and "nonneg (clamp_row_est (n * e))"
    by (intro nonneg_rint nonneg_clamp nonneg_mult nn part)+
  show "nonneg (rint_d (n * s) / n)" by (intro nonneg_divide s nn)
  have "nonneg (clamp_row_est (n * e) - rint_d (n * s)) \<and> nonneg (clamp_row_est (n * e) / n - rint_d (n * s) / n)"
  proof (cases "is_nan (n * s) \<or> is_nan (n * e)")
    case True
    then have "is_nan (rint_d (n * s)) \<or> is_nan (clamp_row_est (n * e))" using rint_nan clamp_nan by blast
    then show ?thesis using nan_arith nonneg_nan by metis
  next
    case False
    then have "n * s \<le> n * e" using dmult_mono_not_less [OF nn part(3)] dnot_less by blast
    then have le: "rint_d (n * s) \<le> clamp_row_est (n * e)" by (rule rint_le_clamp)
    then have "\<not> clamp_row_est (n * e) < rint_d (n * s)" by (metis dless_not_le)
    then show ?thesis using divide_mono_not_less [OF n le] by (intro conjI nonneg_minus)
  qed
  then show "nonneg (clamp_row_est (n * e) - rint_d (n * s))" "nonneg (clamp_row_est (n * e) / n - rint_d (n * s) / n)" by blast+
qed

lemma merge_input_ok:
  assumes "gucs_ok g" "0 \<le> work_mem g" "input_ok p" "nonneg n" "merge_input g p keys n = (s, t)"
  shows "nonneg s" "nonneg (t - s)"
proof -
  note f = input_okD [OF assms(3)]
  have lim: "limit_ok (fl (- 1))" unfolding limit_ok_def by (simp add: float_eval)
  have "sane_costs (cost_sort g p (total_cost p) n (target_width (pathtarget p)) 0 (work_mem g) (fl (- 1)))"
    by (rule cost_sort_sane [OF assms(1) f(3) assms(4) f(7) nonneg_zero assms(2) lim])
  then have "nonneg (startup_cost p')" "\<not> total_cost p' < startup_cost p'"
    if "p' = cost_sort g p (total_cost p) n (target_width (pathtarget p)) 0 (work_mem g) (fl (- 1))" for p'
    using saneD that by blast+
  then show "nonneg s" "nonneg (t - s)"
    using assms(5) f(2,8) by (auto simp: merge_input_def Let_def split: if_splits intro: nonneg_minus)
qed

text \<open>The workspace between the two phases.\<close>

definition merge_ws_ok :: "JoinCostWorkspace \<Rightarrow> bool" where
  "merge_ws_ok ws \<longleftrightarrow> nonneg (ws_startup_cost ws) \<and> nonneg (ws_run_cost ws) \<and> nonneg (ws_inner_run_cost ws) \<and>
     nonneg (ws_io_cost ws) \<and> ws_cpu_cost ws = 0 \<and> ws_power_cost ws = 0 \<and>
     nonneg (ws_outer_skip_rows ws) \<and> nonneg (ws_inner_skip_rows ws) \<and>
     nonneg (ws_outer_rows ws - ws_outer_skip_rows ws) \<and> nonneg (ws_inner_rows ws - ws_inner_skip_rows ws)"

lemma start_mergejoin_ok:
  assumes g: "gucs_ok g" "0 \<le> work_mem g" and io: "input_ok outer" "input_ok inner"
    and p: "scan_part os oe" "scan_part js je"
  shows "merge_ws_ok (start_mergejoin g ws0 outer inner okeys ikeys os oe js je)"
proof -
  define n n' where "n = protect_rows (rows outer)" and "n' = protect_rows (rows inner)"
  note pn = protect_rows_input [OF io(1), folded n_def] and pn' = protect_rows_input [OF io(2), folded n'_def]
  obtain s t s' t' where i: "merge_input g outer okeys n = (s, t)" "merge_input g inner ikeys n' = (s', t')" by fastforce
  note facts = merge_input_ok [OF g io(1) pn(1) i(1)] merge_input_ok [OF g io(2) pn'(1) i(2)]
    merge_rows [OF pn(4) p(1)] merge_rows [OF pn'(4) p(2)]
  show ?thesis unfolding merge_ws_ok_def start_mergejoin_def Let_def n_def [symmetric] n'_def [symmetric] i prod.case
    by (intro conjI; simp; intro nonneg_add nonneg_mult nonneg_zero facts)
qed

lemma initial_mergejoin_ok:
  assumes g: "gucs_ok g" "0 \<le> work_mem g" and io: "input_ok outer" "input_ok inner"
    and est: "estimators_ok est" and c: "scansel_ok est mem cache" and m: "\<forall>r \<in> set clauses. mem (rinfo_address r) = r"
    and r: "initial_cost_mergejoin g est pks ws0 jt clauses outer inner okeys ikeys cache = Inr (cache', ws)"
  shows "merge_ws_ok ws" "scansel_ok est mem cache'"
  using r start_mergejoin_ok [OF g io] merge_scan_fractions_ok [OF est c m]
  by (auto simp: initial_cost_mergejoin_def ebind_Inr_iff)

lemma rescan_ratio_nonneg: "nonneg n \<Longrightarrow> nonneg (rescan_ratio path skip m n)"
proof -
  assume n: "nonneg n"
  have "nonneg (if d < 0 then 0 else d)" for d :: double by (simp add: nonneg_def)
  then have "nonneg (if b then 0 else if d < 0 then 0 else d)" for b and d :: double by simp
  then show ?thesis unfolding rescan_ratio_def Let_def by (intro nonneg_add nonneg_divide nonneg_fl n) simp_all
qed

lemma merge_sane:
  fixes path :: MergePath
  assumes "nonneg r" "nonneg s" "nonneg run" "nonneg io" "nonneg cpu"
  shows "sane_costs ((set_power io cpu run 0 (set_costs r s (s + run) path))
      \<lparr> power_cost := 0 + count_power_cost io cpu run 0, skip_mark_restore := a, materialize_inner := b \<rparr>)"
  using sane_sum [OF assms, of run 0 path] by (simp add: sane_costs_def set_power_def set_costs_def dzero_add power_le_80)

lemma finish_mergejoin_ok:
  assumes ok: "join_ok g proot mem path" and e: "estimators_ok est" and ws: "merge_ws_ok ws"
    and q: "qual_nonneg q" and r: "qual_nonneg \<lparr> startup = startup r - startup q, per_tuple = per_tuple r - per_tuple q \<rparr>"
  shows "sane_costs (finish_mergejoin g est path ws extra q r)"
    "reaches (ws_startup_cost ws) (startup_cost (finish_mergejoin g est path ws extra q r))"
proof -
  note j = join_okD [OF ok]
  note w = ws [unfolded merge_ws_ok_def]
  define n where "n = protect_rows (rows (innerjoinpath path))"
  define skip where "skip = (first_match_only (jointype path) extra \<and>
      length (joinrestrictinfo path) = length (path_mergeclauses path))"
  define tups where "tups = approx_tuple_count est path (path_mergeclauses path)"
  define ratio where "ratio = rescan_ratio path skip tups n"
  have n: "nonneg n" using protect_rows_input [OF j(5)] by (simp add: n_def)
  have facts: "nonneg ratio" "nonneg tups" "nonneg (join_rows path)"
    using rescan_ratio_nonneg [OF n] nonneg_approx_tuple_count [OF e j(4,5)] nonneg_join_rows [OF j(7,8)]
    by (simp_all add: ratio_def tups_def)
  define mat where "mat = choose_materialize g path skip n
      (ws_inner_run_cost ws + cpu_operator_cost g * n * ratio) (ws_inner_run_cost ws * ratio)"
  obtain run io where ri: "(if mat then (ws_run_cost ws + (ws_inner_run_cost ws + cpu_operator_cost g * n * ratio), ws_io_cost ws + n * ratio)
      else (ws_run_cost ws + ws_inner_run_cost ws * ratio, ws_io_cost ws + ws_io_cost ws * ratio)) = (run, io)"
    by fastforce
  have run: "nonneg run" "nonneg io"
    using ri w n facts gucs_okD(5) [OF j(1)] by (auto split: if_splits intro!: nonneg_add nonneg_mult)
  note rules = nonneg_add nonneg_mult n facts run qual_nonnegD [OF q] qual_nonnegD [OF r, simplified]
    qual_nonnegD [OF j(6)] gucs_okD [OF j(1)] nonneg_disabled [OF j(1)]
  note unfolded = finish_mergejoin_def [of g est path ws extra q r, unfolded Let_def, folded n_def, folded skip_def,
    folded tups_def, folded ratio_def, folded mat_def, unfolded ri prod.case]
  show "sane_costs (finish_mergejoin g est path ws extra q r)"
    unfolding unfolded using w by (simp only: dzero_add) (intro merge_sane [unfolded dzero_add] rules; simp)
  have "reaches (ws_startup_cost ws) (disabled g x (ws_startup_cost ws))" for x
    using gucs_okD [OF j(1)] by (auto simp: disabled_def intro!: reaches_refl reaches_add)
  then show "reaches (ws_startup_cost ws) (startup_cost (finish_mergejoin g est path ws extra q r))"
    unfolding unfolded using w by (simp add: set_power_def set_costs_def) (intro reaches_add rules; simp)
qed

lemma final_mergejoin_ok:
  assumes ok: "join_ok g proot mem path" and e: "estimators_ok est" and ws: "merge_ws_ok ws"
    and cl: "restriction_list (joinrestrictinfo path)" "subseq (path_mergeclauses path) (joinrestrictinfo path)"
  shows "yields (cache_ok g (catalogs proot) mem) (final_cost_mergejoin g proot est path ws extra)
    (\<lambda>p. sane_costs p \<and> reaches (ws_startup_cost ws) (startup_cost p))"
  unfolding final_cost_mergejoin_def
  by (rule yields_some_of_all [OF join_okD(1-3) [OF ok] cl], rule yields_return)
    (blast intro: finish_mergejoin_ok [OF ok e ws])

subsection \<open>Examples\<close>

abbreviation empty_workspace :: JoinCostWorkspace where
  "empty_workspace \<equiv> \<lparr> ws_startup_cost = 0, ws_total_cost = 0, ws_io_cost = 0, ws_cpu_cost = 0, ws_power_cost = 0,
     ws_run_cost = 0, ws_inner_run_cost = 0, ws_inner_rescan_run_cost = 0, ws_outer_rows = 0, ws_inner_rows = 0,
     ws_outer_skip_rows = 0, ws_inner_skip_rows = 0, ws_numbuckets = 0, ws_numbatches = 0 \<rparr>"

definition example_rinfos :: "nat \<Rightarrow> rinfo_data" where
  "example_rinfos _ = \<lparr> clause_relids = None, outer_relids = None, nullable_relids = None, rinfo_parent_ec = None, rinfo_left_ec = None,
     can_join = True, hashjoinoperator = 96 \<rparr>"

definition example_extra :: JoinPathExtraData where
  "example_extra = \<lparr> extra_restrictlist = [example_clause], mergeclause_list = [example_clause], inner_unique = False,
     extra_sjinfo = inner_sjinfo None None,
     semifactors = \<lparr> outer_match_frac = fl (1 / 2), match_count = fl 1 \<rparr>, param_source_rels = None \<rparr>"

definition example_estimators :: estimators where
  "example_estimators = \<lparr> clause_selectivity = (\<lambda>_ _ _ _. fl (1 / 2)), clauselist_selectivity = (\<lambda>_ _ _ _. fl (1 / 2)),
     estimate_hash_bucketsize = (\<lambda>_ _. fl (1 / 2)), mergejoinscansel = (\<lambda>_ _ _ _. (0, fl 1, 0, fl 1)) \<rparr>"

abbreviation example_join :: JoinPath where
  "example_join \<equiv> Path.extend p100 (JoinPath.fields JOIN_SEMI False p100 p200 [example_clause])"

abbreviation example_hashjoin :: HashPath where
  "example_hashjoin \<equiv> JoinPath.extend example_join (HashPath.fields [example_clause])"

abbreviation example_mergejoin :: MergePath where
  "example_mergejoin \<equiv> JoinPath.extend example_join (MergePath.fields [example_clause] [] [] False False)"

lemma half: "between 0 1 (fl (1 / 2))" "nonneg (fl (1 / 2))"
  by (rule between_fl; simp add: exact_zero exact_one) (simp add: nonneg_fl)

lemma whole_numeral: "whole (fl (numeral k))"
  using whole_fl_int [of "numeral k"] by simp

lemma example_input_ok: "input_ok p100" "input_ok p200"
proof -
  have "\<not> fl 1000 < fl 1" "\<not> fl 100 < fl 0" "\<not> fl 200 < fl 10" "\<not> fl 80 < fl 40" by (simp_all add: float_eval)
  then show "input_ok p100" "input_ok p200"
    by (simp_all add: input_ok_def sane_costs_def rows_ok_def example_path_def example_target_def nonneg_fl whole_numeral)
qed

lemma example_clauses_ok: "clauses_ok (\<lambda>_. example_clause) [example_clause]" "restriction_list [example_clause]"
  by (simp add: clauses_ok_def example_in_memory example_node_ok, simp add: restriction_list_def example_clause_def)

lemma example_join_fields:
  "joinrestrictinfo (Path.extend p (JoinPath.fields jt u q r cs)) = cs" "outerjoinpath (Path.extend p (JoinPath.fields jt u q r cs)) = q"
  "innerjoinpath (Path.extend p (JoinPath.fields jt u q r cs)) = r" "jointype (Path.extend p (JoinPath.fields jt u q r cs)) = jt"
  by (simp_all add: Path.extend_def JoinPath.fields_def)

lemma example_hash_fields:
  "path_hashclauses (JoinPath.extend p (HashPath.fields cs)) = cs"
  "joinrestrictinfo (JoinPath.extend p (HashPath.fields cs)) = joinrestrictinfo p"
  "outerjoinpath (JoinPath.extend p (HashPath.fields cs)) = outerjoinpath p"
  "innerjoinpath (JoinPath.extend p (HashPath.fields cs)) = innerjoinpath p"
  by (simp_all add: JoinPath.extend_def HashPath.fields_def)

lemma example_merge_fields:
  "path_mergeclauses (JoinPath.extend p (MergePath.fields cs ok ik s m)) = cs"
  "joinrestrictinfo (JoinPath.extend p (MergePath.fields cs ok ik s m)) = joinrestrictinfo p"
  by (simp_all add: JoinPath.extend_def MergePath.fields_def)

lemma example_join_ok:
  "join_ok default_gucs example_root (\<lambda>_. example_clause) example_join"
  "join_ok default_gucs example_root (\<lambda>_. example_clause) example_hashjoin"
  "join_ok default_gucs example_root (\<lambda>_. example_clause) example_mergejoin"
  using example_input_ok example_clauses_ok example_catalog_ok
  by (simp_all add: join_ok_def default_gucs_ok example_root_def Path.extend_def JoinPath.extend_def JoinPath.fields_def
      HashPath.fields_def MergePath.fields_def target_ok_def example_path_def example_target_def qual_nonneg_intros path_rows_def
      example_rel_def nonneg_fl)

lemma example_eval:
  obtains c where "cost_qual_eval default_gucs (catalogs example_root) [example_clause] unset_cache =
      Inr (c, \<lparr> startup = 0, per_tuple = fl 0.0025 \<rparr>)" "cache_ok default_gucs example_catalog (\<lambda>_. example_clause) c"
proof -
  have "\<forall>n \<in> set [example_clause]. in_memory (\<lambda>_. example_clause) n" by (simp add: example_in_memory)
  from walker_agrees(2) [OF this unset_cache_ok, of default_gucs example_catalog zero_cost]
  show ?thesis using that unfolding example_cost by (auto simp: agrees_simps cost_qual_eval_def example_root_def)
qed

lemma example_eval_cached:
  assumes "cache_ok default_gucs example_catalog (\<lambda>_. example_clause) c"
  obtains c' where "cost_qual_eval default_gucs (catalogs example_root) [example_clause] c =
      Inr (c', \<lparr> startup = 0, per_tuple = fl 0.0025 \<rparr>)"
proof -
  have "\<forall>n \<in> set [example_clause]. in_memory (\<lambda>_. example_clause) n" by (simp add: example_in_memory)
  from walker_agrees(2) [OF this assms, of zero_cost]
  show ?thesis using that unfolding example_cost by (auto simp: agrees_simps cost_qual_eval_def example_root_def)
qed

lemma example_factors: "factors_ok (semifactors example_extra)"
  using half by (simp add: factors_ok_def example_extra_def nonneg_fl)

lemma example_estimators_ok: "estimators_ok example_estimators"
proof -
  have "scan_part 0 (fl 1)" by (rule scan_part_all)
  then show ?thesis using half by (simp add: estimators_ok_def example_estimators_def scan_part_def)
qed

subsection \<open>Correctness\<close>

text \<open>
  C7: The two phases of nested loop costing fit together as \<^verbatim>\<open>relation.h\<close> demands: the preliminary estimates
  are not above the final ones, so a path that is pruned on them could not have been kept. For inputs with
  sane costs and row counts, and matches estimated by fractions, the final costs are sane again; this covers
  semi- and anti-joins with their early stops and the case that all join clauses are index conditions.
\<close>

theorem nestloop_initial_is_lower_bound:
  assumes "join_ok g proot mem path"
    and "first_match_only (jointype path) extra \<Longrightarrow> factors_ok (semifactors extra)"
    and "ws = initial_cost_nestloop g ws0 (jointype path) (outerjoinpath path) (innerjoinpath path) extra"
    and "cache_ok g (catalogs proot) mem cache"
    and "final_cost_nestloop g proot rinfos path ws extra cache = Inr (cache', p)"
  shows "\<not> startup_cost p < ws_startup_cost ws \<and> \<not> total_cost p < ws_total_cost ws \<and> sane_costs p"
  using yieldsD [OF final_nestloop_ok [OF assms(1-3)] assms(4,5)] by (simp add: bounded_by_def reaches_def)

theorem nestloop_initial_is_lower_bound_witness:
  "\<exists>cache p. final_cost_nestloop default_gucs example_root example_rinfos example_join
     (initial_cost_nestloop default_gucs empty_workspace JOIN_SEMI p100 p200 example_extra) example_extra unset_cache = Inr (cache, p) \<and>
   \<not> total_cost p < ws_total_cost (initial_cost_nestloop default_gucs empty_workspace JOIN_SEMI p100 p200 example_extra)"
proof -
  obtain c where c: "cost_qual_eval default_gucs (catalogs example_root) [example_clause] unset_cache =
      Inr (c, \<lparr> startup = 0, per_tuple = fl 0.0025 \<rparr>)" by (rule example_eval)
  let ?ws = "initial_cost_nestloop default_gucs empty_workspace JOIN_SEMI p100 p200 example_extra"
  have "\<exists>p. final_cost_nestloop default_gucs example_root example_rinfos example_join ?ws example_extra unset_cache = Inr (c, p)"
    unfolding final_cost_nestloop_def Let_def
    by (auto simp: pbind_def preturn_def c example_join_fields split: prod.split)
  then obtain p where p: "final_cost_nestloop default_gucs example_root example_rinfos example_join ?ws example_extra unset_cache = Inr (c, p)" ..
  then show ?thesis
    using nestloop_initial_is_lower_bound [OF example_join_ok(1) example_factors _ unset_cache_ok p, of empty_workspace]
    by (auto simp: example_join_fields)
qed

text \<open>
  C8: The two phases of hash join costing fit together in the same way: whatever bucket sizes the clauses have
  cached, the preliminary estimates are not above the final ones, the final costs are sane, and the path
  records the number of batches of the first phase. The hash clauses are a subsequence of the join clauses, so
  that the cost of the others, computed by subtraction, does not go below zero.
\<close>

theorem hashjoin_initial_is_lower_bound:
  assumes "join_ok g proot mem path"
    and "first_match_only (jointype path) extra \<Longrightarrow> factors_ok (semifactors extra)" and "estimators_ok est"
    and "restriction_list (joinrestrictinfo path)" "subseq (path_hashclauses path) (joinrestrictinfo path)"
    and "ws = initial_cost_hashjoin g ws0 (path_hashclauses path) (outerjoinpath path) (innerjoinpath path)"
    and "cache_ok g (catalogs proot) mem cache"
    and "final_cost_hashjoin g proot est path ws extra buckets cache = Inr (cache', buckets', p)"
  shows "\<not> startup_cost p < ws_startup_cost ws \<and> \<not> total_cost p < ws_total_cost ws \<and> sane_costs p \<and>
    path_node p = T_HashPath (ws_numbatches ws)"
proof -
  have "bounded_by ws p" using yieldsD [OF final_hashjoin_ok [OF assms(1-6)] assms(7,8)] by simp
  moreover have "path_node p = T_HashPath (ws_numbatches ws)"
    using assms(8) by (auto simp: final_cost_hashjoin_def Let_def pbind_def preturn_def ebind_Inr_iff case_prod_beta)
  ultimately show ?thesis by (simp add: bounded_by_def reaches_def)
qed

theorem hashjoin_initial_is_lower_bound_witness:
  "\<exists>cache buckets p. final_cost_hashjoin default_gucs example_root example_estimators example_hashjoin
     (initial_cost_hashjoin default_gucs empty_workspace [example_clause] p100 p200) example_extra (\<lambda>_. (fl (- 1), fl (- 1)))
     unset_cache = Inr (cache, buckets, p) \<and>
   \<not> total_cost p < ws_total_cost (initial_cost_hashjoin default_gucs empty_workspace [example_clause] p100 p200)"
proof -
  obtain c where c: "cost_qual_eval default_gucs (catalogs example_root) [example_clause] unset_cache =
      Inr (c, \<lparr> startup = 0, per_tuple = fl 0.0025 \<rparr>)" "cache_ok default_gucs example_catalog (\<lambda>_. example_clause) c"
    by (rule example_eval)
  obtain d where d: "cost_qual_eval default_gucs (catalogs example_root) [example_clause] c =
      Inr (d, \<lparr> startup = 0, per_tuple = fl 0.0025 \<rparr>)" by (rule example_eval_cached [OF c(2)])
  let ?ws = "initial_cost_hashjoin default_gucs empty_workspace [example_clause] p100 p200"
  let ?f = "final_cost_hashjoin default_gucs example_root example_estimators example_hashjoin ?ws example_extra
      (\<lambda>_. (fl (- 1), fl (- 1))) unset_cache"
  have "\<exists>b p. ?f = Inr (d, b, p)"
    unfolding final_cost_hashjoin_def Let_def
    by (auto simp: pbind_def preturn_def c(1) d example_join_fields example_hash_fields split: prod.split)
  then obtain b p where p: "?f = Inr (d, b, p)" by blast
  then show ?thesis
    using hashjoin_initial_is_lower_bound [OF example_join_ok(2) example_factors example_estimators_ok _ _ _ unset_cache_ok p,
        of empty_workspace] example_clauses_ok(2)
    by (auto simp: example_join_fields example_hash_fields)
qed

text \<open>
  C13: The plan of a merge join can be executed: the inner input is materialized, or sorted explicitly, or supports
  mark and restore, unless the executor need not back up at all. Material nodes are not added where nothing is
  ever restored, and with \<^verbatim>\<open>enable_material\<close> off only where they are required.
\<close>

theorem mergejoin_inner_restorable:
  assumes "final_cost_mergejoin g proot est path ws extra cache = Inr (cache', p)"
  shows "(materialize_inner p \<or> skip_mark_restore p \<or> innersortkeys path \<noteq> [] \<or>
      ExecSupportsMarkRestore (pathtype (innerjoinpath path)) (path_node (innerjoinpath path))) \<and>
    (skip_mark_restore p \<longleftrightarrow> (jointype path = JOIN_SEMI \<or> jointype path = JOIN_ANTI \<or> inner_unique extra) \<and>
      length (joinrestrictinfo path) = length (path_mergeclauses path)) \<and>
    (materialize_inner p \<longrightarrow> \<not> skip_mark_restore p \<and> (enable_material g \<or> innersortkeys path = [] \<and>
      \<not> ExecSupportsMarkRestore (pathtype (innerjoinpath path)) (path_node (innerjoinpath path))))"
proof -
  obtain q r where "p = finish_mergejoin g est path ws extra q r"
    using assms by (auto simp: final_cost_mergejoin_def pbind_def preturn_def ebind_Inr_iff)
  then have "skip_mark_restore p \<longleftrightarrow> first_match_only (jointype path) extra \<and> length (joinrestrictinfo path) = length (path_mergeclauses path)"
    "\<exists>m b. materialize_inner p = choose_materialize g path (skip_mark_restore p) (protect_rows (rows (innerjoinpath path))) m b"
    by (auto simp: finish_mergejoin_def Let_def split: prod.splits)
  then show ?thesis by (auto simp: choose_materialize_def first_match_only_def Let_def split: if_splits)
qed

theorem mergejoin_inner_restorable_witness:
  "\<exists>cache p. final_cost_mergejoin default_gucs example_root example_estimators example_mergejoin empty_workspace
     (example_extra\<lparr> inner_unique := True \<rparr>) unset_cache = Inr (cache, p) \<and> skip_mark_restore p \<and> \<not> materialize_inner p"
proof -
  obtain c where c: "cost_qual_eval default_gucs (catalogs example_root) [example_clause] unset_cache =
      Inr (c, \<lparr> startup = 0, per_tuple = fl 0.0025 \<rparr>)" "cache_ok default_gucs example_catalog (\<lambda>_. example_clause) c"
    by (rule example_eval)
  obtain d where d: "cost_qual_eval default_gucs (catalogs example_root) [example_clause] c =
      Inr (d, \<lparr> startup = 0, per_tuple = fl 0.0025 \<rparr>)" by (rule example_eval_cached [OF c(2)])
  let ?f = "final_cost_mergejoin default_gucs example_root example_estimators example_mergejoin empty_workspace
     (example_extra\<lparr> inner_unique := True \<rparr>) unset_cache"
  have "\<exists>p. ?f = Inr (d, p)"
    by (auto simp: final_cost_mergejoin_def pbind_def preturn_def c(1) d example_join_fields example_merge_fields)
  then obtain p where "?f = Inr (d, p)" by blast
  from mergejoin_inner_restorable [OF this] this show ?thesis by (auto simp: example_merge_fields example_join_fields)
qed

text \<open>
  C16: Caching scan selectivities in the merge clauses is transparent: \<^verbatim>\<open>cached_scansel\<close> returns the estimate of
  \<^verbatim>\<open>mergejoinscansel\<close> for the clause and the ordering, keeps the caches of all clauses correct, and asked again
  it answers from the cache without storing a second entry.
\<close>

theorem cached_scansel_transparent:
  assumes "scansel_ok est mem cache" "mem (rinfo_address r) = r" "cached_scansel est pks r k cache = (cache', c)"
  shows "(leftstartsel c, leftendsel c, rightstartsel c, rightendsel c) =
      mergejoinscansel est (clause r) (pk_opfamily (pks k)) (pk_strategy (pks k)) (pk_nulls_first (pks k)) \<and>
    scansel_ok est mem cache' \<and> cached_scansel est pks r k cache' = (cache', c) \<and>
    (\<forall>a. a \<noteq> rinfo_address r \<longrightarrow> cache' a = cache a)"
proof -
  have "\<forall>a. a \<noteq> rinfo_address r \<longrightarrow> cache' a = cache a"
    using assms(3) by (auto simp: cached_scansel_def Let_def split: option.splits prod.splits)
  then show ?thesis using cached_scansel_cases(1,2) [OF assms] scan_again [OF assms(3)] by blast
qed

theorem cached_scansel_transparent_witness:
  "\<exists>cache c. cached_scansel example_estimators (\<lambda>_. \<lparr> pk_opfamily = 1, ec_collation = 0, pk_strategy = 1, pk_nulls_first = False \<rparr>)
     example_clause 5 (\<lambda>_. []) = (cache, c) \<and> leftendsel c = fl 1 \<and> length (cache 7) = 1"
proof -
  let ?pks = "\<lambda>_::nat. \<lparr> pk_opfamily = 1, ec_collation = 0, pk_strategy = 1, pk_nulls_first = False \<rparr>"
  obtain cache c where c: "cached_scansel example_estimators ?pks example_clause 5 (\<lambda>_. []) = (cache, c)" by fastforce
  have "scansel_ok example_estimators (\<lambda>_. example_clause) (\<lambda>_. [])" by (simp add: scansel_ok_def)
  from cached_scansel_transparent [OF this refl c] have "leftendsel c = fl 1" by (simp add: example_estimators_def)
  moreover have "length (cache 7) = 1" using c by (auto simp: cached_scansel_def Let_def example_estimators_def example_clause_def)
  ultimately show ?thesis using c by blast
qed

end
