(* ===== verification/Size_Estimates.thy ===== *)
theory Size_Estimates
  imports Rel_Width Join_Bounds "HOL-Library.Multiset"
begin

text \<open>
  How many rows a relation has: the size estimates for base relations of every kind, for joins and for parameterized
  scans and joins at the end of \<^verbatim>\<open>costsize.c\<close>, and \<^verbatim>\<open>get_baserel_parampathinfo\<close> of \<^verbatim>\<open>relnode.c\<close>, which asks for them. The
  selectivity estimators are those of \<open>estimators\<close>, and the clauses that equivalence classes imply are a parameter.
  A routine that fills in a \<^verbatim>\<open>RelOptInfo\<close> returns it updated.
\<close>

subsection \<open>Data\<close>

text \<open>Set-returning functions: whether a call is one (\<^verbatim>\<open>funcretset\<close>, \<^verbatim>\<open>opretset\<close>) and how many rows it promises.\<close>

record set_functions =
  retset :: "Node \<Rightarrow> bool"
  prorows :: "Oid \<Rightarrow> double option"

record TargetEntry =
  te_expr :: Node
  resno :: int
  resjunk :: bool

text \<open>What \<^verbatim>\<open>set_subquery_size_estimates\<close> reads of the planned subquery.\<close>

record Subquery =
  subroot :: PlannerQuery
  sub_final_rel :: RelOptInfo
  sub_targetList :: "TargetEntry list"
  setOperations :: bool

text \<open>\<^verbatim>\<open>generate_join_implied_equalities\<close> and \<^verbatim>\<open>generate_join_implied_equalities_for_ecs\<close> for a join, the outer and the
  inner relations.\<close>

record equivalences =
  generate_join_implied_equalities :: "Relids \<Rightarrow> Relids \<Rightarrow> Relids \<Rightarrow> Node list"
  generate_join_implied_equalities_for_ecs :: "nat option list \<Rightarrow> Relids \<Rightarrow> Relids \<Rightarrow> Relids \<Rightarrow> Node list"

subsection \<open>Base relations\<close>

definition set_baserel_size_estimates ::
    "gucs \<Rightarrow> 'b PlannerQuery_scheme \<Rightarrow> estimators \<Rightarrow> 'a RelOptBase_scheme \<Rightarrow> 'a RelOptBase_scheme planner" where
  "set_baserel_size_estimates g proot est rel =
     (let nrows = tuples rel * clauselist_selectivity est (baserestrictinfo rel) 0 JOIN_INNER None;
          rel1 = rel\<lparr> rel_rows := clamp_row_est nrows \<rparr>
      in pbind (cost_qual_eval g (catalogs proot) (baserestrictinfo rel)) (\<lambda>cost.
           set_rel_width g proot (rel1\<lparr> baserestrictcost := cost \<rparr>)))"

definition get_parameterized_baserel_size :: "estimators \<Rightarrow> 'a RelOptBase_scheme \<Rightarrow> Node list \<Rightarrow> double" where
  "get_parameterized_baserel_size est rel param_clauses =
     (let allclauses = param_clauses @ baserestrictinfo rel;
          nrows = clamp_row_est (tuples rel * clauselist_selectivity est allclauses (int (relid rel)) JOIN_INNER None)
      in if nrows > rel_rows rel then rel_rows rel else nrows)"

definition get_baserel_parampathinfo ::
    "estimators \<Rightarrow> equivalences \<Rightarrow> (nat \<Rightarrow> rinfo_data) \<Rightarrow> RelOptInfo \<Rightarrow> Relids \<Rightarrow> RelOptInfo \<times> ParamPathInfo option" where
  "get_baserel_parampathinfo est ecs rinfos baserel required_outer =
     (if bms_is_empty required_outer then (baserel, None)
      else case find (\<lambda>ppi. bms_equal (ppi_req_outer ppi) required_outer) (ppilist baserel) of
        Some ppi \<Rightarrow> (baserel, Some ppi)
      | None \<Rightarrow>
          let joinrelids = bms_union (relids baserel) required_outer;
              pclauses =
                filter (\<lambda>rinfo. join_clause_is_movable_into (rinfos (rinfo_address rinfo)) (relids baserel) joinrelids)
                  (joininfo baserel) @
                generate_join_implied_equalities ecs joinrelids required_outer (relids baserel);
              ppi = \<lparr> ppi_req_outer = required_outer, ppi_rows = get_parameterized_baserel_size est baserel pclauses,
                      ppi_clauses = pclauses \<rparr>
          in (baserel\<lparr> ppilist := ppilist baserel @ [ppi] \<rparr>, Some ppi))"

text \<open>The column widths that a subquery passes on.\<close>

fun subquery_widths ::
    "Subquery \<Rightarrow> 'a RelOptBase_scheme \<Rightarrow> TargetEntry list \<Rightarrow> int list \<Rightarrow> int list ereport" where
  "subquery_widths sub rel [] ws = Inr ws"
| "subquery_widths sub rel (te # tes) ws =
     (if resjunk te then subquery_widths sub rel tes ws
      else if resno te < min_attr rel \<or> resno te > max_attr rel then subquery_widths sub rel tes ws
      else
        ebind (if is_Var (te_expr te) \<and> \<not> setOperations sub
               then ebind (find_base_rel (subroot sub) (varno (te_expr te))) (\<lambda>subrel.
                      width_at (attr_widths subrel) (varattno (te_expr te) - min_attr subrel))
               else Inr 0) (\<lambda>item_width.
        ebind (set_width ws (resno te - min_attr rel) item_width) (\<lambda>ws'.
          subquery_widths sub rel tes ws')))"

definition set_subquery_size_estimates ::
    "gucs \<Rightarrow> 'b PlannerQuery_scheme \<Rightarrow> estimators \<Rightarrow> Subquery \<Rightarrow> 'a RelOptBase_scheme \<Rightarrow> 'a RelOptBase_scheme planner" where
  "set_subquery_size_estimates g proot est sub rel =
     (case cheapest_total_path (sub_final_rel sub) of
        None \<Rightarrow> praise ''null pointer''
      | Some path \<Rightarrow>
          pbind (plift (subquery_widths sub rel (sub_targetList sub) (attr_widths rel))) (\<lambda>ws.
            set_baserel_size_estimates g proot est (rel\<lparr> tuples := rows path, attr_widths := ws \<rparr>)))"

definition get_func_rows :: "set_functions \<Rightarrow> Oid \<Rightarrow> double ereport" where
  "get_func_rows sf f = (case prorows sf f of None \<Rightarrow> Inl ''cache lookup failed for function'' | Some n \<Rightarrow> Inr n)"

definition expression_returns_set_rows :: "catalog \<Rightarrow> set_functions \<Rightarrow> Node \<Rightarrow> double ereport" where
  "expression_returns_set_rows cat sf node =
     (if is_FuncExpr node \<and> retset sf node then
        ebind (get_func_rows sf (funcid node)) (\<lambda>n. Inr (clamp_row_est n))
      else if is_OpExpr node \<and> retset sf node then
        ebind (get_func_rows sf (set_opfuncid cat (opno node) (opfuncid node))) (\<lambda>n. Inr (clamp_row_est n))
      else Inr (fl 1))"

fun function_tuples :: "catalog \<Rightarrow> set_functions \<Rightarrow> Node list \<Rightarrow> double \<Rightarrow> double ereport" where
  "function_tuples cat sf [] acc = Inr acc"
| "function_tuples cat sf (f # fs) acc =
     ebind (expression_returns_set_rows cat sf f) (\<lambda>ntup. function_tuples cat sf fs (if ntup > acc then ntup else acc))"

definition set_function_size_estimates ::
    "gucs \<Rightarrow> 'b PlannerQuery_scheme \<Rightarrow> estimators \<Rightarrow> set_functions \<Rightarrow> 'a RelOptBase_scheme \<Rightarrow> 'a RelOptBase_scheme planner" where
  "set_function_size_estimates g proot est sf rel =
     pbind (plift (function_tuples (catalogs proot) sf (rte_functions (planner_rt_fetch proot (relid rel))) 0)) (\<lambda>n.
       set_baserel_size_estimates g proot est (rel\<lparr> tuples := n \<rparr>))"

definition set_tablefunc_size_estimates ::
    "gucs \<Rightarrow> 'b PlannerQuery_scheme \<Rightarrow> estimators \<Rightarrow> 'a RelOptBase_scheme \<Rightarrow> 'a RelOptBase_scheme planner" where
  "set_tablefunc_size_estimates g proot est rel = set_baserel_size_estimates g proot est (rel\<lparr> tuples := fl 100 \<rparr>)"

definition set_values_size_estimates ::
    "gucs \<Rightarrow> 'b PlannerQuery_scheme \<Rightarrow> estimators \<Rightarrow> 'a RelOptBase_scheme \<Rightarrow> 'a RelOptBase_scheme planner" where
  "set_values_size_estimates g proot est rel =
     set_baserel_size_estimates g proot est
       (rel\<lparr> tuples := dbl (values_lists_length (planner_rt_fetch proot (relid rel))) \<rparr>)"

definition set_cte_size_estimates ::
    "gucs \<Rightarrow> 'b PlannerQuery_scheme \<Rightarrow> estimators \<Rightarrow> 'a RelOptBase_scheme \<Rightarrow> double \<Rightarrow> 'a RelOptBase_scheme planner" where
  "set_cte_size_estimates g proot est rel cte_rows =
     set_baserel_size_estimates g proot est
       (rel\<lparr> tuples := (if self_reference (planner_rt_fetch proot (relid rel)) then fl 10 * cte_rows else cte_rows) \<rparr>)"

definition set_namedtuplestore_size_estimates ::
    "gucs \<Rightarrow> 'b PlannerQuery_scheme \<Rightarrow> estimators \<Rightarrow> 'a RelOptBase_scheme \<Rightarrow> 'a RelOptBase_scheme planner" where
  "set_namedtuplestore_size_estimates g proot est rel =
     (let n = enrtuples (planner_rt_fetch proot (relid rel))
      in set_baserel_size_estimates g proot est (rel\<lparr> tuples := (if n < 0 then fl 1000 else n) \<rparr>))"

definition set_foreign_size_estimates ::
    "gucs \<Rightarrow> 'b PlannerQuery_scheme \<Rightarrow> 'a RelOptBase_scheme \<Rightarrow> 'a RelOptBase_scheme planner" where
  "set_foreign_size_estimates g proot rel =
     pbind (cost_qual_eval g (catalogs proot) (baserestrictinfo rel)) (\<lambda>cost.
       set_rel_width g proot (rel\<lparr> rel_rows := fl 1000, baserestrictcost := cost \<rparr>))"

subsection \<open>Joins\<close>

text \<open>Whether a foreign key connects the two sides of a join, and if so whether the referenced side is the outer one.\<close>

definition fk_side :: "ForeignKeyOptInfo \<Rightarrow> Relids \<Rightarrow> Relids \<Rightarrow> bool option ereport" where
  "fk_side fkinfo outer inner =
     (let connects = (\<lambda>a b. ebind (bms_is_member (int a) outer) (\<lambda>x. if x then bms_is_member (int b) inner else Inr False))
      in ebind (connects (con_relid fkinfo) (ref_relid fkinfo)) (\<lambda>x.
         if x then Inr (Some False)
         else ebind (connects (ref_relid fkinfo) (con_relid fkinfo)) (\<lambda>y. Inr (if y then Some True else None))))"

text \<open>Whether a clause matches a column of the key: by its equivalence class if it comes from one, otherwise as one of
  the loose clauses.\<close>

definition fk_matches :: "(nat \<Rightarrow> rinfo_data) \<Rightarrow> ForeignKeyOptInfo \<Rightarrow> Node \<Rightarrow> bool" where
  "fk_matches rinfos fkinfo rinfo =
     (case rinfo_parent_ec (rinfos (rinfo_address rinfo)) of
        Some ec \<Rightarrow> list_ex (\<lambda>c. c = Some ec) (fk_eclass fkinfo)
      | None \<Rightarrow> list_ex (\<lambda>l. list_member_ptr l rinfo) (fk_rinfos fkinfo))"

definition fk_step ::
    "'b PlannerQuery_scheme \<Rightarrow> (nat \<Rightarrow> rinfo_data) \<Rightarrow> Relids \<Rightarrow> Relids \<Rightarrow> JoinType \<Rightarrow> ForeignKeyOptInfo \<Rightarrow>
     Selectivity \<times> Node list \<Rightarrow> (Selectivity \<times> Node list) ereport" where
  "fk_step proot rinfos outer inner jt fkinfo st =
     (case st of (fkselec, worklist) \<Rightarrow>
        ebind (fk_side fkinfo outer inner) (\<lambda>side. case side of
          None \<Rightarrow> Inr st
        | Some ref_is_outer \<Rightarrow>
            if (jt = JOIN_SEMI \<or> jt = JOIN_ANTI) \<and> (ref_is_outer \<or> bms_membership inner \<noteq> BMS_SINGLETON) then Inr st
            else
              let kept = filter (\<lambda>r. \<not> fk_matches rinfos fkinfo r) worklist;
                  removedlist = filter (fk_matches rinfos fkinfo) worklist
              in if int (length removedlist) \<noteq> nmatched_ec fkinfo + nmatched_ri fkinfo
                 then Inr (fkselec, kept @ removedlist)
                 else ebind (find_base_rel proot (ref_relid fkinfo)) (\<lambda>ref_rel.
                   let ref_tuples = Max_d (tuples ref_rel) (fl 1)
                   in if jt = JOIN_SEMI \<or> jt = JOIN_ANTI
                      then Inr (fkselec * (rel_rows ref_rel / ref_tuples), kept)
                      else Inr (fkselec * (fl 1 / ref_tuples), kept))))"

fun fk_loop ::
    "'b PlannerQuery_scheme \<Rightarrow> (nat \<Rightarrow> rinfo_data) \<Rightarrow> Relids \<Rightarrow> Relids \<Rightarrow> JoinType \<Rightarrow> ForeignKeyOptInfo list \<Rightarrow>
     Selectivity \<times> Node list \<Rightarrow> (Selectivity \<times> Node list) ereport" where
  "fk_loop proot rinfos outer inner jt [] st = Inr st"
| "fk_loop proot rinfos outer inner jt (fk # fks) st =
     ebind (fk_step proot rinfos outer inner jt fk st) (fk_loop proot rinfos outer inner jt fks)"

definition get_foreign_key_join_selectivity ::
    "'b PlannerQuery_scheme \<Rightarrow> (nat \<Rightarrow> rinfo_data) \<Rightarrow> Relids \<Rightarrow> Relids \<Rightarrow> SpecialJoinInfo \<Rightarrow> Node list \<Rightarrow>
     (Selectivity \<times> Node list) ereport" where
  "get_foreign_key_join_selectivity proot rinfos outer inner sjinfo restrictlist =
     fk_loop proot rinfos outer inner (sj_jointype sjinfo) (fkey_list proot) (fl 1, restrictlist)"

text \<open>The switch over the join types.\<close>

definition join_nrows :: "JoinType \<Rightarrow> double \<Rightarrow> double \<Rightarrow> Selectivity \<Rightarrow> Selectivity \<Rightarrow> Selectivity \<Rightarrow> double ereport" where
  "join_nrows jt outer_rows inner_rows fkselec jselec pselec =
     (case jt of
        JOIN_INNER \<Rightarrow> Inr (outer_rows * inner_rows * fkselec * jselec)
      | JOIN_LEFT \<Rightarrow>
          let n0 = outer_rows * inner_rows * fkselec * jselec;
              n1 = (if n0 < outer_rows then outer_rows else n0)
          in Inr (n1 * pselec)
      | JOIN_FULL \<Rightarrow>
          let n0 = outer_rows * inner_rows * fkselec * jselec;
              n1 = (if n0 < outer_rows then outer_rows else n0);
              n2 = (if n1 < inner_rows then inner_rows else n1)
          in Inr (n2 * pselec)
      | JOIN_SEMI \<Rightarrow> Inr (outer_rows * fkselec * jselec)
      | JOIN_ANTI \<Rightarrow> Inr (outer_rows * (fl 1 - fkselec * jselec) * pselec)
      | _ \<Rightarrow> Inl ''unrecognized join type'')"

definition calc_joinrel_size_estimate ::
    "'b PlannerQuery_scheme \<Rightarrow> estimators \<Rightarrow> (nat \<Rightarrow> rinfo_data) \<Rightarrow> 'a RelOptBase_scheme \<Rightarrow> 'c RelOptBase_scheme \<Rightarrow>
     double \<Rightarrow> double \<Rightarrow> SpecialJoinInfo \<Rightarrow> Node list \<Rightarrow> double ereport" where
  "calc_joinrel_size_estimate proot est rinfos outer_rel inner_rel outer_rows inner_rows sjinfo restrictlist_in =
     (let jt = sj_jointype sjinfo
      in ebind (get_foreign_key_join_selectivity proot rinfos (relids outer_rel) (relids inner_rel) sjinfo restrictlist_in)
         (\<lambda>(fkselec, restrictlist).
           let (jselec, pselec) =
                 (if IS_OUTER_JOIN jt then
                    (clauselist_selectivity est (filter (\<lambda>rinfo. \<not> is_pushed_down rinfo) restrictlist) 0 jt (Some sjinfo),
                     clauselist_selectivity est (filter is_pushed_down restrictlist) 0 jt (Some sjinfo))
                  else (clauselist_selectivity est restrictlist 0 jt (Some sjinfo), 0))
           in ebind (join_nrows jt outer_rows inner_rows fkselec jselec pselec) (\<lambda>nrows. Inr (clamp_row_est nrows))))"

definition set_joinrel_size_estimates ::
    "'b PlannerQuery_scheme \<Rightarrow> estimators \<Rightarrow> (nat \<Rightarrow> rinfo_data) \<Rightarrow> 'd RelOptBase_scheme \<Rightarrow> 'a RelOptBase_scheme \<Rightarrow>
     'c RelOptBase_scheme \<Rightarrow> SpecialJoinInfo \<Rightarrow> Node list \<Rightarrow> 'd RelOptBase_scheme ereport" where
  "set_joinrel_size_estimates proot est rinfos rel outer_rel inner_rel sjinfo restrictlist =
     ebind (calc_joinrel_size_estimate proot est rinfos outer_rel inner_rel (rel_rows outer_rel) (rel_rows inner_rel) sjinfo
         restrictlist) (\<lambda>n. Inr (rel\<lparr> rel_rows := n \<rparr>))"

definition get_parameterized_joinrel_size ::
    "'b PlannerQuery_scheme \<Rightarrow> estimators \<Rightarrow> (nat \<Rightarrow> rinfo_data) \<Rightarrow> 'a RelOptBase_scheme \<Rightarrow> Path \<Rightarrow> Path \<Rightarrow>
     SpecialJoinInfo \<Rightarrow> Node list \<Rightarrow> double ereport" where
  "get_parameterized_joinrel_size proot est rinfos rel outer_path inner_path sjinfo restrict_clauses =
     ebind (calc_joinrel_size_estimate proot est rinfos (parent outer_path) (parent inner_path) (rows outer_path)
         (rows inner_path) sjinfo restrict_clauses) (\<lambda>nrows.
       Inr (if nrows > rel_rows rel then rel_rows rel else nrows))"

subsection \<open>Clamped rows\<close>

lemma rows_ok_clamp: "rows_ok (clamp_row_est x)"
proof (cases "is_nan x")
  case True
  then have "clamp_row_est x = NaN" using clamp_nan by (simp add: is_nan_iff)
  then show ?thesis using whole_clamp [of x] by (simp add: rows_ok_def)
next
  case False
  then have "fl 1 \<le> clamp_row_est x" by (rule clamp_ge_1)
  then show ?thesis using whole_clamp [of x] dle_less_trans dless_irrefl unfolding rows_ok_def by blast
qed

lemma clamp_fix: "rows_ok n \<Longrightarrow> clamp_row_est n = n"
proof -
  assume n: "rows_ok n"
  show ?thesis
  proof (cases "n \<le> fl 1")
    case True
    then have "n = fl 1" using n dlinear [of n "fl 1"] dless_not_le [of "fl 1" n] dle_not_nan [OF True] by (auto simp: rows_ok_def)
    then show ?thesis using True by (simp add: clamp_row_est_def)
  qed (use n in \<open>simp add: clamp_row_est_def rows_ok_def whole_def\<close>)
qed

lemma clamp_not_less: "rows_ok m \<Longrightarrow> \<not> n < m \<Longrightarrow> \<not> clamp_row_est n < m"
  using clamp_mono [of m n] clamp_fix [of m] dnot_less [of n m] clamp_nan [of n]
  by (cases "is_nan n \<or> is_nan m") (auto simp: is_nan_iff dest: dless_not_le)

lemma clamp_not_above: "rows_ok m \<Longrightarrow> \<not> m < n \<Longrightarrow> \<not> m < clamp_row_est n"
  using clamp_mono [of n m] clamp_fix [of m] dnot_less [of m n] clamp_nan [of n]
  by (cases "is_nan n \<or> is_nan m") (auto simp: is_nan_iff dest: dless_not_le)

lemma rows_okD: "rows_ok n \<Longrightarrow> nonneg n"
  by (simp add: rows_ok_def nonneg_not_below_1)

lemma nan_mult: "is_nan a \<Longrightarrow> is_nan (a * b)"
  by (cases b) (simp_all add: is_nan_iff times_double_def)

lemma fraction_not_above: "nonneg n \<Longrightarrow> between 0 1 s \<Longrightarrow> \<not> n < n * s"
proof -
  assume "nonneg n" "between 0 1 s"
  moreover have "s \<le> fl 1" using \<open>between 0 1 s\<close> fl_mono [of _ 1] by (auto simp: between_def) (metis fl_val)
  ultimately show ?thesis using dmult_mono_not_less [of n s "fl 1"] by simp
qed

lemma not_above_trans: "\<not> a < b \<Longrightarrow> \<not> b < c \<Longrightarrow> (is_nan b \<Longrightarrow> is_nan c) \<Longrightarrow> \<not> a < (c::double)"
  using dlinear [of b c] dless_trans dless_not_nan by metis

lemma fractions_not_above:
  "nonneg n \<Longrightarrow> between 0 1 s \<Longrightarrow> between 0 1 t \<Longrightarrow> \<not> n < n * s * t"
  by (rule not_above_trans [OF fraction_not_above fraction_not_above])
    (auto intro: nonneg_mult le_imp_nonneg between_le nan_mult)

subsection \<open>Sizes of base relations\<close>

text \<open>A finite size, and no more rows than tuples, but for the minimum of one row.\<close>

definition base_sized :: "'a RelOptBase_scheme \<Rightarrow> bool" where
  "base_sized rel \<longleftrightarrow> (\<exists>r t. rel_rows rel = Fin r \<and> tuples rel = Fin t \<and> 1 \<le> val r \<and> val r \<le> max (val t) 1)"

lemma rows_fraction: "base_sized rel \<Longrightarrow> between 0 1 (rel_rows rel / Max_d (tuples rel) (fl 1))"
proof -
  assume "base_sized rel"
  then obtain r t where rt: "rel_rows rel = Fin r" "tuples rel = Fin t" "1 \<le> val r" "val r \<le> max (val t) 1"
    by (auto simp: base_sized_def)
  obtain e where e: "fl 1 = Fin e" "val e = 1" using fl_eq_Fin [OF exact_one] by blast
  obtain m where m: "Max_d (tuples rel) (fl 1) = Fin m" "val m = max (val t) 1"
    using rt e that [of t] that [of e] by (cases "1 < val t") (auto simp: Max_d_def less_double_def)
  have "0 \<le> val r / val m" "val r / val m \<le> 1" using rt m by simp_all
  then have "between 0 1 (fl (val r / val m))" by (intro between_fl exact_zero exact_one)
  moreover have "val m \<noteq> 0" using m by simp
  ultimately show ?thesis using rt m by (simp add: divide_double_def)
qed

lemma one_fraction: "between 0 1 (fl 1 / Max_d n (fl 1))"
proof -
  obtain e where e: "fl 1 = Fin e" "val e = 1" using fl_eq_Fin [OF exact_one] by blast
  have z: "between 0 1 (fl 0)" using between_fl [of 0 0 1] exact_zero exact_one by simp
  have f: "between 0 1 (Fin e / Fin m)" if "1 \<le> val m" for m
  proof -
    have "0 \<le> 1 / val m" "1 / val m \<le> 1" "val m \<noteq> 0" using that by simp_all
    then show ?thesis using between_fl [of 0 "1 / val m" 1] exact_zero exact_one e by (simp add: divide_double_def)
  qed
  show ?thesis using f [of e] f z e
    by (cases n) (auto simp: Max_d_def less_double_def divide_double_def)
qed

lemma base_size:
  assumes "between 0 1 s" "tuples rel = Fin t" "0 \<le> val t" "whole (tuples rel)" "rel_rows rel = clamp_row_est (tuples rel * s)"
  shows "base_sized rel"
proof -
  obtain e where e: "fl 1 = Fin e" "val e = 1" using fl_eq_Fin [OF exact_one] by blast
  obtain m where m: "Max_d (tuples rel) (fl 1) = Fin m" "val m = max (val t) 1" "rows_ok (Fin m)"
    using assms(2-4) e whole_fl_1 that [of t] that [of e] by (cases "1 < val t") (auto simp: Max_d_def less_double_def rows_ok_def)
  have "\<not> tuples rel < tuples rel * s" using assms(2,3) by (intro fraction_not_above assms(1)) simp
  then have "\<not> Fin m < tuples rel * s"
    using m(2) assms(2) by (cases "tuples rel * s") (auto simp: less_double_def)
  then have le: "\<not> Fin m < rel_rows rel" unfolding assms(5) by (rule clamp_not_above [OF m(3)])
  obtain c where c: "s = Fin c" using assms(1) by (auto simp: between_def)
  have "\<not> is_nan (tuples rel * s)" using assms(2) c by (simp add: times_double_def)
  then have "fl 1 \<le> rel_rows rel" unfolding assms(5) by (rule clamp_ge_1)
  then show ?thesis using le m(2) assms(2) e by (cases "rel_rows rel") (auto simp: base_sized_def less_double_def less_eq_double_def)
qed

subsection \<open>Foreign keys\<close>

text \<open>The share of rows that a foreign key lets through.\<close>

definition fk_factor :: "'b PlannerQuery_scheme \<Rightarrow> JoinType \<Rightarrow> ForeignKeyOptInfo \<Rightarrow> Selectivity" where
  "fk_factor proot jt fk =
     (case find_base_rel proot (ref_relid fk) of
        Inr ref_rel \<Rightarrow>
          (if jt = JOIN_SEMI \<or> jt = JOIN_ANTI then rel_rows ref_rel else fl 1) / Max_d (tuples ref_rel) (fl 1)
      | Inl _ \<Rightarrow> fl 1)"

text \<open>The outcome of the loop: some of the keys are applied, their factors are multiplied, and for each of them exactly the
  clauses it was matched to before are removed; nothing else is lost.\<close>

definition fk_outcome ::
    "'b PlannerQuery_scheme \<Rightarrow> (nat \<Rightarrow> rinfo_data) \<Rightarrow> JoinType \<Rightarrow> ForeignKeyOptInfo list \<Rightarrow> Selectivity \<times> Node list \<Rightarrow>
     ForeignKeyOptInfo list \<Rightarrow> Node multiset \<Rightarrow> Selectivity \<times> Node list \<Rightarrow> bool" where
  "fk_outcome proot rinfos jt fks st applied removed st' \<longleftrightarrow>
     subseq applied fks \<and>
     fst st' = foldl (\<lambda>s fk. s * fk_factor proot jt fk) (fst st) applied \<and>
     mset (snd st) = mset (snd st') + removed \<and>
     int (size removed) = (\<Sum>fk \<leftarrow> applied. nmatched_ec fk + nmatched_ri fk) \<and>
     (\<forall>r. r \<in># removed \<longrightarrow> (\<exists>fk \<in> set applied. fk_matches rinfos fk r))"

lemma fk_step_outcome:
  assumes "fk_step proot rinfos outer inner jt fk st = Inr st'"
  obtains applied removed where "fk_outcome proot rinfos jt [fk] st applied removed st'"
proof -
  obtain fkselec work where st: "st = (fkselec, work)" by fastforce
  let ?kept = "filter (\<lambda>r. \<not> fk_matches rinfos fk r) work" and ?gone = "filter (fk_matches rinfos fk) work"
  have parts: "mset ?kept + mset ?gone = mset work"
    using multiset_partition [of "mset work" "fk_matches rinfos fk"] by (simp add: union_commute)
  obtain side where side: "fk_side fk outer inner = Inr side" using assms unfolding st fk_step_def prod.case ebind_Inr_iff by blast
  have "st' = st \<or> st' = (fkselec, ?kept @ ?gone) \<or>
      int (length ?gone) = nmatched_ec fk + nmatched_ri fk \<and> st' = (fkselec * fk_factor proot jt fk, ?kept)"
  proof (cases side)
    case None
    then show ?thesis using assms side unfolding st by (simp add: fk_step_def)
  next
    case (Some ref_is_outer)
    show ?thesis
    proof (cases "(jt = JOIN_SEMI \<or> jt = JOIN_ANTI) \<and> (ref_is_outer \<or> bms_membership inner \<noteq> BMS_SINGLETON)")
      case True
      then show ?thesis using assms side Some unfolding st by (simp add: fk_step_def)
    next
      case go: False
      show ?thesis
      proof (cases "int (length ?gone) = nmatched_ec fk + nmatched_ri fk")
        case True
        with assms side Some go obtain rel where "find_base_rel proot (ref_relid fk) = Inr rel"
          unfolding st fk_step_def by (auto simp: Let_def ebind_Inr_iff)
        then show ?thesis using assms side Some go True unfolding st fk_step_def fk_factor_def
          by (cases "jt = JOIN_SEMI \<or> jt = JOIN_ANTI") (simp_all add: Let_def)
      next
        case False
        then show ?thesis using assms side Some go unfolding st by (simp add: fk_step_def Let_def)
      qed
    qed
  qed
  then show ?thesis
  proof (elim disjE)
    assume "st' = st"
    then show ?thesis using that [of "[]" "{#}"] by (simp add: fk_outcome_def)
  next
    assume "st' = (fkselec, ?kept @ ?gone)"
    then show ?thesis using that [of "[]" "{#}"] parts st by (simp add: fk_outcome_def)
  next
    assume "int (length ?gone) = nmatched_ec fk + nmatched_ri fk \<and> st' = (fkselec * fk_factor proot jt fk, ?kept)"
    moreover have "size (filter_mset (fk_matches rinfos fk) (mset work)) = length ?gone" by (simp flip: mset_filter)
    ultimately show ?thesis using that [of "[fk]" "mset ?gone"] parts st by (auto simp: fk_outcome_def)
  qed
qed

lemma fk_loop_outcome:
  assumes "fk_loop proot rinfos outer inner jt fks st = Inr st'"
  shows "\<exists>applied removed. fk_outcome proot rinfos jt fks st applied removed st'"
  using assms
proof (induction fks arbitrary: st)
  case Nil
  then show ?case by (intro exI [of _ "[]"] exI [of _ "{#}"]) (simp add: fk_outcome_def)
next
  case (Cons fk fks)
  then obtain st1 where 1: "fk_step proot rinfos outer inner jt fk st = Inr st1"
    and 2: "fk_loop proot rinfos outer inner jt fks st1 = Inr st'" by (auto simp: ebind_Inr_iff)
  from 1 obtain a r where ar: "fk_outcome proot rinfos jt [fk] st a r st1" by (rule fk_step_outcome)
  from Cons.IH [OF 2] obtain a' r' where ar': "fk_outcome proot rinfos jt fks st1 a' r' st'" by blast
  have "subseq (a @ a') ([fk] @ fks)" using ar ar' by (intro list_emb_append_mono) (simp_all add: fk_outcome_def)
  then have "fk_outcome proot rinfos jt (fk # fks) st (a @ a') (r + r') st'"
    using ar ar' by (auto simp: fk_outcome_def)
  then show ?case by blast
qed

definition keys_ok :: "'b PlannerQuery_scheme \<Rightarrow> bool" where
  "keys_ok proot \<longleftrightarrow> (\<forall>rel. Some rel \<in> set (simple_rel_array proot) \<longrightarrow> base_sized rel)"

lemma fk_factor_fraction: "keys_ok proot \<Longrightarrow> between 0 1 (fk_factor proot jt fk)"
proof -
  assume k: "keys_ok proot"
  show ?thesis
  proof (cases "find_base_rel proot (ref_relid fk)")
    case (Inl e)
    then show ?thesis using between_fl [of 0 1 1] exact_zero exact_one by (simp add: fk_factor_def)
  next
    case (Inr rel)
    then have "Some rel \<in> set (simple_rel_array proot)"
      by (auto simp: find_base_rel_def split: if_splits option.splits) (metis nth_mem)
    then have "base_sized rel" using k by (simp add: keys_ok_def)
    from rows_fraction [OF this] show ?thesis using Inr one_fraction [of "tuples rel"] by (simp add: fk_factor_def)
  qed
qed

lemma fk_selectivity_fraction:
  assumes "keys_ok proot" "get_foreign_key_join_selectivity proot rinfos outer inner sj clauses = Inr (s, rest)"
  shows "between 0 1 s"
proof -
  have "between 0 1 x \<Longrightarrow> between 0 1 (foldl (\<lambda>s fk. s * fk_factor proot jt fk) x fks)" for x jt fks
    by (induction fks arbitrary: x) (auto intro: fraction_mult fk_factor_fraction [OF assms(1)])
  moreover have "between 0 1 (fl 1)" using between_fl [of 0 1 1] exact_zero exact_one by simp
  ultimately show ?thesis
    using fk_loop_outcome [OF assms(2) [unfolded get_foreign_key_join_selectivity_def]] by (auto simp: fk_outcome_def)
qed

lemma fk_selectivity_returns:
  assumes "\<forall>fk \<in> set (fkey_list proot). \<exists>rel. find_base_rel proot (ref_relid fk) = Inr rel"
  shows "\<exists>s rest. get_foreign_key_join_selectivity proot rinfos outer inner sj clauses = Inr (s, rest)"
proof -
  have m: "\<exists>b. bms_is_member (int k) a = Inr b" for k a by (cases a) (auto simp: bms_is_member_def intro: exI [of _ False])
  have side: "\<exists>x. fk_side fk outer inner = Inr x" for fk
    using m [of "con_relid fk" outer] m [of "ref_relid fk" inner] m [of "ref_relid fk" outer] m [of "con_relid fk" inner]
    by (auto simp: fk_side_def Let_def)
  have step: "\<exists>st'. fk_step proot rinfos outer inner jt fk st = Inr st'" if "fk \<in> set (fkey_list proot)" for fk st jt
    using side [of fk] assms that by (cases st) (auto simp: fk_step_def Let_def split: option.split)
  have "set fks \<subseteq> set (fkey_list proot) \<Longrightarrow> \<exists>st'. fk_loop proot rinfos outer inner jt fks st = Inr st'" for fks st jt
  proof (induction fks arbitrary: st)
    case (Cons fk fks)
    then show ?case using step [of fk jt st] by auto
  qed simp
  from this [OF order_refl] show ?thesis unfolding get_foreign_key_join_selectivity_def by auto
qed

subsection \<open>Sizes of joins\<close>

lemma join_nrows_bounds:
  assumes "rows_ok m" "rows_ok n" "between 0 1 f" "between 0 1 j" "between 0 1 q" "join_nrows jt m n f j q = Inr r"
  shows "jt = JOIN_LEFT \<or> jt = JOIN_FULL \<Longrightarrow> q = fl 1 \<Longrightarrow> \<not> r < m"
    "jt = JOIN_FULL \<Longrightarrow> q = fl 1 \<Longrightarrow> \<not> r < n"
    "jt = JOIN_SEMI \<or> jt = JOIN_ANTI \<Longrightarrow> \<not> m < r"
proof -
  note nn = rows_okD [OF assms(1)]
  have up: "\<not> (if a < b then b else a) < b" for a b :: double by simp
  have keep: "\<not> (if a < b then b else a) < c" if "\<not> a < c" for a b c :: double using that dless_trans [of a b c] by auto
  show "\<not> r < m" if jt: "jt = JOIN_LEFT \<or> jt = JOIN_FULL" and q: "q = fl 1"
    using jt
  proof
    assume "jt = JOIN_LEFT"
    then show ?thesis using assms(6) up [of "m * n * f * j" m] by (simp add: q join_nrows_def Let_def)
  next
    assume "jt = JOIN_FULL"
    then show ?thesis using assms(6) keep [OF up [of "m * n * f * j" m], of n] by (simp add: q join_nrows_def Let_def)
  qed
  show "\<not> r < n" if jt: "jt = JOIN_FULL" and q: "q = fl 1"
    using assms(6) jt up [of "if m * n * f * j < m then m else m * n * f * j" n] by (simp add: q join_nrows_def Let_def)
  have "between 0 1 (fl 1 - f * j)"
    using between_minus [of 1 1 "fl 1" 0 1 "f * j" 0 1] fraction_mult(1) [OF assms(3,4)] between_fl [of 1 1 1] exact_one exact_zero by simp
  then show "\<not> m < r" if "jt = JOIN_SEMI \<or> jt = JOIN_ANTI"
    using that assms(6) fractions_not_above [OF nn assms(3,4)] fractions_not_above [OF nn _ assms(5)]
    by (auto simp: join_nrows_def)
qed

definition fk_rels_known :: "'b PlannerQuery_scheme \<Rightarrow> bool" where
  "fk_rels_known proot \<longleftrightarrow> (\<forall>fk \<in> set (fkey_list proot). \<exists>rel. find_base_rel proot (ref_relid fk) = Inr rel)"

lemma calc_joinrel_cases:
  assumes est: "estimators_ok est" and k: "keys_ok proot"
    and r: "get_foreign_key_join_selectivity proot rinfos (relids outer) (relids inner) sj clauses = Inr (s, rest)"
  obtains j q where "between 0 1 j" "between 0 1 q"
    "IS_OUTER_JOIN (sj_jointype sj) \<longrightarrow> q = clauselist_selectivity est (filter is_pushed_down rest) 0 (sj_jointype sj) (Some sj)"
    "calc_joinrel_size_estimate proot est rinfos outer inner m n sj clauses =
       ebind (join_nrows (sj_jointype sj) m n s j q) (\<lambda>x. Inr (clamp_row_est x))"
proof -
  have c: "between 0 1 (clauselist_selectivity est ns v jt sji)" for ns v jt sji using est by (simp add: estimators_ok_def)
  have z: "between 0 1 0" using between_fl [of 0 0 1] exact_zero exact_one by (simp add: zero_fl)
  show ?thesis
  proof (cases "IS_OUTER_JOIN (sj_jointype sj)")
    case True
    show ?thesis by (rule that [OF c c]) (use r True in \<open>simp_all add: calc_joinrel_size_estimate_def Let_def\<close>)
  next
    case False
    show ?thesis by (rule that [OF c z]) (use r False in \<open>simp_all add: calc_joinrel_size_estimate_def Let_def\<close>)
  qed
qed

lemma calc_joinrel_rows_ok: "calc_joinrel_size_estimate proot est rinfos outer inner m n sj clauses = Inr r \<Longrightarrow> rows_ok r"
  by (auto simp: calc_joinrel_size_estimate_def Let_def ebind_Inr_iff case_prod_beta rows_ok_clamp split: if_splits)

lemma fk_rest_subset:
  "get_foreign_key_join_selectivity proot rinfos outer inner sj clauses = Inr (s, rest) \<Longrightarrow> set rest \<subseteq> set clauses"
  using fk_loop_outcome [of proot rinfos outer inner "sj_jointype sj" "fkey_list proot" "(fl 1, clauses)" "(s, rest)"]
  by (auto simp: get_foreign_key_join_selectivity_def fk_outcome_def)
    (metis set_mset_mset union_iff)

subsection \<open>Parameterized scans and joins\<close>

lemma parameterized_baserel_size:
  "rows_ok (rel_rows rel) \<Longrightarrow> rows_ok (get_parameterized_baserel_size est rel clauses)"
  "\<not> rel_rows rel < get_parameterized_baserel_size est rel clauses"
  by (simp_all add: get_parameterized_baserel_size_def Let_def rows_ok_clamp)

lemma parameterized_joinrel_size:
  assumes "get_parameterized_joinrel_size proot est rinfos rel outer inner sj clauses = Inr n"
  shows "rows_ok (rel_rows rel) \<Longrightarrow> rows_ok n" "\<not> rel_rows rel < n"
  using assms by (auto simp: get_parameterized_joinrel_size_def ebind_Inr_iff dest: calc_joinrel_rows_ok split: if_splits)

lemma baserel_parampathinfo:
  assumes "get_baserel_parampathinfo est ecs rinfos rel req = (rel', par)" "\<forall>ppi \<in> set (ppilist rel). rows_ok (ppi_rows ppi)"
    "rows_ok (rel_rows rel)"
  shows "\<forall>ppi \<in> set (ppilist rel'). rows_ok (ppi_rows ppi)" "par = None \<longleftrightarrow> bms_is_empty req"
    "\<And>ppi. par = Some ppi \<Longrightarrow> rows_ok (ppi_rows ppi) \<and> ppi \<in> set (ppilist rel') \<and> (bms_equal (ppi_req_outer ppi) req \<or> ppi_req_outer ppi = req)"
  using assms parameterized_baserel_size(1) [OF assms(3)]
  by (auto simp: get_baserel_parampathinfo_def Let_def find_Some_iff split: if_splits option.splits)

subsection \<open>Relations as they are sized\<close>

lemma cost_qual_eval_node_yields:
  assumes "gucs_ok g" "catalog_ok cat" "clauses_ok mem [n]"
  shows "yields (cache_ok g cat mem) (cost_qual_eval_node g cat n) qual_nonneg"
  using cost_qual_eval_yields [OF assms]
  by (simp add: yields_def cost_qual_eval_def cost_qual_eval_node_def walk_children.simps ebind_def split: sum.splits prod.splits)

definition target_exprs_ok :: "(nat \<Rightarrow> Node) \<Rightarrow> 'a RelOptBase_scheme \<Rightarrow> bool" where
  "target_exprs_ok mem rel \<longleftrightarrow> (\<forall>n \<in> set (target_exprs (reltarget rel)). clauses_ok mem [evaluated n])"

lemma rel_width_expr_yields:
  assumes "gucs_ok g" "catalog_ok (catalogs proot)" "clauses_ok mem [evaluated n]" "qual_nonneg (cur_cost st)"
  shows "yields (cache_ok g (catalogs proot) mem) (rel_width_expr g proot reloid rel n st) (\<lambda>st'. qual_nonneg (cur_cost st'))"
proof -
  have e: "yields (cache_ok g (catalogs proot) mem) (add_expr g (catalogs proot) (evaluated n) w st) (\<lambda>st'. qual_nonneg (cur_cost st'))" for w
    unfolding add_expr_def
    by (rule yields_bind [OF cost_qual_eval_node_yields [OF assms(1-3)]], rule yields_return) (simp add: qual_nonneg_intros assms(4))
  have v: "rel_width_var wc reloid rel n st = Inr st' \<Longrightarrow> qual_nonneg (cur_cost st')" for wc st'
    using assms(4) by (auto simp: rel_width_var_def Let_def ebind_Inr_iff split: if_splits)
  show ?thesis
  proof (cases "own_var rel n")
    case True
    then show ?thesis unfolding rel_width_expr_def Let_def own_var_def by (auto intro: yields_lift v)
  next
    case False
    show ?thesis
    proof (cases "is_PlaceHolderVar n")
      case True
      then show ?thesis using False e unfolding rel_width_expr_def Let_def own_var_def evaluated_def
        by (auto intro!: yields_bind [OF yields_lift [OF TrueI]])
    next
      case False
      then show ?thesis using e \<open>\<not> own_var rel n\<close> unfolding rel_width_expr_def Let_def own_var_def evaluated_def by auto
    qed
  qed
qed


lemma fold_exprs_yields:
  assumes "gucs_ok g" "catalog_ok (catalogs proot)" "\<forall>n \<in> set ns. clauses_ok mem [evaluated n]"
  shows "qual_nonneg (cur_cost st) \<Longrightarrow>
    yields (cache_ok g (catalogs proot) mem) (fold_exprs (rel_width_expr g proot reloid rel) ns st) (\<lambda>st'. qual_nonneg (cur_cost st'))"
  using assms(3)
proof (induction ns arbitrary: st)
  case Nil
  then show ?case by (simp add: yields_return)
next
  case (Cons n ns)
  then show ?case by (simp, intro yields_bind [OF rel_width_expr_yields [OF assms(1,2)]]) simp_all
qed

text \<open>The relation with other widths and another target cost and width.\<close>

definition same_size :: "'a RelOptBase_scheme \<Rightarrow> 'a RelOptBase_scheme \<Rightarrow> bool" where
  "same_size rel rel' \<longleftrightarrow> (\<exists>ws c w. rel' = rel\<lparr> attr_widths := ws, reltarget := (reltarget rel)\<lparr> target_cost := c, target_width := w \<rparr> \<rparr>)"

lemma set_rel_width_yields:
  assumes "gucs_ok g" "catalog_ok (catalogs proot)" "target_exprs_ok mem rel"
  shows "yields (cache_ok g (catalogs proot) mem) (set_rel_width g proot rel)
    (\<lambda>rel'. same_size rel rel' \<and> qual_nonneg (target_cost (reltarget rel')))"
proof -
  have w: "add_wholerow wc reloid rel st = Inr st' \<Longrightarrow> cur_cost st' = cur_cost st" for wc reloid st st'
    by (auto simp: add_wholerow_def ebind_Inr_iff split: if_splits)
  let ?oid = "rte_relid (planner_rt_fetch proot (relid rel))"
  show ?thesis unfolding set_rel_width_def Let_def
  proof (rule yields_bind [OF fold_exprs_yields [OF assms(1,2)]])
    fix st :: width_state assume st: "qual_nonneg (cur_cost st)"
    have "yields (cache_ok g (catalogs proot) mem) (plift (add_wholerow (widths proot) ?oid rel st)) (\<lambda>st'. qual_nonneg (cur_cost st'))"
      using st w by (intro yields_lift) auto
    then show "yields (cache_ok g (catalogs proot) mem) (pbind (plift (add_wholerow (widths proot) ?oid rel st)) (\<lambda>st2.
        preturn (rel\<lparr> attr_widths := cur_widths st2,
          reltarget := (reltarget rel)\<lparr> target_cost := cur_cost st2, target_width := tuple_width st2 \<rparr> \<rparr>)))
      (\<lambda>rel'. same_size rel rel' \<and> qual_nonneg (target_cost (reltarget rel')))"
      by (rule yields_bind, intro yields_return) (auto simp: same_size_def)
  qed (use assms(3) in \<open>auto simp: target_exprs_ok_def qual_nonneg_intros\<close>)
qed

text \<open>A relation after sizing: rows and restriction cost in order, and a target that costs nothing below zero.\<close>

definition sized :: "'a RelOptBase_scheme \<Rightarrow> bool" where
  "sized rel \<longleftrightarrow> rows_ok (rel_rows rel) \<and> nonneg (tuples rel) \<and> qual_nonneg (baserestrictcost rel) \<and>
     qual_nonneg (target_cost (reltarget rel))"

lemma baserel_sized:
  assumes ok: "gucs_ok g" "catalog_ok (catalogs proot)" "target_exprs_ok mem rel" "clauses_ok mem (baserestrictinfo rel)"
    and t: "nonneg (tuples rel)"
  shows "yields (cache_ok g (catalogs proot) mem) (set_baserel_size_estimates g proot est rel) (\<lambda>rel'. sized rel' \<and>
    tuples rel' = tuples rel \<and> rel_rows rel' = clamp_row_est (tuples rel * clauselist_selectivity est (baserestrictinfo rel) 0 JOIN_INNER None))"
  unfolding set_baserel_size_estimates_def Let_def
proof (rule yields_bind [OF cost_qual_eval_yields [OF ok(1,2,4)]])
  fix cost :: QualCost assume c: "qual_nonneg cost"
  let ?rel = "rel\<lparr> rel_rows := clamp_row_est (tuples rel * clauselist_selectivity est (baserestrictinfo rel) 0 JOIN_INNER None),
    baserestrictcost := cost \<rparr>"
  have "target_exprs_ok mem ?rel" using ok(3) by (simp add: target_exprs_ok_def)
  from set_rel_width_yields [OF ok(1,2) this]
  show "yields (cache_ok g (catalogs proot) mem) (set_rel_width g proot ?rel) (\<lambda>rel'. sized rel' \<and> tuples rel' = tuples rel \<and>
      rel_rows rel' = clamp_row_est (tuples rel * clauselist_selectivity est (baserestrictinfo rel) 0 JOIN_INNER None))"
    unfolding yields_def same_size_def sized_def using c t rows_ok_clamp by fastforce
qed

text \<open>Estimated from a whole number of tuples, the relation has no more rows than tuples.\<close>

lemma baserel_base_sized:
  assumes "estimators_ok est" "tuples rel' = Fin t" "0 \<le> val t" "whole (tuples rel')"
    "rel_rows rel' = clamp_row_est (tuples rel' * clauselist_selectivity est ns 0 JOIN_INNER None)"
  shows "base_sized rel'"
  using assms by (intro base_size [of "clauselist_selectivity est ns 0 JOIN_INNER None"]) (auto simp: estimators_ok_def)


subsection \<open>Examples\<close>

text \<open>Two tables of a thousand and ten rows, with a key from the first to the second that the clause belongs to.\<close>

definition example_fk :: ForeignKeyOptInfo where
  "example_fk = \<lparr> con_relid = 1, ref_relid = 2, nmatched_ec = 0, nmatched_ri = 1, fk_eclass = [None], fk_rinfos = [[example_clause]] \<rparr>"

definition example_ref :: RelOptBase where
  "example_ref = example_rel\<lparr> relids := Some [4], relid := 2, rel_rows := fl 10, tuples := fl 10 \<rparr>"

definition example_join_query :: PlannerQuery where
  "example_join_query = example_query\<lparr> simple_rel_array := [None, Some example_rel, Some example_ref], fkey_list := [example_fk] \<rparr>"

definition example_left_join :: SpecialJoinInfo where
  "example_left_join = (inner_sjinfo (Some [2]) (Some [4]))\<lparr> sj_jointype := JOIN_LEFT \<rparr>"

definition certain :: estimators where
  "certain = \<lparr> clause_selectivity = (\<lambda>_ _ _ _. fl 1), clauselist_selectivity = (\<lambda>_ _ _ _. fl 1),
     estimate_hash_bucketsize = (\<lambda>_ _. fl 1), mergejoinscansel = (\<lambda>_ _ _ _. (fl 0, fl 1, fl 0, fl 1)) \<rparr>"

lemma certain_ok: "estimators_ok certain"
proof -
  have "between 0 1 (fl 0)" "between 0 1 (fl 1)" by (intro between_fl exact_zero exact_one; simp)+
  moreover have "fl 0 \<le> fl 1" by (intro fl_mono) simp
  ultimately show ?thesis by (simp add: estimators_ok_def certain_def nonneg_fl)
qed

lemma example_keys:
  "keys_ok example_join_query" "fk_rels_known example_join_query" "rows_ok (fl 1000)" "rows_ok (fl 10)"
proof -
  obtain a b where "fl 1000 = Fin a" "val a = 1000" "fl 10 = Fin b" "val b = 10"
    using fl_eq_Fin [of 1000] fl_eq_Fin [of 10] exact_numeral by auto
  then show "keys_ok example_join_query"
    by (auto simp: keys_ok_def example_join_query_def base_sized_def example_rel_def example_ref_def)
  show "fk_rels_known example_join_query"
    by (simp add: fk_rels_known_def example_join_query_def find_base_rel_def example_fk_def)
  show "rows_ok (fl 1000)" "rows_ok (fl 10)"
    using whole_fl_int [of 1000] whole_fl_int [of 10] by (simp_all add: rows_ok_def float_eval)
qed

subsection \<open>Correctness\<close>

text \<open>
  C10: The selectivity of foreign keys accounts for the clauses it replaces. When the referenced tables are known, the
  routine returns; the keys that it applies are among those of the query, its result is the product of their shares,
  a fraction between 0 and 1, and the clauses that it takes from the list are as many as those keys were matched to, each
  matched by one of the keys. Every other clause stays in the list, once for each time it was there.
\<close>

theorem fk_selectivity_accounts:
  assumes "keys_ok proot" "fk_rels_known proot"
  shows "\<exists>s rest applied removed.
    get_foreign_key_join_selectivity proot rinfos outer inner sj clauses = Inr (s, rest) \<and> between 0 1 s \<and>
    subseq applied (fkey_list proot) \<and>
    s = foldl (\<lambda>s fk. s * fk_factor proot (sj_jointype sj) fk) (fl 1) applied \<and>
    mset clauses = mset rest + removed \<and>
    int (size removed) = (\<Sum>fk \<leftarrow> applied. nmatched_ec fk + nmatched_ri fk) \<and>
    (\<forall>r. r \<in># removed \<longrightarrow> (\<exists>fk \<in> set applied. fk_matches rinfos fk r))"
proof -
  obtain s rest where r: "get_foreign_key_join_selectivity proot rinfos outer inner sj clauses = Inr (s, rest)"
    using fk_selectivity_returns [OF assms(2) [unfolded fk_rels_known_def]] by blast
  show ?thesis using r fk_selectivity_fraction [OF assms(1) r]
      fk_loop_outcome [OF r [unfolded get_foreign_key_join_selectivity_def]] unfolding fk_outcome_def by auto
qed

theorem fk_selectivity_accounts_witness:
  "\<exists>s rest removed. get_foreign_key_join_selectivity example_join_query example_rinfos (Some [2]) (Some [4]) example_left_join
     [example_clause] = Inr (s, rest) \<and> between 0 1 s \<and> {#example_clause#} = mset rest + removed"
  using fk_selectivity_accounts [OF example_keys(1,2), of example_rinfos "Some [2]" "Some [4]" example_left_join "[example_clause]"]
  by auto



end
