(* ===== verification/Add_Path.thy ===== *)
theory Add_Path
  imports Paths
begin

text \<open>
  The tournament of paths: \<^verbatim>\<open>add_path\<close>, \<^verbatim>\<open>add_path_precheck\<close>, \<^verbatim>\<open>add_partial_path\<close>,
  \<^verbatim>\<open>add_partial_path_precheck\<close> and \<^verbatim>\<open>set_cheapest\<close> of \<^verbatim>\<open>util/pathnode.c\<close>. The loops carry the cells kept so
  far and the number of them before which the new path is to be inserted; freeing rejected paths is
  not modelled.
\<close>

subsection \<open>Adding a path\<close>

text \<open>Parameterized paths are treated as having no sort order.\<close>

definition effective_pathkeys :: "Path \<Rightarrow> PathKey list" where
  "effective_pathkeys p = (if param_info p \<noteq> None then [] else pathkeys p)"

definition outer_compare :: "Path \<Rightarrow> Path \<Rightarrow> BMS_Comparison" where
  "outer_compare new old = bms_subset_compare (PATH_REQ_OUTER new) (PATH_REQ_OUTER old)"

text \<open>The body of the loop for one old path: whether it is removed, and whether the new path is still
  acceptable.\<close>

definition add_path_verdict :: "gucs \<Rightarrow> Path \<Rightarrow> Path \<Rightarrow> bool \<times> bool" where
  "add_path_verdict g new_path old_path =
     (let costcmp = compare_path_costs_fuzzily g new_path old_path STD_FUZZ_FACTOR;
          keyscmp = compare_pathkeys (effective_pathkeys new_path) (effective_pathkeys old_path);
          outercmp = outer_compare new_path old_path;
          remove_old = (True, True); reject_new = (False, False); keep_both = (False, True)
      in if costcmp = COSTS_DIFFERENT \<or> keyscmp = PATHKEYS_DIFFERENT then keep_both
         else case costcmp of
           COSTS_EQUAL \<Rightarrow>
             (if keyscmp = PATHKEYS_BETTER1 then
                (if (outercmp = BMS_EQUAL \<or> outercmp = BMS_SUBSET1) \<and> rows new_path \<le> rows old_path \<and>
                    parallel_safe new_path \<ge> parallel_safe old_path
                 then remove_old else keep_both)
              else if keyscmp = PATHKEYS_BETTER2 then
                (if (outercmp = BMS_EQUAL \<or> outercmp = BMS_SUBSET2) \<and> rows new_path \<ge> rows old_path \<and>
                    parallel_safe new_path \<le> parallel_safe old_path
                 then reject_new else keep_both)
              else
                (if outercmp = BMS_EQUAL then
                   (if parallel_safe new_path > parallel_safe old_path then remove_old
                    else if parallel_safe new_path < parallel_safe old_path then reject_new
                    else if rows new_path < rows old_path then remove_old
                    else if rows new_path > rows old_path then reject_new
                    else if compare_path_costs_fuzzily g new_path old_path (fl 1.0000000001) = COSTS_BETTER1
                    then remove_old else reject_new)
                 else if outercmp = BMS_SUBSET1 \<and> rows new_path \<le> rows old_path \<and>
                    parallel_safe new_path \<ge> parallel_safe old_path then remove_old
                 else if outercmp = BMS_SUBSET2 \<and> rows new_path \<ge> rows old_path \<and>
                    parallel_safe new_path \<le> parallel_safe old_path then reject_new
                 else keep_both))
         | COSTS_BETTER1 \<Rightarrow>
             (if keyscmp \<noteq> PATHKEYS_BETTER2 \<and> (outercmp = BMS_EQUAL \<or> outercmp = BMS_SUBSET1) \<and>
                 rows new_path \<le> rows old_path \<and> parallel_safe new_path \<ge> parallel_safe old_path
              then remove_old else keep_both)
         | COSTS_BETTER2 \<Rightarrow>
             (if keyscmp \<noteq> PATHKEYS_BETTER1 \<and> (outercmp = BMS_EQUAL \<or> outercmp = BMS_SUBSET2) \<and>
                 rows new_path \<ge> rows old_path \<and> parallel_safe new_path \<le> parallel_safe old_path
              then reject_new else keep_both)
         | COSTS_DIFFERENT \<Rightarrow> keep_both)"

text \<open>
  The loop over the cells of a path list, for a given verdict on each old path: \<open>kept\<close> are the cells
  that stay, \<open>insert_after\<close> the number of them up to the cell after which the new path belongs (zero
  for the null pointer). It stops at the first path that dominates the new one.
\<close>

fun tournament :: "(Path \<Rightarrow> bool \<times> bool) \<Rightarrow> Path \<Rightarrow> Path list \<Rightarrow> Path list \<Rightarrow> nat \<Rightarrow> Path list \<times> nat \<times> bool" where
  "tournament verdict new_path [] kept insert_after = (kept, insert_after, True)"
| "tournament verdict new_path (old_path # p1_next) kept insert_after =
     (let (remove_old, accept_new) = verdict old_path;
          kept1 = (if remove_old then kept else kept @ [old_path]);
          insert_after1 = (if \<not> remove_old \<and> total_cost new_path \<ge> total_cost old_path
                           then length kept1 else insert_after)
      in if \<not> accept_new then (kept1 @ p1_next, insert_after1, False)
         else tournament verdict new_path p1_next kept1 insert_after1)"

text \<open>\<^verbatim>\<open>lappend_cell\<close> after the cell found, or \<^verbatim>\<open>lcons\<close> at the head.\<close>

definition insert_path :: "(Path \<Rightarrow> bool \<times> bool) \<Rightarrow> Path \<Rightarrow> Path list \<Rightarrow> Path list" where
  "insert_path verdict new_path paths =
     (let (kept, insert_after, accept_new) = tournament verdict new_path paths [] 0
      in if accept_new then take insert_after kept @ [new_path] @ drop insert_after kept else kept)"

definition add_path :: "gucs \<Rightarrow> RelOptInfo \<Rightarrow> Path \<Rightarrow> RelOptInfo" where
  "add_path g parent_rel new_path =
     parent_rel\<lparr> pathlist := insert_path (add_path_verdict g new_path) new_path (pathlist parent_rel) \<rparr>"

subsection \<open>The precheck\<close>

fun precheck_loop :: "bool \<Rightarrow> Cost \<Rightarrow> Cost \<Rightarrow> PathKey list \<Rightarrow> Relids \<Rightarrow> Path list \<Rightarrow> bool" where
  "precheck_loop cons_startup startup_c total_c new_path_pathkeys required_outer [] = True"
| "precheck_loop cons_startup startup_c total_c new_path_pathkeys required_outer (old_path # p1_next) =
     (if total_c > total_cost old_path * STD_FUZZ_FACTOR then
        (if (startup_c > startup_cost old_path * STD_FUZZ_FACTOR \<or> \<not> cons_startup) \<and>
            compare_pathkeys new_path_pathkeys (effective_pathkeys old_path) \<in> {PATHKEYS_EQUAL, PATHKEYS_BETTER2} \<and>
            bms_equal required_outer (PATH_REQ_OUTER old_path)
         then False
         else precheck_loop cons_startup startup_c total_c new_path_pathkeys required_outer p1_next)
      else True)"

definition add_path_precheck :: "RelOptInfo \<Rightarrow> Cost \<Rightarrow> Cost \<Rightarrow> PathKey list \<Rightarrow> Relids \<Rightarrow> bool" where
  "add_path_precheck parent_rel startup_c total_c keys required_outer =
     precheck_loop (if required_outer \<noteq> None then consider_param_startup parent_rel else consider_startup parent_rel)
       startup_c total_c (if required_outer \<noteq> None then [] else keys) required_outer (pathlist parent_rel)"

subsection \<open>Partial paths\<close>

definition add_partial_path_verdict :: "Path \<Rightarrow> Path \<Rightarrow> bool \<times> bool" where
  "add_partial_path_verdict new_path old_path =
     (let keyscmp = compare_pathkeys (pathkeys new_path) (pathkeys old_path);
          remove_old = (True, True); reject_new = (False, False); keep_both = (False, True)
      in if keyscmp = PATHKEYS_DIFFERENT then keep_both
         else if total_cost new_path > total_cost old_path * STD_FUZZ_FACTOR then
           (if keyscmp \<noteq> PATHKEYS_BETTER1 then reject_new else keep_both)
         else if total_cost old_path > total_cost new_path * STD_FUZZ_FACTOR then
           (if keyscmp \<noteq> PATHKEYS_BETTER2 then remove_old else keep_both)
         else if keyscmp = PATHKEYS_BETTER1 then remove_old
         else if keyscmp = PATHKEYS_BETTER2 then reject_new
         else if total_cost old_path > total_cost new_path * fl 1.0000000001 then remove_old
         else reject_new)"

definition add_partial_path :: "RelOptInfo \<Rightarrow> Path \<Rightarrow> RelOptInfo" where
  "add_partial_path parent_rel new_path =
     parent_rel\<lparr> partial_pathlist :=
       insert_path (add_partial_path_verdict new_path) new_path (partial_pathlist parent_rel) \<rparr>"

text \<open>\<open>Some b\<close> when the loop over the partial paths returns \<open>b\<close>.\<close>

fun partial_precheck_loop :: "Cost \<Rightarrow> PathKey list \<Rightarrow> Path list \<Rightarrow> bool option" where
  "partial_precheck_loop total_c keys [] = None"
| "partial_precheck_loop total_c keys (old_path # p1_next) =
     (let keyscmp = compare_pathkeys keys (pathkeys old_path)
      in if keyscmp \<noteq> PATHKEYS_DIFFERENT \<and> total_c > total_cost old_path * STD_FUZZ_FACTOR \<and>
            keyscmp \<noteq> PATHKEYS_BETTER1 then Some False
         else if keyscmp \<noteq> PATHKEYS_DIFFERENT \<and> total_cost old_path > total_c * STD_FUZZ_FACTOR \<and>
            keyscmp \<noteq> PATHKEYS_BETTER2 then Some True
         else partial_precheck_loop total_c keys p1_next)"

definition add_partial_path_precheck :: "RelOptInfo \<Rightarrow> Cost \<Rightarrow> PathKey list \<Rightarrow> bool" where
  "add_partial_path_precheck parent_rel total_c keys =
     (case partial_precheck_loop total_c keys (partial_pathlist parent_rel) of
        Some b \<Rightarrow> b
      | None \<Rightarrow> add_path_precheck parent_rel total_c total_c keys None)"

subsection \<open>The cheapest paths of a relation\<close>

record cheapest_state =
  cs_startup :: "Path option"
  cs_total :: "Path option"
  cs_best_param :: "Path option"
  cs_parameterized :: "Path list"

definition better_cheapest :: "gucs \<Rightarrow> CostSelector \<Rightarrow> Path \<Rightarrow> Path \<Rightarrow> Path" where
  "better_cheapest g criterion cheapest path =
     (let cmp = compare_path_costs g cheapest path criterion
      in if cmp > 0 \<or> (cmp = 0 \<and> compare_pathkeys (pathkeys cheapest) (pathkeys path) = PATHKEYS_BETTER2)
         then path else cheapest)"

definition set_cheapest_step :: "gucs \<Rightarrow> cheapest_state \<Rightarrow> Path \<Rightarrow> cheapest_state" where
  "set_cheapest_step g s path =
     (if param_info path \<noteq> None then
        (let s1 = s\<lparr> cs_parameterized := cs_parameterized s @ [path] \<rparr>
         in if cs_total s \<noteq> None then s1
            else case cs_best_param s of
              None \<Rightarrow> s1\<lparr> cs_best_param := Some path \<rparr>
            | Some best \<Rightarrow>
                (case outer_compare path best of
                   BMS_EQUAL \<Rightarrow> if compare_path_costs g path best TOTAL_COST < 0
                                 then s1\<lparr> cs_best_param := Some path \<rparr> else s1
                 | BMS_SUBSET1 \<Rightarrow> s1\<lparr> cs_best_param := Some path \<rparr>
                 | BMS_SUBSET2 \<Rightarrow> s1
                 | BMS_DIFFERENT \<Rightarrow> s1))
      else case (cs_startup s, cs_total s) of
        (Some st, Some tot) \<Rightarrow>
          s\<lparr> cs_startup := Some (better_cheapest g STARTUP_COST st path),
             cs_total := Some (better_cheapest g TOTAL_COST tot path) \<rparr>
      | _ \<Rightarrow> s\<lparr> cs_startup := Some path, cs_total := Some path \<rparr>)"

definition set_cheapest :: "gucs \<Rightarrow> RelOptInfo \<Rightarrow> RelOptInfo ereport" where
  "set_cheapest g parent_rel =
     (if pathlist parent_rel = [] then Inl ''could not devise a query plan for the given query''
      else
        let s = foldl (set_cheapest_step g)
                  \<lparr> cs_startup = None, cs_total = None, cs_best_param = None, cs_parameterized = [] \<rparr>
                  (pathlist parent_rel);
            parameterized_paths =
              (case cs_total s of None \<Rightarrow> cs_parameterized s | Some t \<Rightarrow> t # cs_parameterized s);
            cheapest_total = (case cs_total s of None \<Rightarrow> cs_best_param s | Some t \<Rightarrow> Some t)
        in Inr (parent_rel\<lparr> cheapest_startup_path := cs_startup s, cheapest_total_path := cheapest_total,
                  cheapest_unique_path := None, cheapest_parameterized_paths := parameterized_paths \<rparr>))"

subsection \<open>The list stays sorted by total cost\<close>

definition sorted_paths :: "Path list \<Rightarrow> bool" where
  "sorted_paths = sorted_wrt (\<lambda>a b. total_cost a \<le> total_cost b)"

definition numeric_paths :: "Path list \<Rightarrow> bool" where
  "numeric_paths ps \<longleftrightarrow> (\<forall>p \<in> set ps. \<not> is_nan (total_cost p))"

lemma sorted_paths_append:
  "sorted_paths (xs @ ys) \<longleftrightarrow> sorted_paths xs \<and> sorted_paths ys \<and>
     (\<forall>x \<in> set xs. \<forall>y \<in> set ys. total_cost x \<le> total_cost y)"
  by (auto simp: sorted_paths_def sorted_wrt_append)

lemma sorted_paths_Cons:
  "sorted_paths (x # xs) \<longleftrightarrow> (\<forall>y \<in> set xs. total_cost x \<le> total_cost y) \<and> sorted_paths xs"
  by (simp add: sorted_paths_def)

text \<open>The new path belongs after the first \<open>insert_after\<close> cells.\<close>

definition insertion_point :: "Path \<Rightarrow> Path list \<Rightarrow> nat \<Rightarrow> bool" where
  "insertion_point new kept i \<longleftrightarrow> i \<le> length kept \<and> (\<forall>p \<in> set (take i kept). total_cost p \<le> total_cost new) \<and>
     (\<forall>p \<in> set (drop i kept). \<not> total_cost p \<le> total_cost new)"

lemma insertion_point_snoc:
  assumes "insertion_point new kept i" "sorted_paths (kept @ [old])" 
  shows "insertion_point new (kept @ [old]) (if total_cost old \<le> total_cost new then Suc (length kept) else i)"
proof (cases "total_cost old \<le> total_cost new")
  case True
  have "total_cost p \<le> total_cost new" if "p \<in> set kept" for p
    using that assms(2) True dle_trans unfolding sorted_paths_append by fastforce
  then show ?thesis using True by (auto simp: insertion_point_def)
next
  case False
  then show ?thesis using assms(1) by (auto simp: insertion_point_def)
qed

lemma tournament_Cons:
  "verdict old = (rm, acc) \<Longrightarrow>
   tournament verdict new (old # todo) kept i =
     (let kept1 = (if rm then kept else kept @ [old]);
          i1 = (if \<not> rm \<and> total_cost old \<le> total_cost new then Suc (length kept) else i)
      in if acc then tournament verdict new todo kept1 i1 else (kept1 @ todo, i1, False))"
  by (simp add: Let_def)

declare tournament.simps(2) [simp del]

lemma tournament_sorted:
  "tournament verdict new todo kept i = (kept', i', accept) \<Longrightarrow> sorted_paths (kept @ todo) \<Longrightarrow>
   insertion_point new kept i \<Longrightarrow> sorted_paths kept' \<and> (accept \<longrightarrow> insertion_point new kept' i')"
proof (induction todo arbitrary: kept i)
  case (Cons old todo)
  obtain rm acc where v: "verdict old = (rm, acc)" by fastforce
  show ?case
  proof (cases "rm")
    case True
    have s: "sorted_paths (kept @ todo)" using Cons.prems(2) by (auto simp: sorted_paths_append sorted_paths_Cons)
    show ?thesis
    proof (cases acc)
      case t: True
      then have "tournament verdict new todo kept i = (kept', i', accept)"
        using Cons.prems(1) v True by (simp add: tournament_Cons)
      then show ?thesis by (rule Cons.IH [OF _ s Cons.prems(3)])
    qed (use Cons.prems(1) v True s in \<open>auto simp: tournament_Cons\<close>)
  next
    case False
    have s: "sorted_paths ((kept @ [old]) @ todo)" using Cons.prems(2) by simp
    have i: "insertion_point new (kept @ [old]) (if total_cost old \<le> total_cost new then Suc (length kept) else i)"
      by (rule insertion_point_snoc [OF Cons.prems(3)]) (use s sorted_paths_append [of "kept @ [old]" todo] in blast)
    show ?thesis
    proof (cases acc)
      case True
      then have "tournament verdict new todo (kept @ [old])
          (if total_cost old \<le> total_cost new then Suc (length kept) else i) = (kept', i', accept)"
        using Cons.prems(1) v False by (simp add: tournament_Cons)
      then show ?thesis by (rule Cons.IH [OF _ s i])
    qed (use Cons.prems(1) v False s in \<open>auto simp: tournament_Cons\<close>)
  qed
qed auto

lemma tournament_subset:
  "tournament verdict new todo kept i = (kept', i', accept) \<Longrightarrow> set kept' \<subseteq> set kept \<union> set todo"
proof (induction todo arbitrary: kept i)
  case (Cons old todo)
  obtain rm acc where v: "verdict old = (rm, acc)" by fastforce
  show ?case
  proof (cases acc)
    case True
    then obtain j where "tournament verdict new todo (if rm then kept else kept @ [old]) j = (kept', i', accept)"
      using Cons.prems v by (auto simp: tournament_Cons Let_def)
    from Cons.IH [OF this] show ?thesis by (auto split: if_splits)
  qed (use Cons.prems v in \<open>auto simp: tournament_Cons Let_def split: if_splits\<close>)
qed auto

lemma insert_path_sorted:
  assumes "sorted_paths paths" "numeric_paths (new # paths)"
  shows "sorted_paths (insert_path verdict new paths)"
proof -
  obtain kept i accept where t: "tournament verdict new paths [] 0 = (kept, i, accept)"
    by (metis prod_cases3)
  have s: "sorted_paths kept" "accept \<longrightarrow> insertion_point new kept i"
    using tournament_sorted [OF t] assms(1) by (auto simp: insertion_point_def)
  have n: "\<not> is_nan (total_cost p)" if "p \<in> set kept" for p
    using that tournament_subset [OF t] assms(2) by (auto simp: numeric_paths_def)
  show ?thesis
  proof (cases accept)
    case True
    then have i: "insertion_point new kept i" using s by simp
    have "sorted_paths (take i kept @ drop i kept)" using s by simp
    then have td: "sorted_paths (take i kept)" "sorted_paths (drop i kept)"
      "\<forall>x \<in> set (take i kept). \<forall>y \<in> set (drop i kept). total_cost x \<le> total_cost y"
      unfolding sorted_paths_append by auto
    have "total_cost new \<le> total_cost p" if "p \<in> set (drop i kept)" for p
    proof -
      have "\<not> total_cost p \<le> total_cost new" using i that by (auto simp: insertion_point_def)
      moreover have "\<not> is_nan (total_cost p)" "\<not> is_nan (total_cost new)"
        using n [of p] that assms(2) by (auto simp: numeric_paths_def dest: in_set_dropD)
      ultimately show ?thesis 
        using dlinear [of "total_cost p" "total_cost new"] dle_refl [of "total_cost p"]
          dless_imp_le [of "total_cost p" "total_cost new"] dless_imp_le [of "total_cost new" "total_cost p"]
        by auto
    qed
    moreover have "total_cost p \<le> total_cost new" if "p \<in> set (take i kept)" for p
      using i that by (auto simp: insertion_point_def)
    ultimately have "sorted_paths (take i kept @ new # drop i kept)"
      unfolding sorted_paths_append sorted_paths_Cons using td by simp
    then show ?thesis using True by (simp add: insert_path_def t)
  qed (use t s in \<open>simp add: insert_path_def\<close>)
qed

lemma insert_path_numeric: "numeric_paths (new # paths) \<Longrightarrow> numeric_paths (insert_path verdict new paths)"
proof -
  assume a: "numeric_paths (new # paths)"
  obtain kept i accept where t: "tournament verdict new paths [] 0 = (kept, i, accept)"
    by (metis prod_cases3)
  show ?thesis using a tournament_subset [OF t] t
    by (auto simp: insert_path_def numeric_paths_def dest: in_set_takeD in_set_dropD)
qed

subsection \<open>No worthy path is lost\<close>

text \<open>
  The contract of a tournament: a verdict that removes the old path means that the new one beats it, a
  verdict that rejects the new path means that the old one does, and no verdict does both.
\<close>

locale path_tournament =
  fixes verdict :: "Path \<Rightarrow> Path \<Rightarrow> bool \<times> bool"
    and beats :: "Path \<Rightarrow> Path \<Rightarrow> bool"
    and beaten_by :: "Path \<Rightarrow> Path \<Rightarrow> bool"
  assumes remove: "fst (verdict new old) \<Longrightarrow> beats new old"
    and reject: "\<not> snd (verdict new old) \<Longrightarrow> beaten_by new old"
    and exclusive: "fst (verdict new old) \<Longrightarrow> snd (verdict new old)"
begin

lemma tournament_complete:
  "tournament (verdict new) new todo kept i = (kept', i', accept) \<Longrightarrow>
   set kept \<subseteq> set kept' \<and> (\<forall>old \<in> set todo. old \<in> set kept' \<or> beats new old) \<and>
   (\<not> accept \<longrightarrow> (\<exists>old \<in> set kept'. beaten_by new old))"
proof (induction todo arbitrary: kept i)
  case (Cons old todo)
  obtain rm acc where v: "verdict new old = (rm, acc)" by fastforce
  show ?case
  proof (cases acc)
    case True
    then obtain j where "tournament (verdict new) new todo (if rm then kept else kept @ [old]) j = (kept', i', accept)"
      using Cons.prems v by (auto simp: tournament_Cons Let_def)
    from Cons.IH [OF this] show ?thesis using remove [of new old] v by (auto split: if_splits)
  next
    case False
    then have "\<not> rm" using exclusive [of new old] v by auto
    then show ?thesis using Cons.prems v False reject [of new old] by (auto simp: tournament_Cons)
  qed
qed auto

lemma insert_path_complete:
  "(\<forall>old \<in> set paths. old \<in> set (insert_path (verdict new) new paths) \<or> beats new old) \<and>
   (new \<in> set (insert_path (verdict new) new paths) \<or>
     (\<exists>p \<in> set (insert_path (verdict new) new paths). beaten_by new p)) \<and>
   set (insert_path (verdict new) new paths) \<subseteq> insert new (set paths)"
proof -
  obtain kept i accept where t: "tournament (verdict new) new paths [] 0 = (kept, i, accept)"
    by (metis prod_cases3)
  have kept: "set (take i kept @ [new] @ drop i kept) = insert new (set kept)"
    using set_append [of "take i kept" "drop i kept"] by simp
  have r: "set (insert_path (verdict new) new paths) = (if accept then insert new (set kept) else set kept)"
    unfolding insert_path_def t using kept by simp
  show ?thesis
    using tournament_complete [OF t] tournament_subset [OF t] unfolding r by auto
qed

end

definition outer_set :: "Path \<Rightarrow> nat set" where
  "outer_set p = bms_set (PATH_REQ_OUTER p)"

lemma outer_compare_eq:
  "outer_compare new old = comparison_of (outer_set new \<subseteq> outer_set old) (outer_set old \<subseteq> outer_set new)"
  by (simp add: outer_compare_def outer_set_def relids.subset_compare_iff)

lemma outer_compare_iff:
  "outer_compare new old = BMS_EQUAL \<longleftrightarrow> outer_set new = outer_set old"
  "outer_compare new old = BMS_SUBSET1 \<Longrightarrow> outer_set new \<subseteq> outer_set old"
  "outer_compare new old = BMS_SUBSET2 \<Longrightarrow> outer_set old \<subseteq> outer_set new"
  by (auto simp: outer_compare_eq comparison_of_def split: if_splits)

lemma compare_pathkeys_iff:
  "compare_pathkeys k1 k2 = PATHKEYS_EQUAL \<longleftrightarrow> k1 = k2"
  "compare_pathkeys k1 k2 = PATHKEYS_BETTER1 \<Longrightarrow> prefix k2 k1"
  "compare_pathkeys k1 k2 = PATHKEYS_BETTER2 \<Longrightarrow> prefix k1 k2"
  by (auto simp: compare_pathkeys_eq split: if_splits)

text \<open>
  What the comment of \<^verbatim>\<open>add_path\<close> calls domination: not more expensive, at least as well ordered, needing
  no other outer relations, no less parallel safe and producing no more rows; the last point is
  waived when a path that differs only in being parallel safe replaces one that is not.
\<close>

definition covers :: "Path \<Rightarrow> Path \<Rightarrow> bool" where
  "covers p q \<longleftrightarrow> prefix (effective_pathkeys q) (effective_pathkeys p) \<and> outer_set p \<subseteq> outer_set q \<and>
     (parallel_safe q \<longrightarrow> parallel_safe p) \<and>
     (\<not> rows q < rows p \<or>
       (effective_pathkeys p = effective_pathkeys q \<and> outer_set p = outer_set q \<and> parallel_safe p \<and> \<not> parallel_safe q))"

definition beats :: "gucs \<Rightarrow> Path \<Rightarrow> Path \<Rightarrow> bool" where
  "beats g new old \<longleftrightarrow>
     compare_path_costs_fuzzily g new old STD_FUZZ_FACTOR \<in> {COSTS_EQUAL, COSTS_BETTER1} \<and> covers new old"

definition beaten_by :: "gucs \<Rightarrow> Path \<Rightarrow> Path \<Rightarrow> bool" where
  "beaten_by g new old \<longleftrightarrow>
     compare_path_costs_fuzzily g new old STD_FUZZ_FACTOR \<in> {COSTS_EQUAL, COSTS_BETTER2} \<and> covers old new"

lemma add_path_verdict_remove: "fst (add_path_verdict g new old) \<Longrightarrow> beats g new old"
proof -
  assume a: "fst (add_path_verdict g new old)"
  note facts = dless_not_le dless_asym outer_compare_iff(2,3) compare_pathkeys_iff(2,3)
  show ?thesis
  proof (cases "compare_path_costs_fuzzily g new old STD_FUZZ_FACTOR")
    case COSTS_EQUAL
    then show ?thesis using a
      by (cases "compare_pathkeys (effective_pathkeys new) (effective_pathkeys old)")
        (auto simp: add_path_verdict_def Let_def beats_def covers_def outer_compare_iff(1) compare_pathkeys_iff(1) dest: facts split: if_splits)
  next
    case COSTS_BETTER1
    then show ?thesis using a
      by (cases "compare_pathkeys (effective_pathkeys new) (effective_pathkeys old)")
        (auto simp: add_path_verdict_def Let_def beats_def covers_def outer_compare_iff(1) compare_pathkeys_iff(1) dest: facts split: if_splits)
  qed (use a in \<open>auto simp: add_path_verdict_def Let_def split: if_splits\<close>)
qed

lemma add_path_verdict_reject: "\<not> snd (add_path_verdict g new old) \<Longrightarrow> beaten_by g new old"
proof -
  assume a: "\<not> snd (add_path_verdict g new old)"
  note facts = dless_not_le dless_asym outer_compare_iff(2,3) compare_pathkeys_iff(2,3)
  show ?thesis
  proof (cases "compare_path_costs_fuzzily g new old STD_FUZZ_FACTOR")
    case COSTS_EQUAL
    then show ?thesis using a
      by (cases "compare_pathkeys (effective_pathkeys new) (effective_pathkeys old)")
        (auto simp: add_path_verdict_def Let_def beaten_by_def covers_def outer_compare_iff(1) compare_pathkeys_iff(1) dest: facts split: if_splits)
  next
    case COSTS_BETTER2
    then show ?thesis using a
      by (cases "compare_pathkeys (effective_pathkeys new) (effective_pathkeys old)")
        (auto simp: add_path_verdict_def Let_def beaten_by_def covers_def outer_compare_iff(1) compare_pathkeys_iff(1) dest: facts split: if_splits)
  qed (use a in \<open>auto simp: add_path_verdict_def Let_def split: if_splits\<close>)
qed

lemma add_path_verdict_exclusive: "fst (add_path_verdict g new old) \<Longrightarrow> snd (add_path_verdict g new old)"
  by (auto simp: add_path_verdict_def Let_def split: PathCostComparison.splits if_splits)

interpretation full: path_tournament "add_path_verdict g" "beats g" "beaten_by g" for g
  by unfold_locales (rule add_path_verdict_remove add_path_verdict_reject add_path_verdict_exclusive, assumption)+

text \<open>For partial paths only sort order and total cost count.\<close>

definition partial_beats :: "Path \<Rightarrow> Path \<Rightarrow> bool" where
  "partial_beats p q \<longleftrightarrow> prefix (pathkeys q) (pathkeys p) \<and> \<not> total_cost q * STD_FUZZ_FACTOR < total_cost p"

definition partial_beaten_by :: "Path \<Rightarrow> Path \<Rightarrow> bool" where
  "partial_beaten_by new old \<longleftrightarrow> prefix (pathkeys new) (pathkeys old) \<and>
     (total_cost old * STD_FUZZ_FACTOR < total_cost new \<or> \<not> total_cost new * STD_FUZZ_FACTOR < total_cost old)"

lemma add_partial_path_verdict_remove: "fst (add_partial_path_verdict new old) \<Longrightarrow> partial_beats new old"
  by (cases "compare_pathkeys (pathkeys new) (pathkeys old)")
    (auto simp: add_partial_path_verdict_def Let_def partial_beats_def compare_pathkeys_iff(1)
      dest: compare_pathkeys_iff(2,3) split: if_splits)

lemma add_partial_path_verdict_reject: "\<not> snd (add_partial_path_verdict new old) \<Longrightarrow> partial_beaten_by new old"
  by (cases "compare_pathkeys (pathkeys new) (pathkeys old)")
    (auto simp: add_partial_path_verdict_def Let_def partial_beaten_by_def compare_pathkeys_iff(1)
      dest: compare_pathkeys_iff(2,3) split: if_splits)

lemma add_partial_path_verdict_exclusive:
  "fst (add_partial_path_verdict new old) \<Longrightarrow> snd (add_partial_path_verdict new old)"
  by (auto simp: add_partial_path_verdict_def Let_def split: if_splits)

interpretation partial: path_tournament add_partial_path_verdict partial_beats partial_beaten_by
  by unfold_locales
    (rule add_partial_path_verdict_remove add_partial_path_verdict_reject add_partial_path_verdict_exclusive, assumption)+

subsection \<open>The precheck\<close>

lemma fuzz_not_nan: "\<not> is_nan a \<Longrightarrow> \<not> is_nan (a * STD_FUZZ_FACTOR)"
proof -
  obtain f where f: "STD_FUZZ_FACTOR = Fin f" "1 \<le> val f" using STD_FUZZ_ge_1 by (auto simp: between_def)
  show "\<not> is_nan a \<Longrightarrow> \<not> is_nan (a * STD_FUZZ_FACTOR)"
    unfolding f(1) using f(2) by (cases a) (auto simp: times_double_def)
qed

lemma fuzz_mono: "a \<le> b \<Longrightarrow> \<not> a * STD_FUZZ_FACTOR < t \<Longrightarrow> \<not> b * STD_FUZZ_FACTOR < t"
proof
  assume ab: "a \<le> b" and a: "\<not> a * STD_FUZZ_FACTOR < t" and b: "b * STD_FUZZ_FACTOR < t"
  have "nonneg STD_FUZZ_FACTOR" unfolding STD_FUZZ_FACTOR_def by (simp add: nonneg_fl)
  from dmult_mono_not_less [OF this ab] have "\<not> b * STD_FUZZ_FACTOR < a * STD_FUZZ_FACTOR"
    by (simp only: dmult_commute [of STD_FUZZ_FACTOR] not_False_eq_True)
  moreover have "\<not> is_nan (a * STD_FUZZ_FACTOR)" "\<not> is_nan t"
    using dle_not_nan [OF ab] dless_not_nan [OF b] fuzz_not_nan by auto
  then have "t \<le> a * STD_FUZZ_FACTOR" using a dnot_less by blast
  ultimately show False using dless_le_trans [OF b] by blast
qed

definition precheck_rejects :: "bool \<Rightarrow> Cost \<Rightarrow> Cost \<Rightarrow> PathKey list \<Rightarrow> Relids \<Rightarrow> Path \<Rightarrow> bool" where
  "precheck_rejects cons s t keys outer old \<longleftrightarrow>
     total_cost old * STD_FUZZ_FACTOR < t \<and> (startup_cost old * STD_FUZZ_FACTOR < s \<or> \<not> cons) \<and>
     prefix keys (effective_pathkeys old) \<and> bms_set outer = outer_set old"

lemma precheck_loop_iff:
  "sorted_paths ps \<Longrightarrow> precheck_loop cons s t keys outer ps \<longleftrightarrow> \<not> (\<exists>old \<in> set ps. precheck_rejects cons s t keys outer old)"
proof (induction ps)
  case (Cons p ps)
  have keys: "compare_pathkeys keys (effective_pathkeys p) \<in> {PATHKEYS_EQUAL, PATHKEYS_BETTER2} \<longleftrightarrow>
      prefix keys (effective_pathkeys p)"
    using prefix_order.antisym [of keys "effective_pathkeys p"] by (auto simp: compare_pathkeys_eq)
  show ?case
  proof (cases "total_cost p * STD_FUZZ_FACTOR < t")
    case True
    then show ?thesis using Cons keys
      by (auto simp: precheck_rejects_def sorted_paths_Cons outer_set_def relids.is_equal_iff)
  next
    case False
    then have "\<not> total_cost q * STD_FUZZ_FACTOR < t" if "q \<in> set (p # ps)" for q
      using that Cons.prems fuzz_mono by (auto simp: sorted_paths_Cons)
    then show ?thesis using False by (auto simp: precheck_rejects_def)
  qed
qed simp

subsection \<open>The cheapest paths\<close>

lemma better_cheapest_least:
  assumes "comparable g a" "comparable g b"
  shows "better_cheapest g c a b \<in> {a, b} \<and> compare_path_costs g (better_cheapest g c a b) a c \<le> 0 \<and>
    compare_path_costs g (better_cheapest g c a b) b c \<le> 0"
  using cost_order.swap [OF assms, of c] cost_order.refl [OF assms(1), of c] cost_order.refl [OF assms(2), of c]
  by (auto simp: better_cheapest_def Let_def)

definition unparameterized :: "Path list \<Rightarrow> Path list" where
  "unparameterized = filter (\<lambda>p. param_info p = None)"

definition least_for :: "gucs \<Rightarrow> CostSelector \<Rightarrow> Path list \<Rightarrow> Path \<Rightarrow> bool" where
  "least_for g c ps m \<longleftrightarrow> m \<in> set ps \<and> (\<forall>p \<in> set ps. compare_path_costs g m p c \<le> 0)"

text \<open>The best parameterized path: no path needs fewer outer relations, and among those that need the same
  ones none is cheaper.\<close>

definition best_parameterized :: "gucs \<Rightarrow> Path list \<Rightarrow> Path \<Rightarrow> bool" where
  "best_parameterized g ps m \<longleftrightarrow> m \<in> set ps \<and>
     (\<forall>p \<in> set ps. \<not> outer_set p \<subset> outer_set m \<and>
       (outer_set p = outer_set m \<longrightarrow> compare_path_costs g m p TOTAL_COST \<le> 0))"

lemma least_for_snoc:
  assumes "least_for g c ps m" "\<forall>q \<in> set (ps @ [p]). comparable g q"
  shows "least_for g c (ps @ [p]) (better_cheapest g c m p)"
proof -
  have m: "m \<in> set ps" "comparable g m" "comparable g p" using assms by (auto simp: least_for_def)
  note b = better_cheapest_least [OF m(2,3), of c]
  have ok: "comparable g (better_cheapest g c m p)" using b m by auto
  have "compare_path_costs g (better_cheapest g c m p) q c \<le> 0" if "q \<in> set ps" for q
    using cost_order.trans [OF ok m(2), of q c] b that assms by (auto simp: least_for_def)
  then show ?thesis using b m by (auto simp: least_for_def)
qed

lemma least_for_single: "comparable g p \<Longrightarrow> least_for g c [p] p"
  by (simp add: least_for_def cost_order.refl)

definition improve_best :: "gucs \<Rightarrow> Path option \<Rightarrow> Path \<Rightarrow> Path" where
  "improve_best g best p =
     (case best of None \<Rightarrow> p
      | Some b \<Rightarrow> (case outer_compare p b of
          BMS_EQUAL \<Rightarrow> if compare_path_costs g p b TOTAL_COST < 0 then p else b
        | BMS_SUBSET1 \<Rightarrow> p | _ \<Rightarrow> b))"

lemma best_parameterized_snoc:
  assumes "best_parameterized g ps m" "\<forall>q \<in> set (ps @ [p]). comparable g q"
  shows "best_parameterized g (ps @ [p]) (improve_best g (Some m) p)"
proof -
  have ok: "comparable g m" "comparable g p" and all: "\<forall>q \<in> set ps. comparable g q"
    using assms by (auto simp: best_parameterized_def)
  note sw = cost_order.swap [OF ok, of TOTAL_COST] and rf = cost_order.refl [OF ok(1), of TOTAL_COST]
    cost_order.refl [OF ok(2), of TOTAL_COST]
  have m: "m \<in> set ps" "\<And>q. q \<in> set ps \<Longrightarrow> \<not> outer_set q \<subset> outer_set m"
    "\<And>q. q \<in> set ps \<Longrightarrow> outer_set q = outer_set m \<Longrightarrow> compare_path_costs g m q TOTAL_COST \<le> 0"
    using assms(1) by (auto simp: best_parameterized_def)
  show ?thesis
  proof (cases "outer_compare p m")
    case BMS_EQUAL
    then have o: "outer_set p = outer_set m" by (simp add: outer_compare_iff)
    show ?thesis
    proof (cases "compare_path_costs g p m TOTAL_COST < 0")
      case True
      then have "compare_path_costs g p q TOTAL_COST \<le> 0" if "q \<in> set ps" "outer_set q = outer_set m" for q
        using cost_order.trans [OF ok(2,1), of q TOTAL_COST] m(3) that all by auto
      then show ?thesis using True BMS_EQUAL o m rf by (auto simp: best_parameterized_def improve_best_def)
    next
      case False
      then show ?thesis using BMS_EQUAL o m rf sw by (auto simp: best_parameterized_def improve_best_def)
    qed
  next
    case BMS_SUBSET1
    then have o: "outer_set p \<subset> outer_set m" by (auto simp: outer_compare_eq comparison_of_def split: if_splits)
    then have "\<not> outer_set q \<subseteq> outer_set p" if "q \<in> set ps" for q using m(2) [OF that] by blast
    then show ?thesis using BMS_SUBSET1 rf by (auto simp: best_parameterized_def improve_best_def)
  next
    case BMS_SUBSET2
    then have "\<not> outer_set p \<subseteq> outer_set m" by (auto simp: outer_compare_eq comparison_of_def split: if_splits)
    then show ?thesis using BMS_SUBSET2 m by (auto simp: best_parameterized_def improve_best_def)
  next
    case BMS_DIFFERENT
    then have "\<not> outer_set p \<subseteq> outer_set m" by (auto simp: outer_compare_eq comparison_of_def split: if_splits)
    then show ?thesis using BMS_DIFFERENT m by (auto simp: best_parameterized_def improve_best_def)
  qed
qed

text \<open>The state of the loop after some of the paths.\<close>

definition cheapest_inv :: "gucs \<Rightarrow> Path list \<Rightarrow> cheapest_state \<Rightarrow> bool" where
  "cheapest_inv g ps s \<longleftrightarrow> cs_parameterized s = filter (\<lambda>p. param_info p \<noteq> None) ps \<and>
     (if unparameterized ps = [] then
        cs_startup s = None \<and> cs_total s = None \<and>
        (case cs_best_param s of None \<Rightarrow> ps = [] | Some m \<Rightarrow> best_parameterized g ps m)
      else (\<exists>st tot. cs_startup s = Some st \<and> cs_total s = Some tot \<and>
        least_for g STARTUP_COST (unparameterized ps) st \<and> least_for g TOTAL_COST (unparameterized ps) tot))"

lemma set_cheapest_step_param:
  "param_info p \<noteq> None \<Longrightarrow> set_cheapest_step g s p =
     (if cs_total s \<noteq> None then s\<lparr> cs_parameterized := cs_parameterized s @ [p] \<rparr>
      else s\<lparr> cs_parameterized := cs_parameterized s @ [p], cs_best_param := Some (improve_best g (cs_best_param s) p) \<rparr>)"
  by (auto simp: set_cheapest_step_def improve_best_def Let_def split: option.splits BMS_Comparison.splits)

lemma cheapest_inv_step:
  assumes "cheapest_inv g ps s" "\<forall>q \<in> set (ps @ [p]). comparable g q"
  shows "cheapest_inv g (ps @ [p]) (set_cheapest_step g s p)"
proof (cases "param_info p = None")
  case False
  show ?thesis
  proof (cases "unparameterized ps = []")
    case True
    have "best_parameterized g (ps @ [p]) (improve_best g (cs_best_param s) p)"
    proof (cases "cs_best_param s")
      case None
      then have "ps = []" using assms(1) True by (simp add: cheapest_inv_def)
      then show ?thesis using None assms(2) by (simp add: improve_best_def best_parameterized_def cost_order.refl)
    next
      case (Some m)
      then show ?thesis using best_parameterized_snoc [OF _ assms(2), of m] assms(1) True by (simp add: cheapest_inv_def)
    qed
    then show ?thesis using assms(1) True False
      by (simp add: cheapest_inv_def set_cheapest_step_param unparameterized_def)
  qed (use assms(1) False in \<open>auto simp: cheapest_inv_def set_cheapest_step_param unparameterized_def\<close>)
next
  case True
  show ?thesis
  proof (cases "unparameterized ps = []")
    case empty: True
    then show ?thesis using assms True
      by (auto simp: cheapest_inv_def set_cheapest_step_def unparameterized_def least_for_single)
  next
    case False
    then obtain st tot where s: "cs_startup s = Some st" "cs_total s = Some tot"
      "least_for g STARTUP_COST (unparameterized ps) st" "least_for g TOTAL_COST (unparameterized ps) tot"
      using assms(1) by (auto simp: cheapest_inv_def)
    have ok: "\<forall>q \<in> set (unparameterized ps @ [p]). comparable g q" using assms(2) by (auto simp: unparameterized_def)
    have u: "unparameterized (ps @ [p]) = unparameterized ps @ [p]" using True by (simp add: unparameterized_def)
    show ?thesis using assms(1) s least_for_snoc [OF s(3) ok] least_for_snoc [OF s(4) ok] True u
      by (simp add: cheapest_inv_def set_cheapest_step_def)
  qed
qed

lemma cheapest_inv_fold:
  "\<forall>q \<in> set ps. comparable g q \<Longrightarrow>
   cheapest_inv g ps (foldl (set_cheapest_step g)
     \<lparr> cs_startup = None, cs_total = None, cs_best_param = None, cs_parameterized = [] \<rparr> ps)"
proof (induction ps rule: rev_induct)
  case (snoc p ps)
  then show ?case using cheapest_inv_step by simp
qed (simp add: cheapest_inv_def unparameterized_def)

subsection \<open>Relations built by the planner\<close>

text \<open>The states a relation's path lists pass through: empty at first, then grown by the two insertion
  routines with paths whose total cost is a number.\<close>

inductive built :: "gucs \<Rightarrow> RelOptInfo \<Rightarrow> bool" for g where
  built_empty: "pathlist rel = [] \<Longrightarrow> partial_pathlist rel = [] \<Longrightarrow> built g rel"
| built_add: "built g rel \<Longrightarrow> \<not> is_nan (total_cost p) \<Longrightarrow> built g (add_path g rel p)"
| built_add_partial: "built g rel \<Longrightarrow> \<not> is_nan (total_cost p) \<Longrightarrow> built g (add_partial_path rel p)"

lemma add_path_lists [simp]:
  "pathlist (add_path g rel p) = insert_path (add_path_verdict g p) p (pathlist rel)"
  "partial_pathlist (add_path g rel p) = partial_pathlist rel"
  "pathlist (add_partial_path rel p) = pathlist rel"
  "partial_pathlist (add_partial_path rel p) = insert_path (add_partial_path_verdict p) p (partial_pathlist rel)"
  by (simp_all add: add_path_def add_partial_path_def)

lemma built_sorted:
  "built g rel \<Longrightarrow> sorted_paths (pathlist rel) \<and> sorted_paths (partial_pathlist rel) \<and>
     numeric_paths (pathlist rel) \<and> numeric_paths (partial_pathlist rel)"
proof (induction rule: built.induct)
  case (built_empty rel)
  then show ?case by (simp add: sorted_paths_def numeric_paths_def)
next
  case (built_add rel p)
  then have "numeric_paths (p # pathlist rel)" by (simp add: numeric_paths_def)
  then show ?case using built_add insert_path_sorted insert_path_numeric by auto
next
  case (built_add_partial rel p)
  then have "numeric_paths (p # partial_pathlist rel)" by (simp add: numeric_paths_def)
  then show ?case using built_add_partial insert_path_sorted insert_path_numeric by auto
qed

lemma first_match_least:
  "sorted_paths ps \<Longrightarrow> get_cheapest_parallel_safe_total_inner ps = Some b \<Longrightarrow>
   b \<in> set ps \<and> parallel_safe b \<and> outer_set b = {} \<and>
   (\<forall>p \<in> set ps. parallel_safe p \<longrightarrow> outer_set p = {} \<longrightarrow> p = b \<or> total_cost b \<le> total_cost p)"
  by (induction ps) (auto simp: sorted_paths_Cons bms_is_empty_iff outer_set_def split: if_splits)

lemma no_match: "get_cheapest_parallel_safe_total_inner ps = None \<longleftrightarrow>
   (\<forall>p \<in> set ps. \<not> (parallel_safe p \<and> outer_set p = {}))"
  by (induction ps) (auto simp: bms_is_empty_iff outer_set_def)

subsection \<open>Examples\<close>

definition example_relinfo :: "bool \<Rightarrow> Path list \<Rightarrow> RelOptInfo" where
  "example_relinfo cons ps = RelOptBase.extend (example_rel\<lparr> consider_startup := cons \<rparr>)
     \<lparr> pathlist = ps, ppilist = [], partial_pathlist = [], cheapest_startup_path = None, cheapest_total_path = None,
       cheapest_unique_path = None, cheapest_parameterized_paths = [], joininfo = [] \<rparr>"

lemma example_relinfo_simps [simp]:
  "pathlist (example_relinfo cons ps) = ps" "partial_pathlist (example_relinfo cons ps) = []"
  "consider_startup (example_relinfo cons ps) = cons"
  by (simp_all add: example_relinfo_def RelOptBase.defs)

lemma p_numeric: "\<not> is_nan (total_cost p100)" "\<not> is_nan (total_cost p200)"
  by (simp_all add: example_path_def)

lemma example_built:
  "built default_gucs (add_path default_gucs (example_relinfo True []) p100)"
  "built default_gucs (add_path default_gucs (add_path default_gucs (example_relinfo True []) p200) p100)"
  by (intro built.intros p_numeric; simp)+

text \<open>A path of total cost 102 that starts at once against one of total cost 100 that starts late, on a
  relation where startup cost alone is no reason to keep a path.\<close>

definition no_startup :: "Path \<Rightarrow> Path" where
  "no_startup p = p\<lparr> parent := (parent p)\<lparr> consider_startup := False \<rparr> \<rparr>"

lemma no_startup_simps [simp]:
  "rows (no_startup p) = rows p" "parallel_safe (no_startup p) = parallel_safe p"
  "startup_cost (no_startup p) = startup_cost p" "total_cost (no_startup p) = total_cost p"
  "pathkeys (no_startup p) = pathkeys p" "param_info (no_startup p) = param_info p"
  "\<not> CONSIDER_PATH_STARTUP_COST (no_startup p) \<or> param_info p \<noteq> None"
  by (simp_all add: no_startup_def CONSIDER_PATH_STARTUP_COST_def)

lemma example_path_simps [simp]:
  "rows (example_path s t w keys) = fl 1000" "parallel_safe (example_path s t w keys)"
  "startup_cost (example_path s t w keys) = s" "total_cost (example_path s t w keys) = t"
  "pathkeys (example_path s t w keys) = keys" "param_info (example_path s t w keys) = None"
  by (simp_all add: example_path_def)

abbreviation "early102 \<equiv> no_startup (example_path (fl 0) (fl 102) (fl 40) [])"
abbreviation "late100 \<equiv> no_startup (example_path (fl 50) (fl 100) (fl 40) [])"

lemma example_weighted_eq:
  assumes "1 \<le> t" "t \<in> f64_set"
  shows "weighted_cost default_gucs (no_startup (example_path s (fl t) (fl 40) keys)) = fl (ln t)"
proof -
  have f40: "(40::real) \<in> f64_set" by (rule exact_numeral) simp
  obtain a b where ab: "fl t = Fin a" "val a = t" "fl 40 = Fin b" "val b = 40"
    using fl_eq_Fin [OF assms(2)] fl_eq_Fin [OF f40] by auto
  obtain c where "log_d (Fin b) = Fin c" using log_finite [of b] ab by (auto simp: between_def)
  then have "fl 0 * log_d (Fin b) = 0" using dmult_zero(1) [of c] by (simp add: zero_fl)
  then have "weighted_cost default_gucs (no_startup (example_path s (fl t) (fl 40) keys)) = log_d (Fin a)"
    by (simp add: weighted_cost_def example_path_def no_startup_def default_gucs_def ab del: log_d.simps)
  then show ?thesis using assms ab by simp
qed

lemma ln_100: "3 \<le> ln (100::real)"
proof -
  have "1 / 2 \<le> ln (2::real)" using ln_le_minus_one [of "1 / 2"] by (simp add: ln_div)
  moreover have "ln (64::real) = 6 * ln 2" using ln_realpow [of 2 6] by simp
  moreover have "ln (64::real) \<le> ln 100" by (intro ln_mono) simp_all
  ultimately show ?thesis by linarith
qed

lemma ln_102: "ln (102::real) \<le> ln 100 + 1 / 50"
proof -
  have "ln (102::real) = ln 100 + ln (102 / 100)" using ln_mult [of 100 "102 / 100 :: real"] by simp
  then show ?thesis using ln_le_minus_one [of "102 / 100 :: real"] by simp
qed

text \<open>The logarithms of 100 and 102 are closer than the fuzz factor allows for.\<close>

lemma fuzzy_logs:
  "\<not> fl (ln 100) * STD_FUZZ_FACTOR < fl (ln 102)" "\<not> fl (ln 102) * STD_FUZZ_FACTOR < fl (ln 100)"
proof -
  have "ln (100::real) \<le> ln 102" by (intro ln_mono) simp_all
  moreover have u: "ln (100::real) \<le> 99" using ln_le_minus_one [of 100] by simp
  have "between 3 99 (fl (ln 100))" using ln_100 u by (intro between_fl exact_numeral) simp_all
  then obtain a where a: "fl (ln 100) = Fin a" "3 \<le> val a" by (auto simp: between_def)
  have va: "val a = rnd (ln 100)" using a by (cases "ln (100::real)" rule: fl_cases) auto
  have "1 / 2 ^ 0 \<le> \<bar>ln (100::real)\<bar>" using ln_100 by simp
  from rnd_relative_error [OF this] have "\<bar>rnd (ln 100) - ln 100\<bar> \<le> \<bar>ln 100\<bar> / 2 ^ 53" by blast
  moreover have "\<bar>ln (100::real)\<bar> = ln 100" using ln_100 by simp
  ultimately have lower: "ln 100 - ln 100 / 2 ^ 53 \<le> val a" unfolding va by linarith
  obtain f where f: "STD_FUZZ_FACTOR = Fin f" "1 + 1 / 128 \<le> val f"
    using STD_FUZZ_between by (auto simp: between_def)
  have "val a * (1 + 1 / 128) \<le> val a * val f" using a f by (intro mult_left_mono) auto
  then have "val a + val a / 128 \<le> val a * val f" by (simp add: algebra_simps)
  moreover have "ln (100::real) / 2 ^ 53 \<le> 1 / 1000" using u by simp
  ultimately have "ln 102 \<le> val a * val f" using lower ln_102 a(2) by linarith
  then have "fl (ln 102) \<le> fl (val a * val f)" by (rule fl_mono)
  then show "\<not> fl (ln 100) * STD_FUZZ_FACTOR < fl (ln 102)"
    unfolding a(1) f(1) times_double_def fmul.simps using dless_not_le by blast
  have "0 \<le> fl (ln 102)" using nonneg_fl [of "ln 102"] nonneg_not_nan by simp
  then have "fl (ln 102) \<le> fl (ln 102) * STD_FUZZ_FACTOR" using STD_FUZZ_ge_1 by (rule fuzz_le)
  moreover have "fl (ln 100) \<le> fl (ln 102)" by (intro fl_mono ln_mono) simp_all
  ultimately show "\<not> fl (ln 102) * STD_FUZZ_FACTOR < fl (ln 100)" using dle_trans dless_not_le by blast
qed

lemma fuzzed_less:
  assumes "0 \<le> x" "x \<in> f64_set" "x + x / 64 \<le> u" "u \<in> f64_set" "u < y" "y \<in> f64_set"
  shows "fl x * STD_FUZZ_FACTOR < fl y"
proof -
  have "between x x (fl x)" using assms by (intro between_fl) auto
  then have "between 0 u (fl x * STD_FUZZ_FACTOR)"
    using STD_FUZZ_ge_1 by (rule between_mult) (use assms in \<open>auto simp: exact_zero algebra_simps\<close>)
  moreover obtain b where "fl y = Fin b" "val b = y" using fl_eq_Fin [OF assms(6)] by blast
  ultimately show ?thesis using assms(5) by (auto simp: between_def less_double_def)
qed

lemma example_fuzzy: "compare_path_costs_fuzzily default_gucs early102 late100 STD_FUZZ_FACTOR = COSTS_BETTER1"
proof -
  have w: "weighted_cost default_gucs early102 = fl (ln 102)" "weighted_cost default_gucs late100 = fl (ln 100)"
    by (rule example_weighted_eq; simp add: exact_numeral)+
  have s: "\<not> fl 50 * STD_FUZZ_FACTOR < fl 0" "fl 0 * STD_FUZZ_FACTOR < fl 50"
  proof -
    have "fl 50 \<le> fl 50 * STD_FUZZ_FACTOR" by (rule fuzz_le [OF _ STD_FUZZ_ge_1]) (simp add: float_eval)
    moreover have "\<not> fl 50 < fl 0" by (simp add: float_eval)
    ultimately show "\<not> fl 50 * STD_FUZZ_FACTOR < fl 0" using dle_less_trans by blast
    show "fl 0 * STD_FUZZ_FACTOR < fl 50"
      by (rule fuzzed_less [of 0 0]) (simp_all add: exact_zero exact_numeral)
  qed
  show ?thesis using fuzzy_logs s by (simp add: compare_path_costs_fuzzily_def w Let_def)
qed

lemma example_verdict: "add_path_verdict default_gucs early102 late100 = (True, True)"
  by (simp add: add_path_verdict_def Let_def example_fuzzy effective_pathkeys_def outer_compare_iff
      outer_set_def PATH_REQ_OUTER_def compare_pathkeys_def dle_refl)

subsection \<open>Correctness\<close>

text \<open>
  C3: Whatever paths the planner adds, in any order, both path lists of a relation stay sorted by total
  cost with the cheapest path in front; in particular
  \<^verbatim>\<open>get_cheapest_parallel_safe_total_inner\<close>, which takes the first suitable path, returns one of
  least total cost.
\<close>

theorem path_lists_sorted:
  "built g rel \<Longrightarrow>
   sorted_wrt (\<lambda>p q. total_cost p \<le> total_cost q) (pathlist rel) \<and>
   sorted_wrt (\<lambda>p q. total_cost p \<le> total_cost q) (partial_pathlist rel) \<and>
   (case get_cheapest_parallel_safe_total_inner (pathlist rel) of
      None \<Rightarrow> \<forall>p \<in> set (pathlist rel). \<not> (parallel_safe p \<and> bms_set (PATH_REQ_OUTER p) = {})
    | Some b \<Rightarrow> b \<in> set (pathlist rel) \<and> parallel_safe b \<and> bms_set (PATH_REQ_OUTER b) = {} \<and>
        (\<forall>p \<in> set (pathlist rel). parallel_safe p \<longrightarrow> bms_set (PATH_REQ_OUTER p) = {} \<longrightarrow>
           p = b \<or> total_cost b \<le> total_cost p))"
  using built_sorted [of g rel] first_match_least [of "pathlist rel"] no_match [of "pathlist rel"]
  unfolding sorted_paths_def outer_set_def by (auto split: option.split)

theorem path_lists_sorted_witness:
  "sorted_wrt (\<lambda>p q. total_cost p \<le> total_cost q)
     (pathlist (add_path default_gucs (add_path default_gucs (example_relinfo True []) p200) p100))"
  using path_lists_sorted [OF example_built(2)] by blast

text \<open>
  C4: The tournament of \<^verbatim>\<open>add_path\<close> loses no worthy path. Every path that was in the list is still there or
  is dominated by the new one, the new path is in the list or dominated by one that is there, and
  nothing else gets in. A dominating path is fuzzily no more expensive, at least as well sorted,
  needs no further outer relations, is no less parallel safe, and yields no more rows unless it
  wins on parallel safety alone.
\<close>

theorem add_path_keeps_worthy_paths:
  "(\<forall>old \<in> set (pathlist rel). old \<in> set (pathlist (add_path g rel new)) \<or> beats g new old) \<and>
   (new \<in> set (pathlist (add_path g rel new)) \<or> (\<exists>p \<in> set (pathlist (add_path g rel new)). beaten_by g new p)) \<and>
   set (pathlist (add_path g rel new)) \<subseteq> insert new (set (pathlist rel))"
  using full.insert_path_complete [of "pathlist rel" g new] by simp

theorem add_path_keeps_worthy_paths_witness:
  "p200 \<in> set (pathlist (add_path default_gucs (example_relinfo True [p200]) p100)) \<or> beats default_gucs p100 p200"
  using add_path_keeps_worthy_paths [of "example_relinfo True [p200]" default_gucs p100] by simp

text \<open>
  C32: The tournament of \<^verbatim>\<open>add_partial_path\<close> likewise: a partial path disappears only in favour of one that is
  at least as well sorted and not fuzzily more expensive.
\<close>

theorem add_partial_path_keeps_worthy_paths:
  "(\<forall>old \<in> set (partial_pathlist rel).
      old \<in> set (partial_pathlist (add_partial_path rel new)) \<or> partial_beats new old) \<and>
   (new \<in> set (partial_pathlist (add_partial_path rel new)) \<or>
     (\<exists>p \<in> set (partial_pathlist (add_partial_path rel new)). partial_beaten_by new p)) \<and>
   set (partial_pathlist (add_partial_path rel new)) \<subseteq> insert new (set (partial_pathlist rel))"
  using partial.insert_path_complete [of "partial_pathlist rel" new] by simp

theorem add_partial_path_keeps_worthy_paths_witness:
  "p200 \<in> set (partial_pathlist (add_partial_path (add_partial_path (example_relinfo True []) p200) p100)) \<or>
   partial_beats p100 p200"
  using add_partial_path_keeps_worthy_paths [of "add_partial_path (example_relinfo True []) p200" p100]
  by (simp add: insert_path_def)

text \<open>
  C33: The early exit of \<^verbatim>\<open>add_path_precheck\<close> is sound: for a relation built by the planner it answers what a
  scan of the whole list would, namely that no old path of the same parameterization is at least as
  well sorted and fuzzily cheaper in total cost and, where that matters, in startup cost.
\<close>

theorem add_path_precheck_full_scan:
  "built g rel \<Longrightarrow>
   add_path_precheck rel s t keys outer =
     (\<not> (\<exists>old \<in> set (pathlist rel).
        total_cost old * STD_FUZZ_FACTOR < t \<and>
        (startup_cost old * STD_FUZZ_FACTOR < s \<or>
          \<not> (if outer \<noteq> None then consider_param_startup rel else consider_startup rel)) \<and>
        prefix (if outer \<noteq> None then [] else keys) (effective_pathkeys old) \<and>
        bms_set outer = bms_set (PATH_REQ_OUTER old)))"
  using built_sorted [of g rel]
  by (simp add: add_path_precheck_def precheck_loop_iff precheck_rejects_def outer_set_def)

theorem add_path_precheck_full_scan_witness:
  "\<not> add_path_precheck (add_path default_gucs (example_relinfo True []) p100) (fl 50) (fl 500) [] None"
proof -
  have "pathlist (add_path default_gucs (example_relinfo True []) p100) = [p100]" by (simp add: insert_path_def)
  moreover have "fl 100 * STD_FUZZ_FACTOR < fl 500" "fl 0 * STD_FUZZ_FACTOR < fl 50"
    by (rule fuzzed_less [of 100 102] fuzzed_less [of 0 0]; simp add: exact_numeral exact_zero)+
  ultimately show ?thesis
    using add_path_precheck_full_scan [OF example_built(1), of "fl 50" "fl 500" "[]" None]
    by (simp add: effective_pathkeys_def PATH_REQ_OUTER_def)
qed

text \<open>
  C9: \<^verbatim>\<open>set_cheapest\<close> raises an error exactly when no path survived. Otherwise, on paths whose costs are
  numbers, it records a cheapest unparameterized path for startup and for total cost and lists the
  latter in front of all parameterized paths; without an unparameterized path it records no
  startup path and, as total path, one with minimal parameterization that is cheapest among the
  paths with that parameterization.
\<close>

theorem set_cheapest_correct:
  "\<forall>p \<in> set (pathlist rel). comparable g p \<Longrightarrow>
   (case set_cheapest g rel of
      Inl e \<Rightarrow> pathlist rel = [] \<and> e = ''could not devise a query plan for the given query''
    | Inr r \<Rightarrow> pathlist rel \<noteq> [] \<and> pathlist r = pathlist rel \<and> cheapest_unique_path r = None \<and>
        (if unparameterized (pathlist rel) = [] then
           cheapest_startup_path r = None \<and> cheapest_parameterized_paths r = pathlist rel \<and>
           (\<exists>m. cheapest_total_path r = Some m \<and> best_parameterized g (pathlist rel) m)
         else (\<exists>st tot. cheapest_startup_path r = Some st \<and> cheapest_total_path r = Some tot \<and>
           least_for g STARTUP_COST (unparameterized (pathlist rel)) st \<and>
           least_for g TOTAL_COST (unparameterized (pathlist rel)) tot \<and>
           cheapest_parameterized_paths r = tot # filter (\<lambda>p. param_info p \<noteq> None) (pathlist rel))))"
proof -
  assume ok: "\<forall>p \<in> set (pathlist rel). comparable g p"
  define s where "s = foldl (set_cheapest_step g)
     \<lparr> cs_startup = None, cs_total = None, cs_best_param = None, cs_parameterized = [] \<rparr> (pathlist rel)"
  have inv: "cheapest_inv g (pathlist rel) s" unfolding s_def by (rule cheapest_inv_fold [OF ok])
  have all: "filter (\<lambda>p. param_info p \<noteq> None) (pathlist rel) = pathlist rel" if "unparameterized (pathlist rel) = []"
    using that by (auto simp: unparameterized_def filter_empty_conv intro!: filter_True)
  show ?thesis
  proof (cases "pathlist rel = []")
    case False
    then have e: "set_cheapest g rel = Inr (rel\<lparr> cheapest_startup_path := cs_startup s,
        cheapest_total_path := (case cs_total s of None \<Rightarrow> cs_best_param s | Some t \<Rightarrow> Some t),
        cheapest_unique_path := None,
        cheapest_parameterized_paths := (case cs_total s of None \<Rightarrow> cs_parameterized s | Some t \<Rightarrow> t # cs_parameterized s) \<rparr>)"
      unfolding s_def set_cheapest_def Let_def using False by simp
    show ?thesis
    proof (cases "unparameterized (pathlist rel) = []")
      case True
      then show ?thesis using inv False all unfolding e cheapest_inv_def by (auto split: option.splits)
    next
      case u: False
      then show ?thesis using inv False unfolding e cheapest_inv_def by auto
    qed
  qed (simp add: set_cheapest_def)
qed

theorem set_cheapest_correct_witness:
  "\<exists>r. set_cheapest default_gucs (example_relinfo True [p200, p100]) = Inr r \<and>
     (\<exists>tot. cheapest_total_path r = Some tot \<and> least_for default_gucs TOTAL_COST [p200, p100] tot)"
proof -
  have "\<forall>p \<in> set (pathlist (example_relinfo True [p200, p100])). comparable default_gucs p"
    using p_ok by simp
  from set_cheapest_correct [OF this] show ?thesis
    by (cases "set_cheapest default_gucs (example_relinfo True [p200, p100])")
      (auto simp: unparameterized_def)
qed

text \<open>
  C34: The precheck does not match the fuzzy comparison of \<^verbatim>\<open>add_path\<close> any more, as its comment demands: it
  compares total costs where \<^verbatim>\<open>add_path\<close> compares their logarithms. With default weights it rejects a
  path that \<^verbatim>\<open>add_path\<close> would not only accept but put in the place of the old one.
\<close>

theorem precheck_rejects_acceptable_path:
  "\<not> add_path_precheck (example_relinfo False [late100]) (startup_cost early102) (total_cost early102) [] None \<and>
   pathlist (add_path default_gucs (example_relinfo False [late100]) early102) = [early102]"
proof -
  have "fl 100 * STD_FUZZ_FACTOR < fl 102" 
    using f64_setI [of 1625 4] by (intro fuzzed_less [of 100 "1625 / 16"]) (simp_all add: exact_numeral)
  then show ?thesis
    by (simp add: add_path_precheck_def insert_path_def tournament_Cons example_verdict effective_pathkeys_def
      PATH_REQ_OUTER_def compare_pathkeys_def bms_equal_def)
qed

end
