(* ===== verification/Join_Paths.thy ===== *)
theory Join_Paths
  imports Size_Estimates Add_Path
begin

text \<open>
  Join paths and how they enter a join relation: the construction of nested loop, merge and hash join paths in
  \<^verbatim>\<open>pathnode.c\<close>, the parameterization of join paths in \<^verbatim>\<open>relnode.c\<close>, and in \<^verbatim>\<open>joinpath.c\<close> the routines that propose a
  path, check it against the path list by its preliminary costs, and submit it, with the enumeration of hash joins
  and parallel nested loops. Paths are compared as records where the code compares pointers.
  \<^verbatim>\<open>create_unique_path\<close> and \<^verbatim>\<open>build_join_pathkeys\<close> are parameters, as are the estimators and the equivalence classes.
\<close>

subsection \<open>Data\<close>

text \<open>What the routines share: the settings, the query, the estimators, the equivalence classes and the details of clauses
  and path keys by address.\<close>

record join_env =
  je_gucs :: gucs
  je_root :: PlannerQuery
  je_est :: estimators
  je_ecs :: equivalences
  je_rinfos :: "nat \<Rightarrow> rinfo_data"
  je_pks :: "PathKey \<Rightarrow> pathkey_data"
  je_unique :: "Path \<Rightarrow> SpecialJoinInfo \<Rightarrow> Path option"
  je_pathkeys :: "RelOptInfo \<Rightarrow> JoinType \<Rightarrow> PathKey list \<Rightarrow> PathKey list"

abbreviation je_info :: "join_env \<Rightarrow> PlannerInfo" where
  "je_info E \<equiv> PlannerInfo.truncate (je_root E)"

definition movable_into :: "join_env \<Rightarrow> Relids \<Rightarrow> Relids \<Rightarrow> Node \<Rightarrow> bool" where
  "movable_into E currentrelids current_and_outer rinfo =
     join_clause_is_movable_into (je_rinfos E (rinfo_address rinfo)) currentrelids current_and_outer"

subsection \<open>Parameterization\<close>

definition calc_nestloop_required_outer :: "Path \<Rightarrow> Path \<Rightarrow> Relids" where
  "calc_nestloop_required_outer outer_path inner_path =
     (let outer_paramrels = PATH_REQ_OUTER outer_path; inner_paramrels = PATH_REQ_OUTER inner_path
      in if inner_paramrels = None then bms_copy outer_paramrels
         else
           let required_outer = bms_del_members (bms_union outer_paramrels inner_paramrels) (relids (parent outer_path))
           in if bms_is_empty required_outer then None else required_outer)"

definition calc_non_nestloop_required_outer :: "Path \<Rightarrow> Path \<Rightarrow> Relids" where
  "calc_non_nestloop_required_outer outer_path inner_path =
     bms_union (PATH_REQ_OUTER outer_path) (PATH_REQ_OUTER inner_path)"

definition allow_star_schema_join :: "Path \<Rightarrow> Path \<Rightarrow> bool" where
  "allow_star_schema_join outer_path inner_path =
     (let innerparams = PATH_REQ_OUTER inner_path; outerrelids = relids (parent outer_path)
      in bms_overlap innerparams outerrelids \<and> bms_nonempty_difference innerparams outerrelids)"

definition have_dangerous_phv :: "'b PlannerQuery_scheme \<Rightarrow> Relids \<Rightarrow> Relids \<Rightarrow> bool" where
  "have_dangerous_phv proot outer inner_params =
     list_ex (\<lambda>phinfo. bms_is_subset (ph_eval_at phinfo) inner_params \<and> bms_overlap (ph_eval_at phinfo) outer \<and>
       \<not> bms_is_subset (ph_eval_at phinfo) outer) (placeholder_list proot)"

text \<open>The clauses that move down to a parameterized join: those of the relation and of the equivalence classes that no input
  can take, and replacements for the ones that the inner input took.\<close>

definition moved_clauses :: "join_env \<Rightarrow> RelOptInfo \<Rightarrow> Path \<Rightarrow> Path \<Rightarrow> Relids \<Rightarrow> Node list" where
  "moved_clauses E joinrel outer_path inner_path required_outer =
     (let join_and_req = bms_union (relids joinrel) required_outer;
          outer_rels = relids (parent outer_path); inner_rels = relids (parent inner_path);
          outer_and_req = (if param_info outer_path \<noteq> None then bms_union outer_rels (PATH_REQ_OUTER outer_path) else None);
          inner_and_req = (if param_info inner_path \<noteq> None then bms_union inner_rels (PATH_REQ_OUTER inner_path) else None);
          to_outer = movable_into E outer_rels outer_and_req;
          to_inner = movable_into E inner_rels inner_and_req;
          pclauses = filter (\<lambda>r. movable_into E (relids joinrel) join_and_req r \<and> \<not> to_outer r \<and> \<not> to_inner r) (joininfo joinrel);
          eclauses = filter (\<lambda>r. \<not> to_outer r)
            (generate_join_implied_equalities (je_ecs E) join_and_req required_outer (relids joinrel));
          dropped_ecs = map (\<lambda>r. rinfo_left_ec (je_rinfos E (rinfo_address r))) (filter to_inner eclauses);
          added = (if dropped_ecs \<noteq> []
                   then filter (\<lambda>r. \<not> to_outer r)
                     (generate_join_implied_equalities_for_ecs (je_ecs E) dropped_ecs (bms_union outer_rels required_outer)
                        required_outer outer_rels)
                   else [])
      in pclauses @ filter (\<lambda>r. \<not> to_inner r) eclauses @ added)"

definition get_joinrel_parampathinfo ::
    "join_env \<Rightarrow> RelOptInfo \<Rightarrow> Path \<Rightarrow> Path \<Rightarrow> SpecialJoinInfo \<Rightarrow> Relids \<Rightarrow> Node list \<Rightarrow>
     (RelOptInfo \<times> ParamPathInfo option \<times> Node list) ereport" where
  "get_joinrel_parampathinfo E joinrel outer_path inner_path sjinfo required_outer restrict_clauses =
     (if bms_is_empty required_outer then Inr (joinrel, None, restrict_clauses)
      else
        let clauses = moved_clauses E joinrel outer_path inner_path required_outer @ restrict_clauses
        in case find (\<lambda>ppi. bms_equal (ppi_req_outer ppi) required_outer) (ppilist joinrel) of
             Some ppi \<Rightarrow> Inr (joinrel, Some ppi, clauses)
           | None \<Rightarrow>
               ebind (get_parameterized_joinrel_size (je_root E) (je_est E) (je_rinfos E) joinrel outer_path inner_path sjinfo clauses)
                 (\<lambda>n. let ppi = \<lparr> ppi_req_outer = required_outer, ppi_rows = n, ppi_clauses = [] \<rparr>
                      in Inr (joinrel\<lparr> ppilist := ppilist joinrel @ [ppi] \<rparr>, Some ppi, clauses)))"

subsection \<open>Construction of join paths\<close>

text \<open>A fresh node: the fields that the constructors set before the costs are computed.\<close>

definition new_join_path ::
    "path_node \<Rightarrow> NodeTag \<Rightarrow> RelOptInfo \<Rightarrow> ParamPathInfo option \<Rightarrow> Path \<Rightarrow> Path \<Rightarrow> PathKey list \<Rightarrow> Path" where
  "new_join_path node tag joinrel par outer_path inner_path keys =
     \<lparr> path_node = node, pathtype = tag, parent = RelOptBase.truncate joinrel, pathtarget = reltarget joinrel, param_info = par,
       parallel_aware = False, parallel_safe = (consider_parallel joinrel \<and> parallel_safe outer_path \<and> parallel_safe inner_path),
       parallel_workers = parallel_workers outer_path, rows = 0, startup_cost = 0, total_cost = 0, io_cost = 0, cpu_cost = 0,
       power_cost = 0, pathkeys = keys \<rparr>"

definition create_nestloop_path ::
    "join_env \<Rightarrow> RelOptInfo \<Rightarrow> JoinType \<Rightarrow> JoinCostWorkspace \<Rightarrow> JoinPathExtraData \<Rightarrow> Path \<Rightarrow> Path \<Rightarrow> Node list \<Rightarrow>
     PathKey list \<Rightarrow> Relids \<Rightarrow> (RelOptInfo \<times> JoinPath) planner" where
  "create_nestloop_path E joinrel jt workspace extra outer_path inner_path restrict_clauses keys required_outer =
     (let inner_req_outer = PATH_REQ_OUTER inner_path;
          inner_rels = relids (parent inner_path);
          clauses0 =
            (if bms_overlap inner_req_outer (relids (parent outer_path))
             then filter (\<lambda>r. \<not> movable_into E inner_rels (bms_union inner_rels inner_req_outer) r) restrict_clauses
             else restrict_clauses)
      in pbind (plift (get_joinrel_parampathinfo E joinrel outer_path inner_path (extra_sjinfo extra) required_outer clauses0))
         (\<lambda>(joinrel', par, clauses).
           let pathnode = Path.extend (new_join_path T_OtherPath T_NestLoop joinrel' par outer_path inner_path keys)
                 (JoinPath.fields jt (inner_unique extra) outer_path inner_path clauses)
           in pbind (final_cost_nestloop (je_gucs E) (je_info E) (je_rinfos E) pathnode workspace extra) (\<lambda>path.
                preturn (joinrel', path))))"

definition create_mergejoin_path ::
    "join_env \<Rightarrow> RelOptInfo \<Rightarrow> JoinType \<Rightarrow> JoinCostWorkspace \<Rightarrow> JoinPathExtraData \<Rightarrow> Path \<Rightarrow> Path \<Rightarrow> Node list \<Rightarrow>
     PathKey list \<Rightarrow> Relids \<Rightarrow> Node list \<Rightarrow> PathKey list \<Rightarrow> PathKey list \<Rightarrow> (RelOptInfo \<times> MergePath) planner" where
  "create_mergejoin_path E joinrel jt workspace extra outer_path inner_path restrict_clauses keys required_outer mergeclauses
       outerkeys innerkeys =
     pbind (plift (get_joinrel_parampathinfo E joinrel outer_path inner_path (extra_sjinfo extra) required_outer restrict_clauses))
       (\<lambda>(joinrel', par, clauses).
         let jpath = Path.extend (new_join_path T_OtherPath T_MergeJoin joinrel' par outer_path inner_path keys)
               (JoinPath.fields jt (inner_unique extra) outer_path inner_path clauses);
             pathnode = JoinPath.extend jpath (MergePath.fields mergeclauses outerkeys innerkeys False False)
         in pbind (final_cost_mergejoin (je_gucs E) (je_info E) (je_est E) pathnode workspace extra) (\<lambda>path.
              preturn (joinrel', path)))"

definition create_hashjoin_path ::
    "join_env \<Rightarrow> RelOptInfo \<Rightarrow> JoinType \<Rightarrow> JoinCostWorkspace \<Rightarrow> JoinPathExtraData \<Rightarrow> Path \<Rightarrow> Path \<Rightarrow> Node list \<Rightarrow>
     Relids \<Rightarrow> Node list \<Rightarrow> bucket_cache \<Rightarrow> (RelOptInfo \<times> bucket_cache \<times> HashPath) planner" where
  "create_hashjoin_path E joinrel jt workspace extra outer_path inner_path restrict_clauses required_outer hashclauses buckets =
     pbind (plift (get_joinrel_parampathinfo E joinrel outer_path inner_path (extra_sjinfo extra) required_outer restrict_clauses))
       (\<lambda>(joinrel', par, clauses).
         let jpath = Path.extend (new_join_path (T_HashPath 0) T_HashJoin joinrel' par outer_path inner_path [])
               (JoinPath.fields jt (inner_unique extra) outer_path inner_path clauses);
             pathnode = JoinPath.extend jpath (HashPath.fields hashclauses)
         in pbind (final_cost_hashjoin (je_gucs E) (je_info E) (je_est E) pathnode workspace extra buckets) (\<lambda>(buckets', path).
              preturn (joinrel', buckets', path)))"

subsection \<open>Proposing join paths\<close>

text \<open>\<^verbatim>\<open>workspace\<close> is an uninitialized variable of the C code; its contents are an argument.\<close>

definition try_nestloop_path ::
    "join_env \<Rightarrow> JoinCostWorkspace \<Rightarrow> RelOptInfo \<Rightarrow> Path \<Rightarrow> Path \<Rightarrow> PathKey list \<Rightarrow> JoinType \<Rightarrow> JoinPathExtraData \<Rightarrow> RelOptInfo planner" where
  "try_nestloop_path E ws0 joinrel outer_path inner_path keys jt extra =
     (let required_outer = calc_nestloop_required_outer outer_path inner_path
      in if required_outer \<noteq> None \<and>
            (\<not> bms_overlap required_outer (param_source_rels extra) \<and> \<not> allow_star_schema_join outer_path inner_path \<or>
             have_dangerous_phv (je_root E) (relids (parent outer_path)) (PATH_REQ_OUTER inner_path))
         then preturn joinrel
         else
           let workspace = initial_cost_nestloop (je_gucs E) ws0 jt outer_path inner_path extra
           in if add_path_precheck joinrel (ws_startup_cost workspace) (ws_total_cost workspace) keys required_outer
              then pbind (create_nestloop_path E joinrel jt workspace extra outer_path inner_path (extra_restrictlist extra) keys
                            required_outer)
                     (\<lambda>(joinrel', path). preturn (add_path (je_gucs E) joinrel' (Path.truncate path)))
              else preturn joinrel)"

definition try_partial_nestloop_path ::
    "join_env \<Rightarrow> JoinCostWorkspace \<Rightarrow> RelOptInfo \<Rightarrow> Path \<Rightarrow> Path \<Rightarrow> PathKey list \<Rightarrow> JoinType \<Rightarrow> JoinPathExtraData \<Rightarrow> RelOptInfo planner" where
  "try_partial_nestloop_path E ws0 joinrel outer_path inner_path keys jt extra =
     (if (case param_info inner_path of
            Some ppi \<Rightarrow> \<not> bms_is_subset (ppi_req_outer ppi) (relids (parent outer_path)) | None \<Rightarrow> False)
      then preturn joinrel
      else
        let workspace = initial_cost_nestloop (je_gucs E) ws0 jt outer_path inner_path extra
        in if \<not> add_partial_path_precheck joinrel (ws_total_cost workspace) keys then preturn joinrel
           else pbind (create_nestloop_path E joinrel jt workspace extra outer_path inner_path (extra_restrictlist extra) keys None)
                  (\<lambda>(joinrel', path). preturn (add_partial_path joinrel' (Path.truncate path))))"

text \<open>Sort keys that the input already provides are dropped.\<close>

definition needed_sortkeys :: "PathKey list \<Rightarrow> Path \<Rightarrow> PathKey list" where
  "needed_sortkeys sortkeys path = (if sortkeys \<noteq> [] \<and> pathkeys_contained_in sortkeys (pathkeys path) then [] else sortkeys)"

definition try_partial_mergejoin_path ::
    "join_env \<Rightarrow> JoinCostWorkspace \<Rightarrow> RelOptInfo \<Rightarrow> Path \<Rightarrow> Path \<Rightarrow> PathKey list \<Rightarrow> Node list \<Rightarrow> PathKey list \<Rightarrow> PathKey list \<Rightarrow>
     JoinType \<Rightarrow> JoinPathExtraData \<Rightarrow> scansel_cache \<Rightarrow> (scansel_cache \<times> RelOptInfo) planner" where
  "try_partial_mergejoin_path E ws0 joinrel outer_path inner_path keys mergeclauses outerkeys0 innerkeys0 jt extra sels =
     (if (case param_info inner_path of Some ppi \<Rightarrow> \<not> bms_is_empty (ppi_req_outer ppi) | None \<Rightarrow> False)
      then preturn (sels, joinrel)
      else
        let outerkeys = needed_sortkeys outerkeys0 outer_path; innerkeys = needed_sortkeys innerkeys0 inner_path
        in pbind (plift (initial_cost_mergejoin (je_gucs E) (je_est E) (je_pks E) ws0 jt mergeclauses outer_path inner_path
                           outerkeys innerkeys sels)) (\<lambda>(sels', workspace).
             if \<not> add_partial_path_precheck joinrel (ws_total_cost workspace) keys then preturn (sels', joinrel)
             else pbind (create_mergejoin_path E joinrel jt workspace extra outer_path inner_path (extra_restrictlist extra) keys
                           None mergeclauses outerkeys innerkeys)
                    (\<lambda>(joinrel', path). preturn (sels', add_partial_path joinrel' (Path.truncate path)))))"

definition try_mergejoin_path ::
    "join_env \<Rightarrow> JoinCostWorkspace \<Rightarrow> RelOptInfo \<Rightarrow> Path \<Rightarrow> Path \<Rightarrow> PathKey list \<Rightarrow> Node list \<Rightarrow> PathKey list \<Rightarrow> PathKey list \<Rightarrow>
     JoinType \<Rightarrow> JoinPathExtraData \<Rightarrow> bool \<Rightarrow> scansel_cache \<Rightarrow> (scansel_cache \<times> RelOptInfo) planner" where
  "try_mergejoin_path E ws0 joinrel outer_path inner_path keys mergeclauses outerkeys0 innerkeys0 jt extra is_partial sels =
     (if is_partial
      then try_partial_mergejoin_path E ws0 joinrel outer_path inner_path keys mergeclauses outerkeys0 innerkeys0 jt extra sels
      else
        let required_outer = calc_non_nestloop_required_outer outer_path inner_path
        in if required_outer \<noteq> None \<and> \<not> bms_overlap required_outer (param_source_rels extra) then preturn (sels, joinrel)
           else
             let outerkeys = needed_sortkeys outerkeys0 outer_path; innerkeys = needed_sortkeys innerkeys0 inner_path
             in pbind (plift (initial_cost_mergejoin (je_gucs E) (je_est E) (je_pks E) ws0 jt mergeclauses outer_path inner_path
                                outerkeys innerkeys sels)) (\<lambda>(sels', workspace).
                  if add_path_precheck joinrel (ws_startup_cost workspace) (ws_total_cost workspace) keys required_outer
                  then pbind (create_mergejoin_path E joinrel jt workspace extra outer_path inner_path (extra_restrictlist extra)
                                keys required_outer mergeclauses outerkeys innerkeys)
                         (\<lambda>(joinrel', path). preturn (sels', add_path (je_gucs E) joinrel' (Path.truncate path)))
                  else preturn (sels', joinrel)))"

definition try_hashjoin_path ::
    "join_env \<Rightarrow> JoinCostWorkspace \<Rightarrow> RelOptInfo \<Rightarrow> Path \<Rightarrow> Path \<Rightarrow> Node list \<Rightarrow> JoinType \<Rightarrow> JoinPathExtraData \<Rightarrow>
     bucket_cache \<Rightarrow> (bucket_cache \<times> RelOptInfo) planner" where
  "try_hashjoin_path E ws0 joinrel outer_path inner_path hashclauses jt extra buckets =
     (let required_outer = calc_non_nestloop_required_outer outer_path inner_path
      in if required_outer \<noteq> None \<and> \<not> bms_overlap required_outer (param_source_rels extra) then preturn (buckets, joinrel)
         else
           let workspace = initial_cost_hashjoin (je_gucs E) ws0 hashclauses outer_path inner_path
           in if add_path_precheck joinrel (ws_startup_cost workspace) (ws_total_cost workspace) [] required_outer
              then pbind (create_hashjoin_path E joinrel jt workspace extra outer_path inner_path (extra_restrictlist extra)
                            required_outer hashclauses buckets)
                     (\<lambda>(joinrel', buckets', path). preturn (buckets', add_path (je_gucs E) joinrel' (Path.truncate path)))
              else preturn (buckets, joinrel))"

definition try_partial_hashjoin_path ::
    "join_env \<Rightarrow> JoinCostWorkspace \<Rightarrow> RelOptInfo \<Rightarrow> Path \<Rightarrow> Path \<Rightarrow> Node list \<Rightarrow> JoinType \<Rightarrow> JoinPathExtraData \<Rightarrow>
     bucket_cache \<Rightarrow> (bucket_cache \<times> RelOptInfo) planner" where
  "try_partial_hashjoin_path E ws0 joinrel outer_path inner_path hashclauses jt extra buckets =
     (if (case param_info inner_path of Some ppi \<Rightarrow> \<not> bms_is_empty (ppi_req_outer ppi) | None \<Rightarrow> False)
      then preturn (buckets, joinrel)
      else
        let workspace = initial_cost_hashjoin (je_gucs E) ws0 hashclauses outer_path inner_path
        in if \<not> add_partial_path_precheck joinrel (ws_total_cost workspace) [] then preturn (buckets, joinrel)
           else pbind (create_hashjoin_path E joinrel jt workspace extra outer_path inner_path (extra_restrictlist extra) None
                         hashclauses buckets)
                  (\<lambda>(joinrel', buckets', path). preturn (buckets', add_partial_path joinrel' (Path.truncate path))))"

subsection \<open>Enumeration\<close>

text \<open>\<^verbatim>\<open>clause_sides_match_join\<close> with the flag \<^verbatim>\<open>outer_is_left\<close> of the clause in a store.\<close>

definition clause_sides_match_join ::
    "'a RelOptBase_scheme \<Rightarrow> 'c RelOptBase_scheme \<Rightarrow> Node \<Rightarrow> (nat \<Rightarrow> bool) \<Rightarrow> (nat \<Rightarrow> bool) \<times> bool" where
  "clause_sides_match_join outerrel innerrel rinfo outer_is_left =
     (if bms_is_subset (left_relids rinfo) (relids outerrel) \<and> bms_is_subset (right_relids rinfo) (relids innerrel)
      then (outer_is_left(rinfo_address rinfo := True), True)
      else if bms_is_subset (left_relids rinfo) (relids innerrel) \<and> bms_is_subset (right_relids rinfo) (relids outerrel)
      then (outer_is_left(rinfo_address rinfo := False), True)
      else (outer_is_left, False))"

fun find_hashclauses ::
    "join_env \<Rightarrow> JoinType \<Rightarrow> RelOptInfo \<Rightarrow> RelOptInfo \<Rightarrow> Node list \<Rightarrow> (nat \<Rightarrow> bool) \<Rightarrow> (nat \<Rightarrow> bool) \<times> Node list" where
  "find_hashclauses E jt outerrel innerrel [] marks = (marks, [])"
| "find_hashclauses E jt outerrel innerrel (r # rs) marks =
     (if IS_OUTER_JOIN jt \<and> is_pushed_down r then find_hashclauses E jt outerrel innerrel rs marks
      else if \<not> can_join (je_rinfos E (rinfo_address r)) \<or> hashjoinoperator (je_rinfos E (rinfo_address r)) = InvalidOid
      then find_hashclauses E jt outerrel innerrel rs marks
      else
        let (marks1, ok) = clause_sides_match_join outerrel innerrel r marks;
            (marks2, clauses) = find_hashclauses E jt outerrel innerrel rs marks1
        in (marks2, if ok then r # clauses else clauses))"

definition PATH_PARAM_BY_REL :: "Path \<Rightarrow> 'a RelOptBase_scheme \<Rightarrow> bool" where
  "PATH_PARAM_BY_REL path rel \<longleftrightarrow> param_info path \<noteq> None \<and> bms_overlap (PATH_REQ_OUTER path) (relids rel)"

text \<open>Trying pairs of paths one after the other.\<close>

fun try_hashjoin_pairs ::
    "join_env \<Rightarrow> JoinCostWorkspace \<Rightarrow> (Path \<times> Path) list \<Rightarrow> Node list \<Rightarrow> JoinType \<Rightarrow> JoinPathExtraData \<Rightarrow>
     bucket_cache \<times> RelOptInfo \<Rightarrow> (bucket_cache \<times> RelOptInfo) planner" where
  "try_hashjoin_pairs E ws0 [] hashclauses jt extra st = preturn st"
| "try_hashjoin_pairs E ws0 ((outer, inner) # pairs) hashclauses jt extra st =
     pbind (try_hashjoin_path E ws0 (snd st) outer inner hashclauses jt extra (fst st))
       (try_hashjoin_pairs E ws0 pairs hashclauses jt extra)"

text \<open>The pairs of the general case: the cheapest startup outer path with the cheapest inner path, then all pairs of cheapest
  paths of any parameterization that do not depend on each other.\<close>

definition hashjoin_pairs :: "RelOptInfo \<Rightarrow> RelOptInfo \<Rightarrow> Path option \<Rightarrow> Path \<Rightarrow> (Path \<times> Path) list" where
  "hashjoin_pairs outerrel innerrel startup_outer total_inner =
     (case startup_outer of Some p \<Rightarrow> [(p, total_inner)] | None \<Rightarrow> []) @
     concat (map (\<lambda>outer. map (Pair outer)
       (filter (\<lambda>inner. \<not> PATH_PARAM_BY_REL inner outerrel \<and> \<not> (Some outer = startup_outer \<and> inner = total_inner))
         (cheapest_parameterized_paths innerrel)))
       (filter (\<lambda>outer. \<not> PATH_PARAM_BY_REL outer innerrel) (cheapest_parameterized_paths outerrel)))"

definition unique_path :: "join_env \<Rightarrow> Path \<Rightarrow> JoinPathExtraData \<Rightarrow> Path planner" where
  "unique_path E path extra = (case je_unique E path (extra_sjinfo extra) of Some p \<Rightarrow> preturn p | None \<Rightarrow> praise ''null pointer'')"

text \<open>The complete paths: the pairs that are tried, with the join type and the inner path that remain.\<close>

definition hashjoin_plan ::
    "join_env \<Rightarrow> RelOptInfo \<Rightarrow> RelOptInfo \<Rightarrow> JoinType \<Rightarrow> JoinPathExtraData \<Rightarrow> Path \<Rightarrow> Path \<Rightarrow>
     ((Path \<times> Path) list \<times> JoinType \<times> Path) planner" where
  "hashjoin_plan E outerrel innerrel jt extra total_outer total_inner =
     (let startup_outer = cheapest_startup_path outerrel
      in if jt = JOIN_UNIQUE_OUTER then
           pbind (unique_path E total_outer extra) (\<lambda>outer. preturn ([(outer, total_inner)], JOIN_INNER, total_inner))
         else if jt = JOIN_UNIQUE_INNER then
           pbind (unique_path E total_inner extra) (\<lambda>inner.
             preturn ((total_outer, inner) #
               (case startup_outer of Some p \<Rightarrow> if p \<noteq> total_outer then [(p, inner)] else [] | None \<Rightarrow> []), JOIN_INNER, inner))
         else preturn (hashjoin_pairs outerrel innerrel startup_outer total_inner, jt, total_inner))"

definition partial_hashjoin ::
    "join_env \<Rightarrow> JoinCostWorkspace \<Rightarrow> RelOptInfo \<Rightarrow> RelOptInfo \<Rightarrow> JoinType \<Rightarrow> JoinType \<Rightarrow> JoinPathExtraData \<Rightarrow> Node list \<Rightarrow> Path \<Rightarrow>
     bucket_cache \<times> RelOptInfo \<Rightarrow> (bucket_cache \<times> RelOptInfo) planner" where
  "partial_hashjoin E ws0 outerrel innerrel save_jointype jt extra hashclauses total_inner st =
     (case partial_pathlist outerrel of
        cheapest_partial_outer # _ \<Rightarrow>
          if consider_parallel (snd st) \<and> save_jointype \<notin> {JOIN_UNIQUE_OUTER, JOIN_FULL, JOIN_RIGHT} \<and>
             bms_is_empty (lateral_relids (snd st))
          then
            (case (if parallel_safe total_inner then Some total_inner
                   else if save_jointype \<noteq> JOIN_UNIQUE_INNER then get_cheapest_parallel_safe_total_inner (pathlist innerrel)
                   else None) of
               Some inner \<Rightarrow>
                 try_partial_hashjoin_path E ws0 (snd st) cheapest_partial_outer inner hashclauses jt extra (fst st)
             | None \<Rightarrow> preturn st)
          else preturn st
      | [] \<Rightarrow> preturn st)"

definition hash_inner_and_outer ::
    "join_env \<Rightarrow> JoinCostWorkspace \<Rightarrow> RelOptInfo \<Rightarrow> RelOptInfo \<Rightarrow> RelOptInfo \<Rightarrow> JoinType \<Rightarrow> JoinPathExtraData \<Rightarrow>
     (nat \<Rightarrow> bool) \<Rightarrow> bucket_cache \<Rightarrow> ((nat \<Rightarrow> bool) \<times> bucket_cache \<times> RelOptInfo) planner" where
  "hash_inner_and_outer E ws0 joinrel outerrel innerrel save_jointype extra marks0 buckets =
     (let (marks, hashclauses) = find_hashclauses E save_jointype outerrel innerrel (extra_restrictlist extra) marks0
      in if hashclauses = [] then preturn (marks, buckets, joinrel)
         else case (cheapest_total_path outerrel, cheapest_total_path innerrel) of
           (Some total_outer, Some total_inner) \<Rightarrow>
             if PATH_PARAM_BY_REL total_outer innerrel \<or> PATH_PARAM_BY_REL total_inner outerrel
             then preturn (marks, buckets, joinrel)
             else pbind (hashjoin_plan E outerrel innerrel save_jointype extra total_outer total_inner) (\<lambda>(pairs, jt, inner).
                  pbind (try_hashjoin_pairs E ws0 pairs hashclauses jt extra (buckets, joinrel)) (\<lambda>st.
                  pbind (partial_hashjoin E ws0 outerrel innerrel save_jointype jt extra hashclauses inner st) (\<lambda>st'.
                    preturn (marks, st'))))
         | _ \<Rightarrow> praise ''null pointer'')"

text \<open>Nested loops over a partial outer path.\<close>

fun parallel_nestloop_inners ::
    "join_env \<Rightarrow> JoinCostWorkspace \<Rightarrow> RelOptInfo \<Rightarrow> JoinType \<Rightarrow> JoinType \<Rightarrow> JoinPathExtraData \<Rightarrow> Path \<Rightarrow> PathKey list \<Rightarrow> Path list \<Rightarrow>
     RelOptInfo \<Rightarrow> RelOptInfo planner" where
  "parallel_nestloop_inners E ws0 innerrel save_jointype jt extra outerpath keys [] joinrel = preturn joinrel"
| "parallel_nestloop_inners E ws0 innerrel save_jointype jt extra outerpath keys (inner # inners) joinrel =
     (let next = parallel_nestloop_inners E ws0 innerrel save_jointype jt extra outerpath keys inners
      in if \<not> parallel_safe inner then next joinrel
         else if save_jointype = JOIN_UNIQUE_INNER then
           (if Some inner \<noteq> cheapest_total_path innerrel then next joinrel
            else pbind (unique_path E inner extra) (\<lambda>innerpath.
                 pbind (try_partial_nestloop_path E ws0 joinrel outerpath innerpath keys jt extra) next))
         else pbind (try_partial_nestloop_path E ws0 joinrel outerpath inner keys jt extra) next)"

fun parallel_nestloop_outers ::
    "join_env \<Rightarrow> JoinCostWorkspace \<Rightarrow> RelOptInfo \<Rightarrow> JoinType \<Rightarrow> JoinType \<Rightarrow> JoinPathExtraData \<Rightarrow> Path list \<Rightarrow> RelOptInfo \<Rightarrow> RelOptInfo planner" where
  "parallel_nestloop_outers E ws0 innerrel save_jointype jt extra [] joinrel = preturn joinrel"
| "parallel_nestloop_outers E ws0 innerrel save_jointype jt extra (outer # outers) joinrel =
     pbind (parallel_nestloop_inners E ws0 innerrel save_jointype jt extra outer (je_pathkeys E joinrel jt (pathkeys outer))
              (cheapest_parameterized_paths innerrel) joinrel)
       (parallel_nestloop_outers E ws0 innerrel save_jointype jt extra outers)"

definition consider_parallel_nestloop ::
    "join_env \<Rightarrow> JoinCostWorkspace \<Rightarrow> RelOptInfo \<Rightarrow> RelOptInfo \<Rightarrow> RelOptInfo \<Rightarrow> JoinType \<Rightarrow> JoinPathExtraData \<Rightarrow> RelOptInfo planner" where
  "consider_parallel_nestloop E ws0 joinrel outerrel innerrel save_jointype extra =
     parallel_nestloop_outers E ws0 innerrel save_jointype
       (if save_jointype = JOIN_UNIQUE_INNER then JOIN_INNER else save_jointype) extra (partial_pathlist outerrel) joinrel"

subsection \<open>Relations that are in order\<close>

text \<open>Paths that can be inputs of joins, and relations all of whose estimates are in order.\<close>

definition path_ok :: "Path \<Rightarrow> bool" where
  "path_ok p \<longleftrightarrow> input_ok p \<and> 0 \<le> parallel_workers p"

definition joinrel_ok :: "(nat \<Rightarrow> Node) \<Rightarrow> RelOptInfo \<Rightarrow> bool" where
  "joinrel_ok mem rel \<longleftrightarrow> rows_ok (rel_rows rel) \<and> qual_nonneg (target_cost (reltarget rel)) \<and> 0 \<le> target_width (reltarget rel) \<and>
     nonneg (tuples rel) \<and> qual_nonneg (baserestrictcost rel) \<and>
     (\<forall>ppi \<in> set (ppilist rel). rows_ok (ppi_rows ppi) \<and> \<not> rel_rows rel < ppi_rows ppi \<and> clauses_ok mem (ppi_clauses ppi)) \<and>
     clauses_ok mem (joininfo rel) \<and> restriction_list (joininfo rel) \<and>
     (\<forall>p \<in> set (pathlist rel) \<union> set (partial_pathlist rel). path_ok p)"

definition env_ok :: "(nat \<Rightarrow> Node) \<Rightarrow> join_env \<Rightarrow> bool" where
  "env_ok mem E \<longleftrightarrow> gucs_ok (je_gucs E) \<and> 0 \<le> work_mem (je_gucs E) \<and> catalog_ok (catalogs (je_root E)) \<and> estimators_ok (je_est E) \<and>
     (\<forall>a b c. clauses_ok mem (generate_join_implied_equalities (je_ecs E) a b c) \<and>
        restriction_list (generate_join_implied_equalities (je_ecs E) a b c)) \<and>
     (\<forall>l a b c. clauses_ok mem (generate_join_implied_equalities_for_ecs (je_ecs E) l a b c) \<and>
        restriction_list (generate_join_implied_equalities_for_ecs (je_ecs E) l a b c)) \<and>
     (\<forall>p sj q. path_ok p \<longrightarrow> je_unique E p sj = Some q \<longrightarrow> path_ok q)"

definition extra_ok :: "(nat \<Rightarrow> Node) \<Rightarrow> JoinPathExtraData \<Rightarrow> bool" where
  "extra_ok mem extra \<longleftrightarrow> clauses_ok mem (extra_restrictlist extra) \<and> restriction_list (extra_restrictlist extra) \<and>
     factors_ok (semifactors extra)"

abbreviation store_ok :: "(nat \<Rightarrow> Node) \<Rightarrow> join_env \<Rightarrow> eval_cache \<Rightarrow> bool" where
  "store_ok mem E \<equiv> cache_ok (je_gucs E) (catalogs (je_root E)) mem"

lemma env_okD:
  assumes "env_ok mem E"
  shows "gucs_ok (je_gucs E)" "0 \<le> work_mem (je_gucs E)" "catalog_ok (catalogs (je_root E))" "estimators_ok (je_est E)"
    "path_ok p \<Longrightarrow> je_unique E p sj = Some q \<Longrightarrow> path_ok q"
  using assms unfolding env_ok_def by blast+

lemma info_catalogs [simp]: "catalogs (je_info E) = catalogs (je_root E)"
  by (simp add: PlannerInfo.truncate_def)

lemma restriction_list_append [simp]: "restriction_list (xs @ ys) \<longleftrightarrow> restriction_list xs \<and> restriction_list ys"
  by (auto simp: restriction_list_def)

lemma filter_ok: "clauses_ok mem xs \<Longrightarrow> clauses_ok mem (filter P xs)" "restriction_list xs \<Longrightarrow> restriction_list (filter P xs)"
  by (auto simp: clauses_ok_def restriction_list_def)

lemma insert_path_subset: "set (insert_path v p ps) \<subseteq> insert p (set ps)"
proof -
  obtain kept i accept where t: "tournament v p ps [] 0 = (kept, i, accept)" by (metis prod_cases3)
  then show ?thesis using tournament_subset [OF t] by (auto simp: insert_path_def dest: in_set_takeD in_set_dropD)
qed

lemma add_path_ok:
  assumes "joinrel_ok mem rel" "path_ok p"
  shows "joinrel_ok mem (add_path g rel p)" "joinrel_ok mem (add_partial_path rel p)"
  using assms insert_path_subset [of "add_path_verdict g p" p "pathlist rel"]
    insert_path_subset [of "add_partial_path_verdict p" p "partial_pathlist rel"]
  by (auto simp: joinrel_ok_def add_path_def add_partial_path_def)

lemma moved_clauses_ok:
  assumes "env_ok mem E" "joinrel_ok mem rel"
  shows "clauses_ok mem (moved_clauses E rel outer inner req)" "restriction_list (moved_clauses E rel outer inner req)"
  using assms unfolding moved_clauses_def Let_def env_ok_def joinrel_ok_def
  by (auto intro!: filter_ok simp: restriction_list_def)

lemma parampathinfo_ok:
  assumes env: "env_ok mem E" and rel: "joinrel_ok mem rel" and cl: "clauses_ok mem cs" "restriction_list cs"
    and r: "get_joinrel_parampathinfo E rel outer inner sj req cs = Inr (rel', par, cs')"
  shows "joinrel_ok mem rel' \<and> rel' = rel\<lparr> ppilist := ppilist rel' \<rparr> \<and> rows_ok (path_rows (RelOptBase.truncate rel') par) \<and>
    clauses_ok mem cs' \<and> restriction_list cs' \<and> subseq cs cs'"
proof (cases "bms_is_empty req")
  case True
  then show ?thesis using r rel cl by (auto simp: get_joinrel_parampathinfo_def path_rows_def joinrel_ok_def RelOptBase.truncate_def)
next
  case False
  let ?cs = "moved_clauses E rel outer inner req @ cs"
  note m = moved_clauses_ok [OF env rel]
  show ?thesis
  proof (cases "find (\<lambda>ppi. bms_equal (ppi_req_outer ppi) req) (ppilist rel)")
    case (Some ppi)
    then have "ppi \<in> set (ppilist rel)" by (auto simp: find_Some_iff)
    moreover have "rel' = rel" "par = Some ppi" "cs' = ?cs"
      using Some False r by (auto simp: get_joinrel_parampathinfo_def Let_def)
    ultimately show ?thesis using rel cl m by (auto simp: path_rows_def joinrel_ok_def)
  next
    case None
    then obtain n where n: "get_parameterized_joinrel_size (je_root E) (je_est E) (je_rinfos E) rel outer inner sj ?cs = Inr n"
      and r': "rel' = rel\<lparr> ppilist := ppilist rel @ [\<lparr> ppi_req_outer = req, ppi_rows = n, ppi_clauses = [] \<rparr>] \<rparr>"
        "par = Some \<lparr> ppi_req_outer = req, ppi_rows = n, ppi_clauses = [] \<rparr>" "cs' = ?cs"
      using False r by (auto simp: get_joinrel_parampathinfo_def Let_def ebind_Inr_iff)
    have "rows_ok n" "\<not> rel_rows rel < n" "clauses_ok mem []"
      using parameterized_joinrel_size [OF n] rel by (simp_all add: joinrel_ok_def clauses_ok_def)
    then show ?thesis using rel cl m r' by (auto simp: path_rows_def joinrel_ok_def)
  qed
qed

text \<open>What costing leaves of a join path.\<close>

definition join_fields :: "'a Path_scheme \<Rightarrow> 'b Path_scheme \<Rightarrow> bool" where
  "join_fields path p \<longleftrightarrow> rows p = join_rows path \<and> pathtarget p = pathtarget path \<and> parallel_workers p = parallel_workers path"

lemma nestloop_fields: "final_cost_nestloop g proot rinfos path ws extra c = Inr (c', p) \<Longrightarrow> join_fields path p"
  unfolding final_cost_nestloop_def Let_def case_prod_beta planner_Inr by (auto simp: join_fields_def set_power_def set_costs_def)

lemma mergejoin_fields: "final_cost_mergejoin g proot est path ws extra c = Inr (c', p) \<Longrightarrow> join_fields path p"
proof -
  have "join_fields path (finish_mergejoin g est path ws extra q r)" for q r
    unfolding finish_mergejoin_def Let_def case_prod_beta set_power_def set_costs_def by (simp add: join_fields_def)
  moreover assume "final_cost_mergejoin g proot est path ws extra c = Inr (c', p)"
  ultimately show ?thesis unfolding final_cost_mergejoin_def planner_Inr by blast
qed

lemma hashjoin_fields: "final_cost_hashjoin g proot est path ws extra b c = Inr (c', b', p) \<Longrightarrow> join_fields path p"
  unfolding final_cost_hashjoin_def Let_def case_prod_beta planner_Inr by (auto simp: join_fields_def set_power_def set_costs_def)

lemma new_join_path_simps [simp]:
  "parent (new_join_path node tag rel par outer inner keys) = RelOptBase.truncate rel"
  "pathtarget (new_join_path node tag rel par outer inner keys) = reltarget rel"
  "param_info (new_join_path node tag rel par outer inner keys) = par"
  "parallel_workers (new_join_path node tag rel par outer inner keys) = parallel_workers outer"
  by (simp_all add: new_join_path_def)

lemma extend_fields [simp]:
  "parent (Path.extend p m) = parent p" "pathtarget (Path.extend p m) = pathtarget p" "param_info (Path.extend p m) = param_info p"
  "parallel_workers (Path.extend p m) = parallel_workers p" "pathtarget (Path.truncate q) = pathtarget q"
  "parallel_workers (Path.truncate q) = parallel_workers q" "rows (Path.truncate q) = rows q"
  "sane_costs (Path.truncate q) = sane_costs q"
  by (simp_all add: Path.extend_def Path.truncate_def sane_costs_def)

lemma extend_join_fields [simp]:
  "jointype (JoinPath.extend j m) = jointype j" "outerjoinpath (JoinPath.extend j m) = outerjoinpath j"
  "innerjoinpath (JoinPath.extend j m) = innerjoinpath j" "joinrestrictinfo (JoinPath.extend j m) = joinrestrictinfo j"
  "parent (JoinPath.extend j m) = parent j" "pathtarget (JoinPath.extend j m) = pathtarget j"
  "param_info (JoinPath.extend j m) = param_info j" "parallel_workers (JoinPath.extend j m) = parallel_workers j"
  by (simp_all add: JoinPath.extend_def)

lemma extend_merge_fields [simp]:
  "path_mergeclauses (JoinPath.extend j (MergePath.fields cs ok ik s m)) = cs"
  "path_hashclauses (JoinPath.extend j (HashPath.fields cs)) = cs"
  by (simp_all add: JoinPath.extend_def MergePath.fields_def HashPath.fields_def)

lemma join_rows_ok: "rows_ok (path_rows (parent path) (param_info path)) \<Longrightarrow> rows_ok (join_rows path)"
  by (simp add: join_rows_def Let_def rows_ok_clamp)

text \<open>A join path with sane costs over the given relation is in order.\<close>

lemma join_path_ok:
  assumes "join_fields path p" "sane_costs p" "rows_ok (path_rows (parent path) (param_info path))"
    "0 \<le> target_width (pathtarget path)" "0 \<le> parallel_workers path"
  shows "path_ok (Path.truncate p)"
  using assms join_rows_ok [OF assms(3)] by (simp add: path_ok_def input_ok_def join_fields_def)

lemma create_join_ok:
  assumes "env_ok mem E" "joinrel_ok mem rel" "path_ok outer" "path_ok inner" "rows_ok (path_rows (RelOptBase.truncate rel) par)"
    "clauses_ok mem cs"
  shows "join_ok (je_gucs E) (je_info E) mem (Path.extend (new_join_path node tag rel par outer inner keys) (JoinPath.fields jt u outer inner cs))"
  using env_okD(1,3) [OF assms(1)] assms(2-6) rows_okD [OF assms(5)] unfolding join_ok_def joinrel_ok_def path_ok_def target_ok_def
  by (simp add: example_join_fields)


lemma join_ok_extend: "join_ok g proot mem j \<Longrightarrow> join_ok g proot mem (JoinPath.extend j m)"
  by (simp add: join_ok_def target_ok_def)

lemma yields_result: "yields I m P \<Longrightarrow> (\<And>c c' x. m c = Inr (c', x) \<Longrightarrow> P x \<Longrightarrow> Q x) \<Longrightarrow> yields I m Q"
  unfolding yields_def by blast

text \<open>The final costing of a join over a relation that is in order gives a path that is in order.\<close>

definition path_node_ok :: "'a Path_scheme \<Rightarrow> bool" where
  "path_node_ok path \<longleftrightarrow> rows_ok (path_rows (parent path) (param_info path)) \<and> 0 \<le> target_width (pathtarget path) \<and> 0 \<le> parallel_workers path"

lemma final_path_ok: "path_node_ok path \<Longrightarrow> join_fields path p \<Longrightarrow> sane_costs p \<Longrightarrow> path_ok (Path.truncate p)"
  using join_path_ok [of path p] by (simp add: path_node_ok_def)

lemma final_nestloop_path:
  assumes "join_ok g proot mem path" "factors_ok (semifactors extra)" "path_node_ok path"
    "ws = initial_cost_nestloop g ws0 (jointype path) (outerjoinpath path) (innerjoinpath path) extra"
  shows "yields (cache_ok g (catalogs proot) mem) (final_cost_nestloop g proot rinfos path ws extra) (\<lambda>p. path_ok (Path.truncate p))"
  by (rule yields_result [OF final_nestloop_ok [OF assms(1,2,4)]], rule final_path_ok [OF assms(3) nestloop_fields])
    (simp_all add: bounded_by_def)

lemma final_mergejoin_path:
  assumes "join_ok g proot mem path" "estimators_ok est" "merge_ws_ok ws" "path_node_ok path"
    "restriction_list (joinrestrictinfo path)" "subseq (path_mergeclauses path) (joinrestrictinfo path)"
  shows "yields (cache_ok g (catalogs proot) mem) (final_cost_mergejoin g proot est path ws extra) (\<lambda>p. path_ok (Path.truncate p))"
  by (rule yields_result [OF final_mergejoin_ok [OF assms(1-3,5,6)]], rule final_path_ok [OF assms(4) mergejoin_fields]) simp_all

lemma final_hashjoin_path:
  assumes "join_ok g proot mem path" "factors_ok (semifactors extra)" "estimators_ok est" "path_node_ok path"
    "restriction_list (joinrestrictinfo path)" "subseq (path_hashclauses path) (joinrestrictinfo path)"
    "ws = initial_cost_hashjoin g ws0 (path_hashclauses path) (outerjoinpath path) (innerjoinpath path)"
  shows "yields (cache_ok g (catalogs proot) mem) (final_cost_hashjoin g proot est path ws extra buckets) (\<lambda>(b, p). path_ok (Path.truncate p))"
proof (rule yields_result [OF final_hashjoin_ok [OF assms(1,2,3,5,6,7)]])
  fix c c' and x :: "bucket_cache \<times> HashPath"
  assume "final_cost_hashjoin g proot est path ws extra buckets c = Inr (c', x)" "case x of (b, p) \<Rightarrow> bounded_by ws p"
  then show "case x of (b, p) \<Rightarrow> path_ok (Path.truncate p)"
    using final_path_ok [OF assms(4) hashjoin_fields] by (cases x) (simp add: bounded_by_def)
qed

lemma with_parampathinfo:
  assumes "env_ok mem E" "joinrel_ok mem rel" "clauses_ok mem cs" "restriction_list cs"
    and f: "\<And>rel' par cs'. joinrel_ok mem rel' \<Longrightarrow> rows_ok (path_rows (RelOptBase.truncate rel') par) \<Longrightarrow> clauses_ok mem cs' \<Longrightarrow>
      restriction_list cs' \<Longrightarrow> subseq cs cs' \<Longrightarrow> yields I (f rel' par cs') Q"
  shows "yields I (pbind (plift (get_joinrel_parampathinfo E rel outer inner sj req cs)) (\<lambda>(rel', par, cs'). f rel' par cs')) Q"
proof (rule yields_bind [OF yields_lift])
  fix r assume "get_joinrel_parampathinfo E rel outer inner sj req cs = Inr r"
  then show "case r of (rel', par, cs') \<Rightarrow> joinrel_ok mem rel' \<and> rows_ok (path_rows (RelOptBase.truncate rel') par) \<and>
      clauses_ok mem cs' \<and> restriction_list cs' \<and> subseq cs cs'"
    using parampathinfo_ok [OF assms(1-4)] by (cases r) blast
qed (use f in auto)

text \<open>The relation and the path that the constructors return are in order.\<close>

definition created_ok :: "(nat \<Rightarrow> Node) \<Rightarrow> RelOptInfo \<times> 'a Path_scheme \<Rightarrow> bool" where
  "created_ok mem r \<longleftrightarrow> joinrel_ok mem (fst r) \<and> path_ok (Path.truncate (snd r))"

lemma new_path_node_ok:
  assumes "joinrel_ok mem rel" "rows_ok (path_rows (RelOptBase.truncate rel) par)" "path_ok outer"
  shows "path_node_ok (Path.extend (new_join_path node tag rel par outer inner keys) m)"
    "path_node_ok (JoinPath.extend (Path.extend (new_join_path node tag rel par outer inner keys) (JoinPath.fields jt u outer inner cs)) m')"
  using assms by (simp_all add: path_node_ok_def joinrel_ok_def path_ok_def)

lemma create_nestloop_yields:
  assumes ok: "env_ok mem E" "joinrel_ok mem rel" "path_ok outer" "path_ok inner" "extra_ok mem extra"
    and cl: "clauses_ok mem cs" "restriction_list cs"
  shows "yields (store_ok mem E)
    (create_nestloop_path E rel jt (initial_cost_nestloop (je_gucs E) ws0 jt outer inner extra) extra outer inner cs keys req)
    (created_ok mem)"
proof -
  have sf: "factors_ok (semifactors extra)" using ok(5) by (simp add: extra_ok_def)
  show ?thesis unfolding create_nestloop_path_def Let_def
  proof (rule with_parampathinfo [OF ok(1,2)])
    fix rel' par cs'
    assume o: "joinrel_ok mem rel'" "rows_ok (path_rows (RelOptBase.truncate rel') par)" "clauses_ok mem cs'"
    let ?path = "Path.extend (new_join_path T_OtherPath T_NestLoop rel' par outer inner keys) (JoinPath.fields jt (inner_unique extra) outer inner cs')"
    have "yields (cache_ok (je_gucs E) (catalogs (je_info E)) mem) (final_cost_nestloop (je_gucs E) (je_info E) (je_rinfos E) ?path
        (initial_cost_nestloop (je_gucs E) ws0 jt outer inner extra) extra) (\<lambda>p. path_ok (Path.truncate p))"
      by (rule final_nestloop_path [OF create_join_ok [OF ok(1) o(1) ok(3,4) o(2,3)] sf new_path_node_ok(1) [OF o(1,2) ok(3)]])
        (simp add: example_join_fields)
    then have "yields (store_ok mem E) (final_cost_nestloop (je_gucs E) (je_info E) (je_rinfos E) ?path
        (initial_cost_nestloop (je_gucs E) ws0 jt outer inner extra) extra) (\<lambda>p. path_ok (Path.truncate p))"
      unfolding info_catalogs .
    then show "yields (store_ok mem E) (pbind (final_cost_nestloop (je_gucs E) (je_info E) (je_rinfos E) ?path
        (initial_cost_nestloop (je_gucs E) ws0 jt outer inner extra) extra) (\<lambda>path. preturn (rel', path))) (created_ok mem)"
      by (rule yields_bind, intro yields_return) (simp add: created_ok_def o(1))
  qed (use cl in \<open>simp_all add: filter_ok\<close>)
qed

lemma create_mergejoin_yields:
  assumes ok: "env_ok mem E" "joinrel_ok mem rel" "path_ok outer" "path_ok inner" "extra_ok mem extra"
    and cl: "clauses_ok mem cs" "restriction_list cs" "subseq ms cs" and ws: "merge_ws_ok ws"
  shows "yields (store_ok mem E)
    (create_mergejoin_path E rel jt ws extra outer inner cs keys req ms okeys ikeys) (created_ok mem)"
proof -
  have est: "estimators_ok (je_est E)" by (rule env_okD(4) [OF ok(1)])
  show ?thesis unfolding create_mergejoin_path_def Let_def
  proof (rule with_parampathinfo [OF ok(1,2) cl(1,2)])
    fix rel' par cs'
    assume o: "joinrel_ok mem rel'" "rows_ok (path_rows (RelOptBase.truncate rel') par)" "clauses_ok mem cs'"
      and s: "restriction_list cs'" "subseq cs cs'"
    let ?path = "JoinPath.extend (Path.extend (new_join_path T_OtherPath T_MergeJoin rel' par outer inner keys)
      (JoinPath.fields jt (inner_unique extra) outer inner cs')) (MergePath.fields ms okeys ikeys False False)"
    have "yields (cache_ok (je_gucs E) (catalogs (je_info E)) mem) (final_cost_mergejoin (je_gucs E) (je_info E) (je_est E) ?path ws extra)
        (\<lambda>p. path_ok (Path.truncate p))"
      by (rule final_mergejoin_path [OF join_ok_extend [OF create_join_ok [OF ok(1) o(1) ok(3,4) o(2,3)]] est ws
            new_path_node_ok(2) [OF o(1,2) ok(3)]])
        (simp_all add: example_join_fields s subseq_order.order_trans [OF cl(3) s(2)])
    then have "yields (store_ok mem E) (final_cost_mergejoin (je_gucs E) (je_info E) (je_est E) ?path ws extra) (\<lambda>p. path_ok (Path.truncate p))"
      unfolding info_catalogs .
    then show "yields (store_ok mem E) (pbind (final_cost_mergejoin (je_gucs E) (je_info E) (je_est E) ?path ws extra)
        (\<lambda>path. preturn (rel', path))) (created_ok mem)"
      by (rule yields_bind, intro yields_return) (simp add: created_ok_def o(1))
  qed
qed

lemma create_hashjoin_yields:
  assumes ok: "env_ok mem E" "joinrel_ok mem rel" "path_ok outer" "path_ok inner" "extra_ok mem extra"
    and cl: "clauses_ok mem cs" "restriction_list cs" "subseq hs cs"
  shows "yields (store_ok mem E)
    (create_hashjoin_path E rel jt (initial_cost_hashjoin (je_gucs E) ws0 hs outer inner) extra outer inner cs req hs buckets)
    (\<lambda>(rel', b, p). created_ok mem (rel', p))"
proof -
  have est: "estimators_ok (je_est E)" and sf: "factors_ok (semifactors extra)" using env_okD(4) [OF ok(1)] ok(5) by (simp_all add: extra_ok_def)
  show ?thesis unfolding create_hashjoin_path_def Let_def
  proof (rule with_parampathinfo [OF ok(1,2) cl(1,2)])
    fix rel' par cs'
    assume o: "joinrel_ok mem rel'" "rows_ok (path_rows (RelOptBase.truncate rel') par)" "clauses_ok mem cs'"
      and s: "restriction_list cs'" "subseq cs cs'"
    let ?path = "JoinPath.extend (Path.extend (new_join_path (T_HashPath 0) T_HashJoin rel' par outer inner [])
      (JoinPath.fields jt (inner_unique extra) outer inner cs')) (HashPath.fields hs)"
    have "yields (cache_ok (je_gucs E) (catalogs (je_info E)) mem) (final_cost_hashjoin (je_gucs E) (je_info E) (je_est E) ?path
        (initial_cost_hashjoin (je_gucs E) ws0 hs outer inner) extra buckets) (\<lambda>(b, p). path_ok (Path.truncate p))"
      by (rule final_hashjoin_path [OF join_ok_extend [OF create_join_ok [OF ok(1) o(1) ok(3,4) o(2,3)]] sf est
            new_path_node_ok(2) [OF o(1,2) ok(3)]])
        (simp_all add: example_join_fields s subseq_order.order_trans [OF cl(3) s(2)])
    then have "yields (store_ok mem E) (final_cost_hashjoin (je_gucs E) (je_info E) (je_est E) ?path
        (initial_cost_hashjoin (je_gucs E) ws0 hs outer inner) extra buckets) (\<lambda>(b, p). path_ok (Path.truncate p))"
      unfolding info_catalogs .
    then show "yields (store_ok mem E) (pbind (final_cost_hashjoin (je_gucs E) (je_info E) (je_est E) ?path
        (initial_cost_hashjoin (je_gucs E) ws0 hs outer inner) extra buckets) (\<lambda>(b, path). preturn (rel', b, path)))
      (\<lambda>(rel', b, p). created_ok mem (rel', p))"
      by (rule yields_bind) (auto simp: created_ok_def o(1) intro!: yields_return)
  qed
qed

subsection \<open>Proposals keep the relation in order\<close>

lemma extra_okD: "extra_ok mem extra \<Longrightarrow> clauses_ok mem (extra_restrictlist extra)"
  "extra_ok mem extra \<Longrightarrow> restriction_list (extra_restrictlist extra)"
  by (simp_all add: extra_ok_def)

lemma yields_pair: "yields I m (created_ok mem) \<Longrightarrow>
  (\<And>rel p. joinrel_ok mem rel \<Longrightarrow> path_ok (Path.truncate p) \<Longrightarrow> yields I (f rel p) Q) \<Longrightarrow> yields I (pbind m (\<lambda>(rel, p). f rel p)) Q"
  by (erule yields_bind) (auto simp: created_ok_def)

lemma yields_triple: "yields I m (\<lambda>(rel, b, p). created_ok mem (rel, p)) \<Longrightarrow>
  (\<And>rel b p. joinrel_ok mem rel \<Longrightarrow> path_ok (Path.truncate p) \<Longrightarrow> yields I (f rel b p) Q) \<Longrightarrow> yields I (pbind m (\<lambda>(rel, b, p). f rel b p)) Q"
  by (erule yields_bind) (auto simp: created_ok_def)

lemma try_nestloop_yields:
  assumes "env_ok mem E" "joinrel_ok mem rel" "path_ok outer" "path_ok inner" "extra_ok mem extra"
  shows "yields (store_ok mem E) (try_nestloop_path E ws0 rel outer inner keys jt extra) (joinrel_ok mem)"
  unfolding try_nestloop_path_def Let_def
  using assms create_nestloop_yields [OF assms extra_okD [OF assms(5)]]
  by (auto intro!: yields_return yields_pair add_path_ok)

lemma try_partial_nestloop_yields:
  assumes "env_ok mem E" "joinrel_ok mem rel" "path_ok outer" "path_ok inner" "extra_ok mem extra"
  shows "yields (store_ok mem E) (try_partial_nestloop_path E ws0 rel outer inner keys jt extra) (joinrel_ok mem)"
  unfolding try_partial_nestloop_path_def Let_def
  using assms create_nestloop_yields [OF assms extra_okD [OF assms(5)]]
  by (auto intro!: yields_return yields_pair add_path_ok)

lemma try_hashjoin_yields:
  assumes ok: "env_ok mem E" "joinrel_ok mem rel" "path_ok outer" "path_ok inner" "extra_ok mem extra"
    and hs: "subseq hs (extra_restrictlist extra)"
  shows "yields (store_ok mem E) (try_hashjoin_path E ws0 rel outer inner hs jt extra buckets) (\<lambda>st. joinrel_ok mem (snd st))"
  unfolding try_hashjoin_path_def Let_def
  using ok create_hashjoin_yields [OF ok extra_okD [OF ok(5)] hs]
  by (auto intro!: yields_return yields_triple add_path_ok)

lemma try_partial_hashjoin_yields:
  assumes ok: "env_ok mem E" "joinrel_ok mem rel" "path_ok outer" "path_ok inner" "extra_ok mem extra"
    and hs: "subseq hs (extra_restrictlist extra)"
  shows "yields (store_ok mem E) (try_partial_hashjoin_path E ws0 rel outer inner hs jt extra buckets) (\<lambda>st. joinrel_ok mem (snd st))"
  unfolding try_partial_hashjoin_path_def Let_def
  using ok create_hashjoin_yields [OF ok extra_okD [OF ok(5)] hs]
  by (auto intro!: yields_return yields_triple add_path_ok)

lemma clauses_in_memory: "clauses_ok mem ns \<Longrightarrow> restriction_list ns \<Longrightarrow> subseq ms ns \<Longrightarrow> r \<in> set ms \<Longrightarrow> mem (rinfo_address r) = r"
  using in_memory_parts(3) [of mem r] by (auto simp: clauses_ok_def restriction_list_def dest: list_emb_set)

lemma initial_mergejoin_yields:
  assumes "env_ok mem E" "path_ok outer" "path_ok inner" "extra_ok mem extra" "subseq ms (extra_restrictlist extra)"
    "scansel_ok (je_est E) mem sels"
  shows "yields I (plift (initial_cost_mergejoin (je_gucs E) (je_est E) (je_pks E) ws0 jt ms outer inner okeys ikeys sels))
    (\<lambda>(sels', ws). scansel_ok (je_est E) mem sels' \<and> merge_ws_ok ws)"
proof (rule yields_lift)
  fix r assume r: "initial_cost_mergejoin (je_gucs E) (je_est E) (je_pks E) ws0 jt ms outer inner okeys ikeys sels = Inr r"
  note e = env_okD [OF assms(1)]
  have m: "\<forall>r \<in> set ms. mem (rinfo_address r) = r" using clauses_in_memory [OF extra_okD [OF assms(4)] assms(5)] by blast
  have i: "input_ok outer" "input_ok inner" using assms(2,3) by (simp_all add: path_ok_def)
  obtain sels' ws where p: "r = (sels', ws)" by fastforce
  show "case r of (sels', ws) \<Rightarrow> scansel_ok (je_est E) mem sels' \<and> merge_ws_ok ws"
    using initial_mergejoin_ok [OF e(1,2) i e(4) assms(6) m r [unfolded p]] p by simp
qed

lemma try_partial_mergejoin_yields:
  assumes ok: "env_ok mem E" "joinrel_ok mem rel" "path_ok outer" "path_ok inner" "extra_ok mem extra"
    and ms: "subseq ms (extra_restrictlist extra)" "scansel_ok (je_est E) mem sels"
  shows "yields (store_ok mem E) (try_partial_mergejoin_path E ws0 rel outer inner keys ms okeys ikeys jt extra sels)
    (\<lambda>(sels', rel'). scansel_ok (je_est E) mem sels' \<and> joinrel_ok mem rel')"
  unfolding try_partial_mergejoin_path_def Let_def
  using ok ms create_mergejoin_yields [OF ok extra_okD [OF ok(5)] ms(1)]
  by (auto intro!: yields_return yields_bind [OF initial_mergejoin_yields [OF ok(1,3,4,5) ms]] yields_pair add_path_ok)

lemma try_mergejoin_yields:
  assumes ok: "env_ok mem E" "joinrel_ok mem rel" "path_ok outer" "path_ok inner" "extra_ok mem extra"
    and ms: "subseq ms (extra_restrictlist extra)" "scansel_ok (je_est E) mem sels"
  shows "yields (store_ok mem E) (try_mergejoin_path E ws0 rel outer inner keys ms okeys ikeys jt extra part sels)
    (\<lambda>(sels', rel'). scansel_ok (je_est E) mem sels' \<and> joinrel_ok mem rel')"
  unfolding try_mergejoin_path_def Let_def
  using ok ms create_mergejoin_yields [OF ok extra_okD [OF ok(5)] ms(1)] try_partial_mergejoin_yields [OF ok ms]
  by (auto intro!: yields_return yields_bind [OF initial_mergejoin_yields [OF ok(1,3,4,5) ms]] yields_pair add_path_ok)

subsection \<open>Enumeration keeps the relation in order\<close>

text \<open>A relation that joins can use as an input: every path that it offers is in order.\<close>

definition offers_ok :: "RelOptInfo \<Rightarrow> bool" where
  "offers_ok rel \<longleftrightarrow> (\<forall>p \<in> set (pathlist rel) \<union> set (partial_pathlist rel) \<union> set (cheapest_parameterized_paths rel) \<union>
     set_option (cheapest_startup_path rel) \<union> set_option (cheapest_total_path rel). path_ok p)"

definition held :: "cheapest_state \<Rightarrow> Path set" where
  "held s = set (cs_parameterized s) \<union> set_option (cs_startup s) \<union> set_option (cs_total s) \<union> set_option (cs_best_param s)"

lemma held_step: "held (set_cheapest_step g s p) \<subseteq> insert p (held s)"
proof -
  have "better_cheapest g c a p \<in> {a, p}" for c a by (simp add: better_cheapest_def Let_def)
  then show ?thesis
    by (auto simp: set_cheapest_step_def held_def Let_def split: option.splits BMS_Comparison.splits if_splits)
qed

lemma held_fold: "held (foldl (set_cheapest_step g) s ps) \<subseteq> held s \<union> set ps"
proof (induction ps arbitrary: s)
  case (Cons p ps)
  then show ?case using held_step [of g s p] by fastforce
qed simp

text \<open>\<^verbatim>\<open>set_cheapest\<close> turns a relation that is in order into one that joins can use.\<close>

lemma set_cheapest_offers:
  assumes "joinrel_ok mem rel" "set_cheapest g rel = Inr rel'"
  shows "offers_ok rel'"
proof -
  let ?s = "foldl (set_cheapest_step g) \<lparr> cs_startup = None, cs_total = None, cs_best_param = None, cs_parameterized = [] \<rparr> (pathlist rel)"
  have h: "held ?s \<subseteq> set (pathlist rel)" using held_fold [of g _ "pathlist rel"] by (fastforce simp: held_def)
  have e: "pathlist rel' = pathlist rel" "partial_pathlist rel' = partial_pathlist rel"
    and c: "set (cheapest_parameterized_paths rel') \<union> set_option (cheapest_startup_path rel') \<union> set_option (cheapest_total_path rel') \<subseteq> held ?s"
    using assms(2) by (auto simp: set_cheapest_def Let_def held_def split: if_splits option.splits)
  have "\<forall>p \<in> set (pathlist rel) \<union> set (partial_pathlist rel). path_ok p" using assms(1) by (simp add: joinrel_ok_def)
  then show ?thesis unfolding offers_ok_def e using subset_trans [OF c h] by auto
qed

lemma find_hashclauses_subseq: "find_hashclauses E jt outerrel innerrel rs marks = (marks', cs) \<Longrightarrow> subseq cs rs"
proof (induction rs arbitrary: marks marks' cs)
  case (Cons r rs)
  then show ?case by (auto simp: Let_def split: if_splits prod.splits intro: list_emb_Cons)
qed simp

lemma try_hashjoin_pairs_yields:
  assumes ok: "env_ok mem E" "extra_ok mem extra" and hs: "subseq hs (extra_restrictlist extra)"
  shows "\<forall>(p, q) \<in> set pairs. path_ok p \<and> path_ok q \<Longrightarrow> joinrel_ok mem (snd st) \<Longrightarrow>
    yields (store_ok mem E) (try_hashjoin_pairs E ws0 pairs hs jt extra st) (\<lambda>st. joinrel_ok mem (snd st))"
proof (induction pairs arbitrary: st)
  case Nil
  then show ?case by (simp add: yields_return)
next
  case (Cons pq pairs)
  obtain p q where pq: "pq = (p, q)" by fastforce
  show ?case unfolding pq try_hashjoin_pairs.simps
    by (rule yields_bind [OF try_hashjoin_yields [OF ok(1) _ _ _ ok(2) hs]]) (use Cons pq in auto)
qed

lemma unique_path_yields: "env_ok mem E \<Longrightarrow> path_ok p \<Longrightarrow> yields I (unique_path E p extra) path_ok"
  using env_okD(5) [of mem E p] by (auto simp: unique_path_def intro!: yields_return yields_raise split: option.split)

lemma hashjoin_plan_yields:
  assumes "env_ok mem E" "offers_ok outerrel" "offers_ok innerrel" "path_ok p" "path_ok q"
  shows "yields I (hashjoin_plan E outerrel innerrel jt extra p q)
    (\<lambda>(pairs, jt', inner). (\<forall>(a, b) \<in> set pairs. path_ok a \<and> path_ok b) \<and> path_ok inner)"
  using assms unfolding hashjoin_plan_def Let_def
  by (auto simp: offers_ok_def hashjoin_pairs_def intro!: yields_return yields_bind [OF unique_path_yields] split: option.splits)

lemma get_cheapest_parallel_safe_mem: "get_cheapest_parallel_safe_total_inner ps = Some p \<Longrightarrow> p \<in> set ps"
  by (induction ps) (auto split: if_splits)

lemma partial_hashjoin_yields:
  assumes ok: "env_ok mem E" "extra_ok mem extra" "offers_ok outerrel" "offers_ok innerrel" "path_ok inner" "joinrel_ok mem (snd st)"
    and hs: "subseq hs (extra_restrictlist extra)"
  shows "yields (store_ok mem E) (partial_hashjoin E ws0 outerrel innerrel save jt extra hs inner st) (\<lambda>st. joinrel_ok mem (snd st))"
proof (cases "partial_pathlist outerrel")
  case Nil
  then show ?thesis using ok(6) by (simp add: partial_hashjoin_def yields_return)
next
  case (Cons p ps)
  have p: "path_ok p" using ok(3) Cons by (simp add: offers_ok_def)
  have i: "path_ok q" if "(if parallel_safe inner then Some inner else if save \<noteq> JOIN_UNIQUE_INNER
      then get_cheapest_parallel_safe_total_inner (pathlist innerrel) else None) = Some q" for q
    using that ok(4,5) by (auto simp: offers_ok_def split: if_splits dest: get_cheapest_parallel_safe_mem)
  show ?thesis unfolding partial_hashjoin_def Cons list.case
    using ok(6) try_partial_hashjoin_yields [OF ok(1,6) p i ok(2) hs]
    by (auto intro!: yields_return split: option.split)
qed

lemma hash_inner_and_outer_yields:
  assumes ok: "env_ok mem E" "extra_ok mem extra" "offers_ok outerrel" "offers_ok innerrel" "joinrel_ok mem rel"
  shows "yields (store_ok mem E) (hash_inner_and_outer E ws0 rel outerrel innerrel jt extra marks buckets)
    (\<lambda>(marks', buckets', rel'). joinrel_ok mem rel')"
proof -
  obtain marks' hs where h: "find_hashclauses E jt outerrel innerrel (extra_restrictlist extra) marks = (marks', hs)" by fastforce
  note hs = find_hashclauses_subseq [OF h]
  show ?thesis
  proof (cases "hs = [] \<or> cheapest_total_path outerrel = None \<or> cheapest_total_path innerrel = None")
    case True
    then show ?thesis using ok(5) h
      by (auto simp: hash_inner_and_outer_def intro!: yields_return yields_raise split: option.split)
  next
    case False
    then obtain p q where pq: "cheapest_total_path outerrel = Some p" "cheapest_total_path innerrel = Some q" by auto
    have o: "path_ok p" "path_ok q" using ok(3,4) pq by (simp_all add: offers_ok_def)
    show ?thesis
    proof (cases "PATH_PARAM_BY_REL p innerrel \<or> PATH_PARAM_BY_REL q outerrel")
      case True
      then show ?thesis using False ok(5) h pq by (auto simp: hash_inner_and_outer_def intro!: yields_return)
    next
      case go: False
      have "yields (store_ok mem E) (pbind (hashjoin_plan E outerrel innerrel jt extra p q) (\<lambda>(pairs, jt', inner).
          pbind (try_hashjoin_pairs E ws0 pairs hs jt' extra (buckets, rel)) (\<lambda>st.
          pbind (partial_hashjoin E ws0 outerrel innerrel jt jt' extra hs inner st) (\<lambda>st'. preturn (marks', st')))))
        (\<lambda>(marks', buckets', rel'). joinrel_ok mem rel')"
        using ok hs
        by (auto intro!: yields_bind [OF hashjoin_plan_yields [OF ok(1,3,4) o]] yields_bind [OF try_hashjoin_pairs_yields]
            yields_bind [OF partial_hashjoin_yields] yields_return)
      then show ?thesis using False go h pq by (simp add: hash_inner_and_outer_def)
    qed
  qed
qed

lemma parallel_nestloop_inners_yields:
  assumes ok: "env_ok mem E" "extra_ok mem extra" "path_ok outer"
  shows "\<forall>p \<in> set inners. path_ok p \<Longrightarrow> joinrel_ok mem rel \<Longrightarrow>
    yields (store_ok mem E) (parallel_nestloop_inners E ws0 innerrel save jt extra outer keys inners rel) (joinrel_ok mem)"
proof (induction inners arbitrary: rel)
  case Nil
  then show ?case by (simp add: yields_return)
next
  case (Cons p ps)
  have attempt: "yields (store_ok mem E) (pbind (try_partial_nestloop_path E ws0 rel outer q keys jt extra)
      (parallel_nestloop_inners E ws0 innerrel save jt extra outer keys ps)) (joinrel_ok mem)" if "path_ok q" for q
    using Cons that by (intro yields_bind [OF try_partial_nestloop_yields [OF ok(1) _ ok(3) _ ok(2)]]) auto
  have u: "yields I (unique_path E p extra) path_ok" for I using Cons.prems unique_path_yields [OF ok(1)] by simp
  have "yields (store_ok mem E) (pbind (unique_path E p extra) (\<lambda>q. pbind (try_partial_nestloop_path E ws0 rel outer q keys jt extra)
      (parallel_nestloop_inners E ws0 innerrel save jt extra outer keys ps))) (joinrel_ok mem)"
    by (rule yields_bind [OF u]) (rule attempt)
  then show ?case using Cons attempt by (auto simp: Let_def)
qed

lemma consider_parallel_nestloop_yields:
  assumes ok: "env_ok mem E" "extra_ok mem extra" "offers_ok outerrel" "offers_ok innerrel" "joinrel_ok mem rel"
  shows "yields (store_ok mem E) (consider_parallel_nestloop E ws0 rel outerrel innerrel jt extra) (joinrel_ok mem)"
proof -
  have "\<forall>p \<in> set outers. path_ok p \<Longrightarrow> joinrel_ok mem rel \<Longrightarrow>
      yields (store_ok mem E) (parallel_nestloop_outers E ws0 innerrel save jt' extra outers rel) (joinrel_ok mem)" for outers rel save jt'
  proof (induction outers arbitrary: rel)
    case Nil
    then show ?case by (simp add: yields_return)
  next
    case (Cons p ps)
    then show ?case using ok(4)
      by (auto simp: offers_ok_def intro!: yields_bind [OF parallel_nestloop_inners_yields [OF ok(1,2)]])
  qed
  then show ?thesis using ok(3,5) unfolding consider_parallel_nestloop_def by (simp add: offers_ok_def)
qed

end
