(* ===== verification/Planner.thy ===== *)
theory Planner
  imports Join_Paths
begin

text \<open>
  Planning as a whole: relations are sized, their scans are costed, the paths compete for a place in the path lists,
  joins are proposed over relations whose cheapest paths are set, and nodes are put on top. A path is \<open>costed\<close> when it comes
  out of one of the costing routines, and a relation is \<open>planned\<close> when it comes out of a sequence of the planner's steps. All
  estimates of such paths and relations are in order.
\<close>

subsection \<open>Costed paths\<close>

text \<open>What a routine keeps of the path it costs: the rows are the ones given or clamped ones.\<close>

definition scan_fields :: "double \<Rightarrow> 'a Path_scheme \<Rightarrow> 'a Path_scheme \<Rightarrow> bool" where
  "scan_fields r p q \<longleftrightarrow> (rows q = r \<or> (\<exists>x. rows q = clamp_row_est x)) \<and> pathtarget q = pathtarget p \<and>
     parallel_workers q = parallel_workers p"

lemma costs_fields [simp]:
  "rows (set_power io cpu run wh p) = rows p" "pathtarget (set_power io cpu run wh p) = pathtarget p"
  "parallel_workers (set_power io cpu run wh p) = parallel_workers p"
  "rows (set_costs r s t q) = r" "pathtarget (set_costs r s t q) = pathtarget q"
  "parallel_workers (set_costs r s t q) = parallel_workers q"
  by (simp_all add: set_power_def set_costs_def)

lemma scan_fields_ok:
  "scan_fields r p q \<Longrightarrow> rows_ok r \<Longrightarrow> sane_costs q \<Longrightarrow> 0 \<le> target_width (pathtarget p) \<Longrightarrow> 0 \<le> parallel_workers p \<Longrightarrow> path_ok q"
  by (auto simp: scan_fields_def path_ok_def input_ok_def rows_ok_clamp)

lemma scan_fields_given: "rows q = r \<Longrightarrow> pathtarget q = pathtarget p \<Longrightarrow> parallel_workers q = parallel_workers p \<Longrightarrow> scan_fields r p q"
  by (simp add: scan_fields_def)

lemma scan_fields_clamped:
  "rows q = clamp_row_est x \<Longrightarrow> pathtarget q = pathtarget p \<Longrightarrow> parallel_workers q = parallel_workers p \<Longrightarrow> scan_fields r p q"
  by (auto simp: scan_fields_def)

lemma seqscan_fields: "cost_seqscan g proot p rel par c = Inr (c', q) \<Longrightarrow> scan_fields (path_rows rel par) p q"
  unfolding cost_seqscan_def finish_seqscan_def Let_def case_prod_beta planner_Inr by (cases "0 < parallel_workers p") (auto intro: scan_fields_clamped scan_fields_given)

lemma samplescan_fields: "cost_samplescan g proot p rel par c = Inr (c', q) \<Longrightarrow> scan_fields (path_rows rel par) p q"
  unfolding cost_samplescan_def Let_def case_prod_beta planner_Inr by (auto simp: scan_fields_def)

lemma computed_fields: "scan_computed_rows g proot p rel par s f c = Inr (c', q) \<Longrightarrow> scan_fields (path_rows rel par) p q"
  unfolding scan_computed_rows_def Let_def planner_Inr by (auto simp: scan_fields_def)

lemma subqueryscan_fields: "cost_subqueryscan g proot p sub rel par c = Inr (c', q) \<Longrightarrow> scan_fields (path_rows rel par) p q"
  unfolding cost_subqueryscan_def Let_def planner_Inr by (auto simp: scan_fields_def)

lemma functionscan_fields: "cost_functionscan g proot p rel par c = Inr (c', q) \<Longrightarrow> scan_fields (path_rows rel par) p q"
  unfolding cost_functionscan_def planner_Inr by (auto dest: computed_fields)

lemma tablefuncscan_fields: "cost_tablefuncscan g proot p rel par c = Inr (c', q) \<Longrightarrow> scan_fields (path_rows rel par) p q"
  unfolding cost_tablefuncscan_def planner_Inr by (auto dest: computed_fields)

lemma tuplestore_fields: "cost_namedtuplestorescan g proot p rel par c = Inr (c', q) \<Longrightarrow> scan_fields (path_rows rel par) p q"
  unfolding cost_namedtuplestorescan_def Let_def planner_Inr by (auto simp: scan_fields_def)

lemma bitmap_fields: "cost_bitmap_heap_scan g proot p rel par b l c = Inr (c', q) \<Longrightarrow> scan_fields (path_rows rel par) p q"
  unfolding cost_bitmap_heap_scan_def Let_def case_prod_beta planner_Inr by (cases "0 < parallel_workers p") (auto intro: scan_fields_clamped scan_fields_given)

lemma finish_index_fields:
  "scan_fields (rows r) r (finish_index g r s t n io w)"
  by (cases "0 < parallel_workers r")
    (auto simp: finish_index_def Let_def case_prod_beta intro: scan_fields_clamped scan_fields_given)

lemma index_fields:
  assumes "cost_index g proot ec am p loops part c = Inr (c', q)"
  shows "part \<and> parallel_workers q \<le> 0 \<or>
    (\<exists>r. scan_fields (rows r) r q \<and> rows r = path_rows (index_rel (indexinfo p)) (param_info p) \<and> pathtarget r = pathtarget p \<and>
      (if part then 0 < parallel_workers r else parallel_workers r = parallel_workers p))"
  using assms unfolding cost_index_def Let_def case_prod_beta
  by (cases part)
    (auto simp: planner_Inr split: if_splits intro!: exI finish_index_fields)

subsection \<open>Scans\<close>

text \<open>A path of the relation before it is costed, over the relation as it was last estimated.\<close>

definition new_path :: "RelOptInfo \<Rightarrow> ParamPathInfo option \<Rightarrow> 'a Path_scheme \<Rightarrow> bool" where
  "new_path rel par p \<longleftrightarrow> parent p = RelOptBase.truncate rel \<and> pathtarget p = reltarget rel \<and> param_info p = par \<and>
     set_option par \<subseteq> set (ppilist rel) \<and> 0 \<le> parallel_workers p"

text \<open>
  The scans of a base relation. The cheapest path of a subquery was planned with the subquery, the estimates of an index's access
  method come from its \<^verbatim>\<open>amcostestimate\<close>, and a partial index scan without workers is not built.
\<close>

inductive scan_of :: "join_env \<Rightarrow> (nat \<Rightarrow> Node) \<Rightarrow> RelOptInfo \<Rightarrow> Path \<Rightarrow> bool" for E mem rel where
  seqscan: "new_path rel par p \<Longrightarrow> store_ok mem E c \<Longrightarrow>
    cost_seqscan (je_gucs E) (je_info E) p (RelOptBase.truncate rel) par c = Inr (c', q) \<Longrightarrow> scan_of E mem rel q"
| samplescan: "new_path rel par p \<Longrightarrow> store_ok mem E c \<Longrightarrow>
    cost_samplescan (je_gucs E) (je_info E) p (RelOptBase.truncate rel) par c = Inr (c', q) \<Longrightarrow> scan_of E mem rel q"
| subqueryscan: "new_path rel par p \<Longrightarrow> store_ok mem E c \<Longrightarrow> path_ok sub \<Longrightarrow>
    cost_subqueryscan (je_gucs E) (je_info E) p sub (RelOptBase.truncate rel) par c = Inr (c', q) \<Longrightarrow> scan_of E mem rel q"
| functionscan: "new_path rel par p \<Longrightarrow> store_ok mem E c \<Longrightarrow>
    clauses_ok mem (rte_functions (planner_rt_fetch (je_info E) (relid rel))) \<Longrightarrow>
    cost_functionscan (je_gucs E) (je_info E) p (RelOptBase.truncate rel) par c = Inr (c', q) \<Longrightarrow> scan_of E mem rel q"
| tablefuncscan: "new_path rel par p \<Longrightarrow> store_ok mem E c \<Longrightarrow>
    clauses_ok mem (rte_tablefunc (planner_rt_fetch (je_info E) (relid rel))) \<Longrightarrow>
    cost_tablefuncscan (je_gucs E) (je_info E) p (RelOptBase.truncate rel) par c = Inr (c', q) \<Longrightarrow> scan_of E mem rel q"
| valuesscan: "new_path rel par p \<Longrightarrow> store_ok mem E c \<Longrightarrow>
    cost_valuesscan (je_gucs E) (je_info E) p (RelOptBase.truncate rel) par c = Inr (c', q) \<Longrightarrow> scan_of E mem rel q"
| ctescan: "new_path rel par p \<Longrightarrow> store_ok mem E c \<Longrightarrow>
    cost_ctescan (je_gucs E) (je_info E) p (RelOptBase.truncate rel) par c = Inr (c', q) \<Longrightarrow> scan_of E mem rel q"
| namedtuplestorescan: "new_path rel par p \<Longrightarrow> store_ok mem E c \<Longrightarrow>
    cost_namedtuplestorescan (je_gucs E) (je_info E) p (RelOptBase.truncate rel) par c = Inr (c', q) \<Longrightarrow> scan_of E mem rel q"
| bitmapscan: "new_path rel par p \<Longrightarrow> store_ok mem E c \<Longrightarrow> tree_ok (je_gucs E) b \<Longrightarrow>
    cost_bitmap_heap_scan (je_gucs E) (je_info E) p (RelOptBase.truncate rel) par b loops c = Inr (c', q) \<Longrightarrow> scan_of E mem rel q"
| indexscan: "new_path rel par ip \<Longrightarrow> store_ok mem E c \<Longrightarrow> index_rel (indexinfo ip) = RelOptBase.truncate rel \<Longrightarrow>
    clauses_ok mem (indrestrictinfo (indexinfo ip)) \<Longrightarrow> nonneg loops \<Longrightarrow> \<not> fl 1 < allvisfrac rel \<Longrightarrow> (\<And>q l. am_ok (am q l)) \<Longrightarrow>
    cost_index (je_gucs E) (je_info E) ec am ip loops part c = Inr (c', iq) \<Longrightarrow> part \<longrightarrow> 0 < parallel_workers iq \<Longrightarrow>
    scan_of E mem rel (Path.truncate iq)"

lemma truncate_rel [simp]:
  "rel_rows (RelOptBase.truncate rel) = rel_rows rel" "tuples (RelOptBase.truncate rel) = tuples rel"
  "baserestrictcost (RelOptBase.truncate rel) = baserestrictcost rel" "relid (RelOptBase.truncate rel) = relid rel"
  "allvisfrac (RelOptBase.truncate rel) = allvisfrac rel"
  by (simp_all add: RelOptBase.truncate_def)

lemma new_path_ok:
  assumes "env_ok mem E" "joinrel_ok mem rel" "new_path rel par p"
  shows "scan_ok (je_gucs E) (je_info E) mem (RelOptBase.truncate rel) par" "target_ok p"
    "rows_ok (path_rows (RelOptBase.truncate rel) par)" "0 \<le> target_width (pathtarget p)" "0 \<le> parallel_workers p"
  using assms(2,3) env_okD(1,3) [OF assms(1)]
  by (auto simp: scan_ok_def rel_ok_def param_ok_def new_path_def joinrel_ok_def target_ok_def path_rows_def rows_okD
      split: option.split)

lemma scan_path_ok:
  assumes "env_ok mem E" "joinrel_ok mem rel" "new_path rel par p" "store_ok mem E c" "m c = Inr (c', q)"
    and sane: "scan_ok (je_gucs E) (je_info E) mem (RelOptBase.truncate rel) par \<Longrightarrow> target_ok p \<Longrightarrow> yields (store_ok mem E) m sane_costs"
    and kept: "scan_fields (path_rows (RelOptBase.truncate rel) par) p q"
  shows "path_ok q"
proof -
  note ok = new_path_ok [OF assms(1-3)]
  have "sane_costs q" using sane [OF ok(1,2)] assms(4,5) unfolding yields_def by blast
  from scan_fields_ok [OF kept ok(3) this ok(4,5)] show ?thesis .
qed

lemma scan_of_ok:
  assumes "scan_of E mem rel q" "env_ok mem E" "joinrel_ok mem rel"
  shows "path_ok q"
  using assms(1)
proof cases
  case (seqscan par p c c')
  from scan_path_ok [OF assms(2,3) seqscan cost_seqscan_sane [of _ "je_info E", simplified] seqscan_fields [OF seqscan(3)]] show ?thesis .
next
  case (samplescan par p c c')
  from scan_path_ok [OF assms(2,3) samplescan cost_samplescan_sane [of _ "je_info E", simplified] samplescan_fields [OF samplescan(3)]] show ?thesis .
next
  case (subqueryscan par p c sub c')
  have "sane_costs sub" using subqueryscan(3) by (simp add: path_ok_def input_ok_def)
  from scan_path_ok [OF assms(2,3) subqueryscan(1,2,4) cost_subqueryscan_sane [of _ "je_info E", simplified, OF _ _ this]
      subqueryscan_fields [OF subqueryscan(4)]] show ?thesis .
next
  case (functionscan par p c c')
  then have e: "clauses_ok mem (rte_functions (planner_rt_fetch (je_info E) (relid (RelOptBase.truncate rel))))" by simp
  from scan_path_ok [OF assms(2,3) functionscan(1,2,4) cost_functionscan_sane [of _ "je_info E", simplified, OF _ _ e]
      functionscan_fields [OF functionscan(4)]] show ?thesis .
next
  case (tablefuncscan par p c c')
  then have e: "clauses_ok mem (rte_tablefunc (planner_rt_fetch (je_info E) (relid (RelOptBase.truncate rel))))" by simp
  from scan_path_ok [OF assms(2,3) tablefuncscan(1,2,4) cost_tablefuncscan_sane [of _ "je_info E", simplified, OF _ _ e]
      tablefuncscan_fields [OF tablefuncscan(4)]] show ?thesis .
next
  case (valuesscan par p c c')
  from scan_path_ok [OF assms(2,3) valuesscan cost_valuesscan_sane [of _ "je_info E", simplified]
      computed_fields [OF valuesscan(3) [unfolded cost_valuesscan_def]]] show ?thesis .
next
  case (ctescan par p c c')
  from scan_path_ok [OF assms(2,3) ctescan cost_ctescan_sane [of _ "je_info E", simplified]
      computed_fields [OF ctescan(3) [unfolded cost_ctescan_def]]] show ?thesis .
next
  case (namedtuplestorescan par p c c')
  from scan_path_ok [OF assms(2,3) namedtuplestorescan cost_namedtuplestorescan_sane [of _ "je_info E", simplified]
      tuplestore_fields [OF namedtuplestorescan(3)]] show ?thesis .
next
  case (bitmapscan par p c b loops c')
  from scan_path_ok [OF assms(2,3) bitmapscan(1,2,4) cost_bitmap_heap_scan_sane [of _ "je_info E", simplified, OF _ _ bitmapscan(3)]
      bitmap_fields [OF bitmapscan(4)]] show ?thesis .
next
  case (indexscan par ip c loops am ec part c' iq)
  note ok = new_path_ok [OF assms(2,3) indexscan(2)]
  have par: "param_info ip = par" using indexscan(2) by (simp add: new_path_def)
  have "yields (store_ok mem E) (cost_index (je_gucs E) (je_info E) ec am ip loops part)
      (\<lambda>q. part \<and> parallel_workers q \<le> 0 \<or> sane_costs q)"
    using indexscan ok par by (intro cost_index_sane [of _ "je_info E", simplified]) simp_all
  then have sane: "sane_costs iq" using indexscan(3,9,10) unfolding yields_def by fastforce
  from index_fields [OF indexscan(9)] indexscan(10) obtain r where "scan_fields (rows r) r iq"
    "rows r = path_rows (RelOptBase.truncate rel) par" "pathtarget r = pathtarget ip" "0 \<le> parallel_workers r"
    using indexscan(4) par ok(5) by (auto split: if_splits)
  then show ?thesis using ok sane unfolding indexscan(1)
    by (auto simp: path_ok_def input_ok_def scan_fields_def rows_ok_clamp)
qed

subsection \<open>Sequences of planner steps\<close>

text \<open>A relation as \<^verbatim>\<open>build_simple_rel\<close> and \<^verbatim>\<open>build_join_rel\<close> leave it: no paths yet, and clauses that can be costed.\<close>

definition fresh_rel :: "(nat \<Rightarrow> Node) \<Rightarrow> RelOptInfo \<Rightarrow> bool" where
  "fresh_rel mem rel \<longleftrightarrow> pathlist rel = [] \<and> partial_pathlist rel = [] \<and> ppilist rel = [] \<and> nonneg (tuples rel) \<and>
     clauses_ok mem (baserestrictinfo rel) \<and> target_exprs_ok mem rel \<and> clauses_ok mem (joininfo rel) \<and> restriction_list (joininfo rel)"

text \<open>
  \<open>planned E mem rel\<close>: the relation results from steps of the planner. It is created and sized, a parameterization is added, a costed
  path is offered, or a join is tried; the assertion of the code that widths are not negative is a condition. The inputs of a
  join have their cheapest paths set. \<open>costed E mem p\<close>: the path is a scan of a planned relation, or held by one, or a node over another path.
\<close>

inductive planned :: "join_env \<Rightarrow> (nat \<Rightarrow> Node) \<Rightarrow> RelOptInfo \<Rightarrow> bool"
  and costed :: "join_env \<Rightarrow> (nat \<Rightarrow> Node) \<Rightarrow> Path \<Rightarrow> bool" for E mem where
  base: "fresh_rel mem rel \<Longrightarrow> store_ok mem E c \<Longrightarrow>
    set_baserel_size_estimates (je_gucs E) (je_root E) (je_est E) rel c = Inr (c', rel') \<Longrightarrow> 0 \<le> target_width (reltarget rel') \<Longrightarrow>
    planned E mem rel'"
| join: "planned E mem outer \<Longrightarrow> planned E mem inner \<Longrightarrow> fresh_rel mem rel \<Longrightarrow> qual_nonneg (baserestrictcost rel) \<Longrightarrow>
    qual_nonneg (target_cost (reltarget rel)) \<Longrightarrow> 0 \<le> target_width (reltarget rel) \<Longrightarrow>
    set_joinrel_size_estimates (je_root E) (je_est E) (je_rinfos E) rel outer inner sj cs = Inr rel' \<Longrightarrow> planned E mem rel'"
| parameterized: "planned E mem rel \<Longrightarrow>
    get_baserel_parampathinfo (je_est E) (je_ecs E) (je_rinfos E) rel req = (rel', par) \<Longrightarrow> planned E mem rel'"
| offer: "planned E mem rel \<Longrightarrow> costed E mem p \<Longrightarrow> planned E mem (add_path (je_gucs E) rel p)"
| offer_partial: "planned E mem rel \<Longrightarrow> costed E mem p \<Longrightarrow> planned E mem (add_partial_path rel p)"
| nestloop: "planned E mem rel \<Longrightarrow> costed E mem op \<Longrightarrow> costed E mem ip \<Longrightarrow> extra_ok mem extra \<Longrightarrow> store_ok mem E c \<Longrightarrow>
    try_nestloop_path E ws rel op ip keys jt extra c = Inr (c', rel') \<Longrightarrow> planned E mem rel'"
| mergejoin: "planned E mem rel \<Longrightarrow> costed E mem op \<Longrightarrow> costed E mem ip \<Longrightarrow> extra_ok mem extra \<Longrightarrow> store_ok mem E c \<Longrightarrow>
    subseq ms (extra_restrictlist extra) \<Longrightarrow> scansel_ok (je_est E) mem sels \<Longrightarrow>
    try_mergejoin_path E ws rel op ip keys ms okeys ikeys jt extra part sels c = Inr (c', sels', rel') \<Longrightarrow> planned E mem rel'"
| hashjoin: "planned E mem rel \<Longrightarrow> planned E mem outer \<Longrightarrow> planned E mem inner \<Longrightarrow>
    set_cheapest (je_gucs E) outer = Inr outer' \<Longrightarrow> set_cheapest (je_gucs E) inner = Inr inner' \<Longrightarrow> extra_ok mem extra \<Longrightarrow> store_ok mem E c \<Longrightarrow>
    hash_inner_and_outer E ws rel outer' inner' jt extra marks buckets c = Inr (c', marks', buckets', rel') \<Longrightarrow> planned E mem rel'"
| parallel_nestloop: "planned E mem rel \<Longrightarrow> planned E mem outer \<Longrightarrow> planned E mem inner \<Longrightarrow>
    set_cheapest (je_gucs E) outer = Inr outer' \<Longrightarrow> set_cheapest (je_gucs E) inner = Inr inner' \<Longrightarrow> extra_ok mem extra \<Longrightarrow> store_ok mem E c \<Longrightarrow>
    consider_parallel_nestloop E ws rel outer' inner' jt extra c = Inr (c', rel') \<Longrightarrow> planned E mem rel'"
| scan: "planned E mem rel \<Longrightarrow> scan_of E mem rel p \<Longrightarrow> costed E mem p"
| held: "planned E mem rel \<Longrightarrow> p \<in> set (pathlist rel) \<union> set (partial_pathlist rel) \<Longrightarrow> costed E mem p"
| gather: "planned E mem rel \<Longrightarrow> costed E mem sub \<Longrightarrow> new_path rel par p \<Longrightarrow> (\<And>r. given = Some r \<Longrightarrow> rows_ok r) \<Longrightarrow>
    costed E mem (cost_gather (je_gucs E) p sub (RelOptBase.truncate rel) par given)"
| gather_merge: "planned E mem rel \<Longrightarrow> costed E mem sub \<Longrightarrow> new_path rel par p \<Longrightarrow> (\<And>r. given = Some r \<Longrightarrow> rows_ok r) \<Longrightarrow> 0 \<le> n \<Longrightarrow>
    costed E mem (cost_gather_merge (je_gucs E) p n (RelOptBase.truncate rel) par (startup_cost sub) (total_cost sub) given)"
| sort: "planned E mem rel \<Longrightarrow> costed E mem sub \<Longrightarrow> new_path rel par p \<Longrightarrow> limit_ok l \<Longrightarrow>
    costed E mem (cost_sort (je_gucs E) p (total_cost sub) (rows sub) (target_width (pathtarget sub)) 0 (work_mem (je_gucs E)) l)"
| material: "planned E mem rel \<Longrightarrow> costed E mem sub \<Longrightarrow> new_path rel par p \<Longrightarrow>
    costed E mem (cost_material (je_gucs E) p (startup_cost sub) (total_cost sub) (rows sub) (target_width (pathtarget sub)))"
| agg: "planned E mem rel \<Longrightarrow> costed E mem sub \<Longrightarrow> new_path rel par p \<Longrightarrow> agg_ok a \<Longrightarrow> 0 \<le> cols \<Longrightarrow> rows_ok k \<Longrightarrow>
    costed E mem (cost_agg (je_gucs E) p st a cols k (startup_cost sub) (total_cost sub) (rows sub))"
| group: "planned E mem rel \<Longrightarrow> costed E mem sub \<Longrightarrow> new_path rel par p \<Longrightarrow> 0 \<le> cols \<Longrightarrow> rows_ok k \<Longrightarrow>
    costed E mem (cost_group (je_gucs E) p cols k (startup_cost sub) (total_cost sub) (rows sub))"

lemma yields_value: "yields I m P \<Longrightarrow> I c \<Longrightarrow> m c = Inr (c', x) \<Longrightarrow> P x"
  unfolding yields_def by blast

lemma baserel_kept:
  assumes "set_baserel_size_estimates g proot est rel c = Inr (c', rel' :: RelOptInfo)"
  shows "pathlist rel' = pathlist rel" "partial_pathlist rel' = partial_pathlist rel" "ppilist rel' = ppilist rel" "joininfo rel' = joininfo rel"
  using assms unfolding set_baserel_size_estimates_def set_rel_width_def Let_def planner_Inr by auto

lemma sized_base_ok:
  assumes "env_ok mem E" "fresh_rel mem rel" "store_ok mem E c"
    and r: "set_baserel_size_estimates (je_gucs E) (je_root E) (je_est E) rel c = Inr (c', rel')" and w: "0 \<le> target_width (reltarget rel')"
  shows "joinrel_ok mem rel'"
  using yields_value [OF baserel_sized [OF env_okD(1,3) [OF assms(1)]] assms(3) r] assms(2) baserel_kept [OF r] w
  by (simp add: fresh_rel_def joinrel_ok_def sized_def rows_ok_clamp)

lemma sized_join_ok:
  assumes "fresh_rel mem rel" "qual_nonneg (baserestrictcost rel)" "qual_nonneg (target_cost (reltarget rel))" "0 \<le> target_width (reltarget rel)"
    and r: "set_joinrel_size_estimates proot est rinfos rel outer inner sj cs = Inr rel'"
  shows "joinrel_ok mem rel'"
  using assms calc_joinrel_rows_ok by (auto simp: set_joinrel_size_estimates_def ebind_Inr_iff fresh_rel_def joinrel_ok_def)

lemma parameterized_ok:
  assumes "env_ok mem E" "joinrel_ok mem rel" "get_baserel_parampathinfo (je_est E) (je_ecs E) (je_rinfos E) rel req = (rel', par)"
  shows "joinrel_ok mem rel'"
proof -
  have "clauses_ok mem (generate_join_implied_equalities (je_ecs E) a b c)" for a b c using assms(1) unfolding env_ok_def by blast
  moreover have "clauses_ok mem (filter P (joininfo rel))" for P
    using assms(2) by (auto simp: joinrel_ok_def intro: clauses_ok_subset)
  ultimately show ?thesis using assms(2,3)
    by (auto simp: get_baserel_parampathinfo_def Let_def joinrel_ok_def parameterized_baserel_size split: if_splits option.splits)
qed

text \<open>Nodes over a costed path.\<close>

lemma agg_fields: "scan_fields k p (cost_agg g p st a cols k is it n)"
proof -
  have "rows (cost_agg g p st a cols k is it n) \<in> {k, fl 1}"
    by (cases st) (simp_all add: cost_agg_def Let_def)
  moreover have "fl 1 = clamp_row_est (fl 1)" by (simp add: clamp_row_est_def float_eval)
  ultimately show ?thesis by (auto simp: scan_fields_def cost_agg_def Let_def case_prod_beta)
qed

lemma node_fields:
  "scan_fields n p (cost_sort g p c n w cmp m l)" "scan_fields n p (cost_material g p is it n w)"
  "scan_fields k p (cost_group g p cols k is it n)"
  "scan_fields (gather_rows rel par given) p (cost_gather g p sub rel par given)"
  "scan_fields (gather_rows rel par given) p (cost_gather_merge g p m rel par is it given)"
  by (simp_all add: scan_fields_def cost_sort_def cost_material_def cost_group_def cost_gather_def cost_gather_merge_def Let_def case_prod_beta)

lemma gather_rows_ok:
  assumes "env_ok mem E" "joinrel_ok mem rel" "new_path rel par p" "\<And>r. given = Some r \<Longrightarrow> rows_ok r"
  shows "rows_ok (gather_rows (RelOptBase.truncate rel) par given)"
  using new_path_ok(3) [OF assms(1-3)] assms(4) by (auto simp: gather_rows_def split: option.split)

lemma node_ok_over:
  assumes "env_ok mem E" "joinrel_ok mem rel" "new_path rel par p" "scan_fields n p q" "rows_ok n" "sane_costs q"
  shows "path_ok q"
  using scan_fields_ok [OF assms(4-6)] new_path_ok(4,5) [OF assms(1-3)] by simp

lemma planned_costed_ok:
  assumes env: "env_ok mem E"
  shows "planned E mem rel \<Longrightarrow> joinrel_ok mem rel" "costed E mem p \<Longrightarrow> path_ok p"
proof (induction rule: planned_costed.inducts)
  case (base rel c c' rel')
  then show ?case using sized_base_ok [OF env] by blast
next
  case (join outer inner rel sj cs rel')
  then show ?case using sized_join_ok by blast
next
  case (parameterized rel req rel' par)
  then show ?case using parameterized_ok [OF env] by blast
next
  case (offer rel p)
  then show ?case by (simp add: add_path_ok)
next
  case (offer_partial rel p)
  then show ?case by (simp add: add_path_ok)
next
  case (nestloop rel op ip extra c ws keys jt c' rel')
  from yields_value [OF try_nestloop_yields [OF env nestloop(2,4,6,7)] nestloop(8,9)] show ?case .
next
  case (mergejoin rel op ip extra c ms sels ws keys okeys ikeys jt part c' sels' rel')
  from yields_value [OF try_mergejoin_yields [OF env mergejoin(2,4,6,7,11,9)] mergejoin(8,10)] show ?case by simp
next
  case (hashjoin rel outer inner outer' inner' extra c ws jt marks buckets c' marks' buckets' rel')
  from yields_value [OF hash_inner_and_outer_yields [OF env hashjoin(9) set_cheapest_offers [OF hashjoin(4) hashjoin(7)]
    set_cheapest_offers [OF hashjoin(6) hashjoin(8)] hashjoin(2)] hashjoin(10,11)] show ?case by simp
next
  case (parallel_nestloop rel outer inner outer' inner' extra c ws jt c' rel')
  from yields_value [OF consider_parallel_nestloop_yields [OF env parallel_nestloop(9)
    set_cheapest_offers [OF parallel_nestloop(4) parallel_nestloop(7)]
    set_cheapest_offers [OF parallel_nestloop(6) parallel_nestloop(8)] parallel_nestloop(2)] parallel_nestloop(10,11)]
  show ?case .
next
  case (scan rel p)
  then show ?case using scan_of_ok [OF _ env] by blast
next
  case (held rel p)
  then show ?case by (auto simp: joinrel_ok_def)
next
  case (gather rel sub par p given)
  note ok = new_path_ok [OF env gather(2) gather(5)]
  show ?case using gather ok scan_okD [OF ok(1)]
    by (intro node_ok_over [OF env gather(2) gather(5) node_fields(4)] gather_rows_ok [OF env] cost_gather_sane)
      (auto simp: path_ok_def input_ok_def rows_okD)
next
  case (gather_merge rel sub par p given n)
  note ok = new_path_ok [OF env gather_merge(2) gather_merge(5)]
  show ?case using gather_merge ok scan_okD [OF ok(1)]
    by (intro node_ok_over [OF env gather_merge(2) gather_merge(5) node_fields(5)] gather_rows_ok [OF env] cost_gather_merge_sane)
      (auto simp: path_ok_def input_ok_def rows_okD saneD)
next
  case (sort rel sub par p l)
  then show ?case using env_okD(1,2) [OF env]
    by (intro node_ok_over [OF env sort(2) sort(5) node_fields(1)] cost_sort_sane)
      (auto simp: path_ok_def input_ok_def saneD nonneg_zero)
next
  case (material rel sub par p)
  then show ?case using env_okD(1) [OF env]
    by (intro node_ok_over [OF env material(2) material(5) node_fields(2)] cost_material_sane)
      (auto simp: path_ok_def input_ok_def saneD)
next
  case (agg rel sub par p a cols k st)
  then show ?case using env_okD(1) [OF env]
    by (intro node_ok_over [OF env agg(2) agg(5) agg_fields] cost_agg_sane)
      (auto simp: path_ok_def input_ok_def saneD rows_okD)
next
  case (group rel sub par p cols k)
  then show ?case using env_okD(1) [OF env]
    by (intro node_ok_over [OF env group(2) group(5) node_fields(3)] cost_group_sane)
      (auto simp: path_ok_def input_ok_def saneD rows_okD)
qed

subsection \<open>Examples\<close>

definition example_env :: join_env where
  "example_env = \<lparr> je_gucs = default_gucs, je_root = example_query, je_est = certain,
     je_ecs = \<lparr> generate_join_implied_equalities = (\<lambda>_ _ _. []), generate_join_implied_equalities_for_ecs = (\<lambda>_ _ _ _. []) \<rparr>,
     je_rinfos = example_rinfos, je_pks = (\<lambda>_. undefined), je_unique = (\<lambda>_ _. None), je_pathkeys = (\<lambda>_ _ _. []) \<rparr>"

lemma example_env_ok: "env_ok mem example_env"
  using default_gucs_ok certain_ok example_catalog_ok
  by (simp add: env_ok_def example_env_def restriction_list_def default_gucs_def)

text \<open>The table of a thousand rows, sized, with a sequential scan.\<close>

lemma var_ok: "clauses_ok mem [Var v a t m]"
  by (auto simp: clauses_ok_def in_memory_def node_ok_def subnode_leaf)

lemma example_fresh: "fresh_rel mem (example_relinfo True [])"
  using var_ok by (simp add: fresh_rel_def example_relinfo_def RelOptBase.extend_def example_rel_def nonneg_fl target_exprs_ok_def
      example_target_def restriction_list_def evaluated_def)

lemma example_sized:
  "\<exists>c rel. set_baserel_size_estimates default_gucs example_query certain (example_relinfo True []) unset_cache = Inr (c, rel) \<and>
     0 \<le> target_width (reltarget rel)"
  by (simp add: set_baserel_size_estimates_def set_rel_width_def example_relinfo_def RelOptBase.extend_def example_rel_def
      example_target_def example_widths_def example_root_def pbind_def plift_def preturn_def rel_width_expr_def rel_width_var_def
      width_at_def set_width_def get_attavgwidth_def get_typavgwidth_def get_typlen_def cost_qual_eval_def walk_children.simps
      add_wholerow_def Let_def)

lemma example_planned: "\<exists>rel q. planned example_env (\<lambda>_. example_clause) rel \<and> pathlist rel = [q]"
proof -
  let ?E = "example_env" and ?m = "\<lambda>_. example_clause"
  obtain c rel where r: "set_baserel_size_estimates default_gucs example_query certain (example_relinfo True []) unset_cache = Inr (c, rel)"
    "0 \<le> target_width (reltarget rel)" using example_sized by blast
  have s: "store_ok ?m ?E unset_cache" by (rule unset_cache_ok)
  have p: "planned ?E ?m rel"
    by (rule base [OF example_fresh s _ r(2)]) (simp add: example_env_def r(1))
  let ?p = "p100\<lparr> parent := RelOptBase.truncate rel, pathtarget := reltarget rel \<rparr>"
  obtain q where q: "cost_seqscan (je_gucs ?E) (je_info ?E) ?p (RelOptBase.truncate rel) None unset_cache = Inr (unset_cache, q)"
    by (simp add: cost_seqscan_def pbind_def get_restriction_qual_cost_def preturn_def)
  have "new_path rel None ?p" by (simp add: new_path_def example_path_def)
  then have "planned ?E ?m (add_path (je_gucs ?E) rel q)" using offer [OF p scan [OF p seqscan [OF _ s q]]] by blast
  moreover have "pathlist (add_path (je_gucs ?E) rel q) = [q]"
    using baserel_kept(1) [OF r(1)] by (simp add: add_path_def insert_path_def)
  ultimately show ?thesis by blast
qed

end
