(* ===== verification/Wattsup_C.thy ===== *)
theory Wattsup_C
  imports Prelude Float64 "HOL-Library.Word"
begin

text \<open>
  The part of the C library that the power meter driver under \<^verbatim>\<open>watts-up-linux\<close> relies on: strings that end
  at a NUL byte in a larger buffer, the character classes and number scanners of the C locale, and the
  conversions of \<^verbatim>\<open>printf\<close>. A string given by itself stands for the characters before its NUL byte. The
  sign of a zero and of a NaN is not kept, as in \<open>Float64\<close>.
\<close>

subsection \<open>Characters and strings\<close>

abbreviation NUL :: char where "NUL \<equiv> CHR 0x00"

definition isspace :: "char \<Rightarrow> bool" where
  "isspace c \<longleftrightarrow> c = CHR '' '' \<or> (9 \<le> (of_char c :: nat) \<and> (of_char c :: nat) \<le> 13)"

definition isdigit :: "char \<Rightarrow> bool" where
  "isdigit c \<longleftrightarrow> 48 \<le> (of_char c :: nat) \<and> (of_char c :: nat) \<le> 57"

definition tolower :: "char \<Rightarrow> char" where
  "tolower c = (if 65 \<le> (of_char c :: nat) \<and> (of_char c :: nat) \<le> 90 then char_of ((of_char c :: nat) + 32) else c)"

definition strcasecmp_eq :: "string \<Rightarrow> string \<Rightarrow> bool" where
  "strcasecmp_eq a b \<longleftrightarrow> map tolower a = map tolower b"

text \<open>The string at an offset of a buffer, and the searches in it.\<close>

definition cstr :: "string \<Rightarrow> nat \<Rightarrow> string" where
  "cstr b i = takeWhile (\<lambda>c. c \<noteq> NUL) (drop i b)"

definition strpbrk :: "string \<Rightarrow> nat \<Rightarrow> string \<Rightarrow> nat option" where
  "strpbrk b i accept =
     (let s = cstr b i; k = length (takeWhile (\<lambda>c. c \<notin> set accept) s) in if k < length s then Some (i + k) else None)"

definition strchr :: "string \<Rightarrow> nat \<Rightarrow> char \<Rightarrow> nat option" where
  "strchr b i c = strpbrk b i [c]"

subsection \<open>Integers\<close>

definition digit_char :: "nat \<Rightarrow> char" where
  "digit_char n = char_of (48 + n)"

fun digits :: "nat \<Rightarrow> string" where
  "digits n = (if n < 10 then [digit_char n] else digits (n div 10) @ [digit_char (n mod 10)])"

declare digits.simps [simp del]

definition fmt_d :: "int \<Rightarrow> string" where
  "fmt_d i = (if i < 0 then CHR ''-'' # digits (nat (- i)) else digits (nat i))"

definition pad_left :: "nat \<Rightarrow> char \<Rightarrow> string \<Rightarrow> string" where
  "pad_left n c s = replicate (n - length s) c @ s"

definition digit_value :: "char \<Rightarrow> nat" where
  "digit_value c =
     (if isdigit c then of_char c - 48
      else if 97 \<le> (of_char (tolower c) :: nat) \<and> (of_char (tolower c) :: nat) \<le> 122 then of_char (tolower c) - 87
      else 36)"

definition digits_value :: "nat \<Rightarrow> string \<Rightarrow> nat" where
  "digits_value base s = foldl (\<lambda>n c. n * base + digit_value c) 0 s"

text \<open>An optional sign after white space: whether it is a minus, and the rest.\<close>

definition scan_sign :: "string \<Rightarrow> bool \<times> string" where
  "scan_sign s =
     (case dropWhile isspace s of
        c # t \<Rightarrow> if c = CHR ''-'' then (True, t) else if c = CHR ''+'' then (False, t) else (False, c # t)
      | [] \<Rightarrow> (False, []))"

definition has_hex_prefix :: "string \<Rightarrow> bool" where
  "has_hex_prefix s \<longleftrightarrow>
     3 \<le> length s \<and> s ! 0 = CHR ''0'' \<and> tolower (s ! 1) = CHR ''x'' \<and> digit_value (s ! 2) < 16"

definition scan_integer :: "nat \<Rightarrow> string \<Rightarrow> (bool \<times> nat \<times> string) option" where
  "scan_integer base s =
     (let (neg, t) = scan_sign s;
          (b, u) = (if (base = 0 \<or> base = 16) \<and> has_hex_prefix t then (16, drop 2 t)
                    else if base = 0 then (if t \<noteq> [] \<and> hd t = CHR ''0'' then 8 else 10, t)
                    else (base, t));
          ds = takeWhile (\<lambda>c. digit_value c < b) u
      in if ds = [] then None else Some (neg, digits_value b ds, drop (length ds) u))"

abbreviation LONG_LIMIT :: int where "LONG_LIMIT \<equiv> 2 ^ 63"

definition strtol :: "string \<Rightarrow> nat \<Rightarrow> int \<times> string" where
  "strtol s base =
     (case scan_integer base s of
        None \<Rightarrow> (0, s)
      | Some (neg, n, rest) \<Rightarrow> (max (- LONG_LIMIT) (min (LONG_LIMIT - 1) (if neg then - int n else int n)), rest))"

definition strtoul :: "string \<Rightarrow> nat \<Rightarrow> int \<times> string" where
  "strtoul s base =
     (case scan_integer base s of
        None \<Rightarrow> (0, s)
      | Some (neg, n, rest) \<Rightarrow>
          (if int n \<ge> 2 * LONG_LIMIT then 2 * LONG_LIMIT - 1 else (if neg then - int n else int n) mod (2 * LONG_LIMIT), rest))"

definition atoi :: "string \<Rightarrow> 32 word" where
  "atoi s = word_of_int (fst (strtol s 10))"

subsection \<open>Floating point numbers\<close>

definition scan_exponent :: "char \<Rightarrow> string \<Rightarrow> int" where
  "scan_exponent mark s =
     (case s of
        c # t \<Rightarrow>
          if tolower c = mark \<and> \<not> (t \<noteq> [] \<and> isspace (hd t)) then
            let (neg, u) = scan_sign t; ds = takeWhile isdigit u
            in if neg then - int (digits_value 10 ds) else int (digits_value 10 ds)
          else 0
      | [] \<Rightarrow> 0)"

text \<open>Digits with an optional fraction, and an exponent of a base: the value, if there is a digit.\<close>

definition scan_mantissa :: "nat \<Rightarrow> nat \<Rightarrow> char \<Rightarrow> string \<Rightarrow> real option" where
  "scan_mantissa base expbase mark s =
     (let dig = (\<lambda>c. digit_value c < base);
          whole = takeWhile dig s;
          t = drop (length whole) s;
          part = (if t \<noteq> [] \<and> hd t = CHR ''.'' then takeWhile dig (tl t) else []);
          u = (if t \<noteq> [] \<and> hd t = CHR ''.'' then drop (length part) (tl t) else t)
      in if whole @ part = [] then None
         else Some (real (digits_value base (whole @ part)) / real base ^ length part *
                    real expbase powi scan_exponent mark u))"

definition strtod :: "string \<Rightarrow> double" where
  "strtod s =
     (let (neg, t) = scan_sign s; low = map tolower t
      in if take 3 low = ''inf'' then (if neg then NInf else PInf)
         else if take 3 low = ''nan'' then NaN
         else case (if take 2 low = ''0x'' then scan_mantissa 16 2 (CHR ''p'') (drop 2 t) else None) of
                Some x \<Rightarrow> fl (if neg then - x else x)
              | None \<Rightarrow> (case scan_mantissa 10 10 (CHR ''e'') t of
                          Some x \<Rightarrow> fl (if neg then - x else x) | None \<Rightarrow> 0))"

text \<open>\<^verbatim>\<open>%.*lf\<close>: the exact value rounded to a number of decimals, ties to even.\<close>

fun fmt_f :: "nat \<Rightarrow> double \<Rightarrow> string" where
  "fmt_f d NaN = ''nan''"
| "fmt_f d PInf = ''inf''"
| "fmt_f d NInf = ''-inf''"
| "fmt_f d (Fin x) =
     (let n = nat (rne (\<bar>val x\<bar> * 10 ^ d))
      in (if val x < 0 then ''-'' else []) @ digits (n div 10 ^ d) @
         (if d = 0 then [] else CHR ''.'' # pad_left d (CHR ''0'') (digits (n mod 10 ^ d))))"

text \<open>A string that is itself used as the format of \<^verbatim>\<open>printf\<close> without further arguments: any conversion but
  \<^verbatim>\<open>%%\<close> reads an argument that is not there.\<close>

fun format_literal :: "string \<Rightarrow> string option" where
  "format_literal [] = Some []"
| "format_literal (c # s) =
     (if c = CHR ''%'' then
        (case s of d # t \<Rightarrow> if d = CHR ''%'' then map_option (Cons c) (format_literal t) else None | [] \<Rightarrow> None)
      else map_option (Cons c) (format_literal s))"

end
