(* ===== verification/Wattsup_State.thy ===== *)
theory Wattsup_State
  imports Wattsup_C
begin

text \<open>
  The state of the power meter driver: its global variables with the tables of options and fields
  (\<^verbatim>\<open>util.c\<close>, \<^verbatim>\<open>globals.c\<close>, \<^verbatim>\<open>config.c\<close>), what it has printed, and the history of its system calls. The meter
  and the operating system are an argument, \<open>host\<close>, whose answers are functions of that history.
  An operation is a function of the state that ends with a value, or not at all: it leaves the program by
  \<^verbatim>\<open>exit\<close>, or its behaviour is undefined, as after an access outside an object.
\<close>

subsection \<open>Constants and tables\<close>

abbreviation (input) wu_strlen :: nat where "wu_strlen \<equiv> 256"
abbreviation (input) wu_num_fields :: nat where "wu_num_fields \<equiv> 18"
abbreviation (input) wu_param_len :: nat where "wu_param_len \<equiv> 16"
abbreviation (input) EFAULT :: int where "EFAULT \<equiv> 14"
abbreviation (input) EINVAL :: int where "EINVAL \<equiv> 22"
abbreviation (input) ENOTDIR :: int where "ENOTDIR \<equiv> 20"
abbreviation (input) ENOTTY :: int where "ENOTTY \<equiv> 25"
abbreviation (input) ETIME :: int where "ETIME \<equiv> 62"
abbreviation (input) EOVERFLOW :: int where "EOVERFLOW \<equiv> 75"
abbreviation NL :: char where "NL \<equiv> CHR 0x0A"

abbreviation (input) wu_option_help :: nat where "wu_option_help \<equiv> 0"
abbreviation (input) wu_option_version :: nat where "wu_option_version \<equiv> 1"
abbreviation (input) wu_option_debug :: nat where "wu_option_debug \<equiv> 2"
abbreviation (input) wu_option_count :: nat where "wu_option_count \<equiv> 3"
abbreviation (input) wu_option_final :: nat where "wu_option_final \<equiv> 4"
abbreviation (input) wu_option_delim :: nat where "wu_option_delim \<equiv> 5"
abbreviation (input) wu_option_newline :: nat where "wu_option_newline \<equiv> 6"
abbreviation (input) wu_option_localtime :: nat where "wu_option_localtime \<equiv> 7"
abbreviation (input) wu_option_gmtime :: nat where "wu_option_gmtime \<equiv> 8"
abbreviation (input) wu_option_label :: nat where "wu_option_label \<equiv> 9"
abbreviation (input) wu_option_suppress :: nat where "wu_option_suppress \<equiv> 10"
abbreviation (input) wu_option_cal :: nat where "wu_option_cal \<equiv> 11"
abbreviation (input) wu_option_header :: nat where "wu_option_header \<equiv> 12"
abbreviation (input) wu_option_interval :: nat where "wu_option_interval \<equiv> 13"
abbreviation (input) wu_option_mode :: nat where "wu_option_mode \<equiv> 14"
abbreviation (input) wu_option_user :: nat where "wu_option_user \<equiv> 15"
abbreviation (input) wu_option_info_all :: nat where "wu_option_info_all \<equiv> 16"
abbreviation (input) wu_option_no_data :: nat where "wu_option_no_data \<equiv> 17"
abbreviation (input) wu_option_set_only :: nat where "wu_option_set_only \<equiv> 18"

abbreviation (input) wu_field_amps :: nat where "wu_field_amps \<equiv> 2"
abbreviation (input) wu_field_max_amps :: nat where "wu_field_max_amps \<equiv> 9"
abbreviation (input) wu_field_min_amps :: nat where "wu_field_min_amps \<equiv> 12"
abbreviation (input) wu_field_power_factor :: nat where "wu_field_power_factor \<equiv> 13"
abbreviation (input) wu_field_duty_cycle :: nat where "wu_field_duty_cycle \<equiv> 14"

definition prog_name :: string where "prog_name = ''wattsup''"
definition wu_version :: string where "wu_version = ''0.03''"
definition sysfs_path_start :: string where "sysfs_path_start = ''/sys/class/tty''"

record wu_field =
  enable :: bool
  fld_name :: string
  fld_descr :: string

definition wu_fields_init :: "wu_field list" where
  "wu_fields_init = map (\<lambda>(n, d). \<lparr> enable = False, fld_name = n, fld_descr = d \<rparr>)
     [(''watts'', ''Watt Consumption''), (''volts'', ''Volts Consumption''), (''amps'', ''Amp Consumption''),
      (''kwh'', ''Average KWH''), (''cost'', ''Cost per watt''), (''mo-kwh'', ''Average monthly KWH''),
      (''mo-cost'', ''Monthly Cost''), (''max-watts'', ''Maxium Watts Consumed''),
      (''min-volts'', ''Maximum Volts Consumed''), (''max-amps'', ''Maximum Amps Consumed''),
      (''min-watts'', ''Minimum Watts Consumed''), (''max-volts'', ''Minimum Volts Consumed''),
      (''min-amps'', ''Minimum Amps Consumed''), (''power-factor'', ''Ratio of Watts vs. Volt Amps''),
      (''duty-cycle'', ''Percent of the Time On vs. Time Off''), (''power-cycle'', ''Indication of power cycle''),
      (''frequency'', ''AC frequency (HZ)''), (''VA'', ''VA'')]"

record wu_option =
  longopt :: string
  shortopt :: char
  param :: nat
  flag :: bool
  opt_value :: "string option"
  opt_descr :: string
  opt_option :: string

definition opt :: "string \<Rightarrow> char \<Rightarrow> nat \<Rightarrow> string \<Rightarrow> string \<Rightarrow> wu_option" where
  "opt l s p d v = \<lparr> longopt = l, shortopt = s, param = p, flag = False, opt_value = None, opt_descr = d, opt_option = v \<rparr>"

definition wu_options_init :: "wu_option list" where
  "wu_options_init =
     [opt ''help'' (CHR ''h'') 0 ''Display help text and exit'' [],
      opt ''version'' (CHR ''V'') 0 ''Display version information and exit'' [],
      opt ''debug'' (CHR ''d'') 0 ''Print out debugging messages'' [],
      opt ''count'' (CHR ''c'') 1 ''Specify number of data samples'' ''<n>'',
      opt ''final'' (CHR ''z'') 0 ''Print final interval information'' [],
      opt ''delim'' (CHR ''f'') 1 (''Set field delimiter (default '' @ [CHR 0x22] @ '', '' @ [CHR 0x22] @ '')'') ''<str>'',
      opt ''newline'' (CHR ''n'') 0 (''Use '' @ [CHR 0x27, CHR 0x5C] @ ''n'' @ [CHR 0x27] @ '' as delimter instead'') [],
      opt ''localtime'' (CHR ''t'') 0 ''Print localtime with each data reading'' [],
      opt ''gmtime'' (CHR ''g'') 0 ''Print GMT time with each data reading'' [],
      opt ''label'' (CHR ''l'') 0 ''Show labels of each field'' [],
      opt ''suppress'' (CHR ''s'') 0 ''Suppress printing of the field description'' [],
      opt ''calibrate'' (CHR ''b'') 0 ''Print calibration parameters'' [],
      opt ''header'' (CHR ''r'') 0 ''Print data field names (as read from device)'' [],
      opt ''interval'' (CHR ''i'') 2 ''Get/Set sampling interval'' ''<n>'',
      opt ''mode'' (CHR ''m'') 2 ''Get/Set display mode'' ''<n>'',
      opt ''user'' (CHR ''u'') 2 ''Get/Set user parameters'' ''<str>'',
      opt ''show-all'' (CHR ''a'') 0 ''Show all device parameters'' [],
      opt ''no-data'' (CHR ''N'') 0 (''Don'' @ [CHR 0x27] @ ''t read any data (just read device info)'') [],
      opt ''set-only'' (CHR ''S'') 0 (''Set parameters only (don'' @ [CHR 0x27] @ ''t read them back)'') []]"

abbreviation (input) wu_num_options :: nat where "wu_num_options \<equiv> 19"

subsection \<open>State\<close>

datatype event = Wrote int string | Polled int | Slept int | Closed int

text \<open>The answer to \<^verbatim>\<open>select\<close> and \<^verbatim>\<open>read\<close> on the meter: a failure of either with its error number, no data in
  time, or the bytes read.\<close>

datatype reply = Select_failed int | Timed_out | Read_failed int | Data string

record host =
  write_result :: "event list \<Rightarrow> int \<Rightarrow> string \<Rightarrow> int \<times> int"
  read_result :: "event list \<Rightarrow> int \<Rightarrow> reply"
  local_clock :: "event list \<Rightarrow> nat \<times> nat \<times> nat"
  gmt_clock :: "event list \<Rightarrow> nat \<times> nat \<times> nat"
  open_dot :: "int \<times> int"
  chdir_sysfs :: "int \<times> int"
  stat_sysfs :: "string \<Rightarrow> int \<times> int \<times> bool"
  stat_node :: "string \<Rightarrow> int \<times> int \<times> bool"
  access_node :: "string \<Rightarrow> int \<times> int"
  open_node :: "string \<Rightarrow> int \<times> int"
  tcgetattr_result :: "int \<Rightarrow> int \<times> int"
  tcsetattr_result :: "int \<Rightarrow> int \<times> int"

record wu_state =
  wu_count :: int
  wu_debug :: bool
  wu_delim :: string
  wu_final :: bool
  wu_interval :: int
  wu_label :: bool
  wu_newline :: bool
  wu_suppress :: bool
  wu_localtime :: bool
  wu_gmtime :: bool
  wu_device :: string
  wu_fd :: int
  wu_info_all :: bool
  wu_no_data :: bool
  wu_set_only :: bool
  wu_options :: "wu_option list"
  wu_fields :: "wu_field list"
  errno :: int
  out :: string
  errs :: "(string \<times> int option) list"
  events :: "event list"

definition wu_init :: wu_state where
  "wu_init = \<lparr> wu_count = 0, wu_debug = False, wu_delim = '', '', wu_final = False, wu_interval = 1, wu_label = False,
     wu_newline = False, wu_suppress = False, wu_localtime = False, wu_gmtime = False, wu_device = ''ttyUSB0'',
     wu_fd = 0, wu_info_all = False, wu_no_data = False, wu_set_only = False, wu_options = wu_options_init,
     wu_fields = wu_fields_init, errno = 0, out = [], errs = [], events = [] \<rparr>"

subsection \<open>Operations on the state\<close>

datatype wu_stop = Undefined | Exited int wu_state

type_synonym 'a wu = "wu_state \<Rightarrow> wu_stop + ('a \<times> wu_state)"

definition wreturn :: "'a \<Rightarrow> 'a wu" where
  "wreturn x w = Inr (x, w)"

definition wundefined :: "'a wu" where
  "wundefined w = Inl Undefined"

definition wbind :: "'a wu \<Rightarrow> ('a \<Rightarrow> 'b wu) \<Rightarrow> 'b wu" where
  "wbind m f w = (case m w of Inl e \<Rightarrow> Inl e | Inr (x, w') \<Rightarrow> f x w')"

abbreviation wseq :: "'a wu \<Rightarrow> 'b wu \<Rightarrow> 'b wu" where
  "wseq m n \<equiv> wbind m (\<lambda>_. n)"

definition wget :: "(wu_state \<Rightarrow> 'a) \<Rightarrow> 'a wu" where
  "wget f w = Inr (f w, w)"

definition wmodify :: "(wu_state \<Rightarrow> wu_state) \<Rightarrow> unit wu" where
  "wmodify f w = Inr ((), f w)"

definition wexit :: "int \<Rightarrow> 'a wu" where
  "wexit n w = Inl (Exited n w)"

definition wwhen :: "bool \<Rightarrow> unit wu \<Rightarrow> unit wu" where
  "wwhen b m = (if b then m else wreturn ())"

definition record_event :: "event \<Rightarrow> unit wu" where
  "record_event e = wmodify (\<lambda>w. w\<lparr> events := events w @ [e] \<rparr>)"

definition sleep :: "int \<Rightarrow> unit wu" where
  "sleep n = record_event (Slept n)"

subsection \<open>Messages\<close>

definition msg :: "string \<Rightarrow> unit wu" where
  "msg s = wmodify (\<lambda>w. w\<lparr> out := out w @ s \<rparr>)"

definition msg_end :: "unit wu" where
  "msg_end = msg [NL]"

definition msg_format :: "string \<Rightarrow> unit wu" where
  "msg_format s = (case format_literal s of None \<Rightarrow> wundefined | Some t \<Rightarrow> msg t)"

definition dbg :: "string \<Rightarrow> unit wu" where
  "dbg s = wbind (wget wu_debug) (\<lambda>d. wwhen d (wseq (msg (prog_name @ '': [debug] '')) (wseq (msg s) msg_end)))"

definition err :: "string \<Rightarrow> unit wu" where
  "err s = wmodify (\<lambda>w. w\<lparr> errs := errs w @ [(prog_name @ '': [error] '' @ s, None)] \<rparr>)"

definition perr :: "string \<Rightarrow> unit wu" where
  "perr s = wmodify (\<lambda>w. w\<lparr> errs := errs w @ [(take 1023 (prog_name @ '': [error] '' @ s), Some (errno w))] \<rparr>)"

definition perr_format :: "string \<Rightarrow> unit wu" where
  "perr_format s = (case format_literal s of None \<Rightarrow> wundefined | Some t \<Rightarrow> perr t)"

definition set_errno :: "int \<Rightarrow> unit wu" where
  "set_errno e = wmodify (\<lambda>w. w\<lparr> errno := e \<rparr>)"

definition ret_err :: "int \<Rightarrow> int wu" where
  "ret_err e = wseq (set_errno e) (wreturn (- 1))"

text \<open>The result of a system call, which sets \<^verbatim>\<open>errno\<close> when it fails.\<close>

definition syscall :: "int \<times> int \<Rightarrow> int wu" where
  "syscall r = wseq (wwhen (fst r < 0) (set_errno (snd r))) (wreturn (fst r))"

end
