(* ===== verification/Wattsup_Packet.thy ===== *)
theory Wattsup_Packet
  imports Wattsup_State
begin

text \<open>
  Packets of the power meter (\<^verbatim>\<open>struct wu_packet\<close>, \<^verbatim>\<open>wu_write\<close>, \<^verbatim>\<open>parse_packet\<close>, \<^verbatim>\<open>wu_read\<close> and the printing of packets in
  \<^verbatim>\<open>util.c\<close>). Parsing works in place, as in the code: it writes NUL bytes into the buffer of the packet and
  stores pointers into it. \<open>Packet_Facts\<close> relates this to the grammar of messages.
\<close>

subsection \<open>Data\<close>

text \<open>A pointer to characters: null, to a string outside the packet, or to an offset of the packet's buffer.\<close>

datatype cptr = Null | Str string | Buf nat

record wu_packet =
  cmd :: char
  sub_cmd :: char
  count :: "32 word"
  buf :: string
  len :: nat
  field :: "cptr list"
  label :: "cptr list"

definition deref :: "wu_packet \<Rightarrow> cptr \<Rightarrow> string option" where
  "deref p q = (case q of Null \<Rightarrow> None | Str s \<Rightarrow> Some s | Buf i \<Rightarrow> Some (cstr (buf p) i))"

text \<open>\<^verbatim>\<open>%s\<close> on a pointer.\<close>

definition fmt_s :: "wu_packet \<Rightarrow> cptr \<Rightarrow> string" where
  "fmt_s p q = (case deref p q of None \<Rightarrow> ''(null)'' | Some s \<Rightarrow> s)"

text \<open>A packet as its initializer leaves it; what is not named is zero.\<close>

definition pointers :: "string list \<Rightarrow> cptr list" where
  "pointers ss = map Str ss @ replicate (wu_num_fields - length ss) Null"

definition packet :: "char \<Rightarrow> char \<Rightarrow> string list \<Rightarrow> string list \<Rightarrow> wu_packet" where
  "packet c sc fs ls =
     \<lparr> cmd = c, sub_cmd = sc, count = of_nat (length fs), buf = replicate wu_strlen NUL, len = 0,
       field = pointers fs, label = pointers ls \<rparr>"

subsection \<open>Writing\<close>

text \<open>\<^verbatim>\<open>sprintf\<close> to an offset of the buffer.\<close>

definition put_string :: "nat \<Rightarrow> string \<Rightarrow> string \<Rightarrow> string" where
  "put_string i s b = take i b @ s @ [NUL] @ drop (i + length s + 1) b"

text \<open>The loop over the fields: undefined on a pointer that is null, into the buffer that is being written or
  outside the array, otherwise the packet and whether the fields fit.\<close>

function write_fields :: "nat \<Rightarrow> wu_packet \<Rightarrow> (bool \<times> wu_packet) option" where
  "write_fields i p =
     (if i < unat (count p) then
        if i < wu_num_fields then
          case field p ! i of
            Str f \<Rightarrow>
              if len p + length f + 4 \<ge> wu_strlen then Some (False, p)
              else write_fields (Suc i)
                     (p\<lparr> buf := put_string (len p) (CHR '','' # f) (buf p), len := len p + (1 + length f) \<rparr>)
          | _ \<Rightarrow> None
        else None
      else Some (True, p))"
  by pat_completeness auto
termination
  by (relation "measure (\<lambda>(i, p). wu_num_fields - i)") auto

declare write_fields.simps [simp del]

definition packet_head :: "wu_packet \<Rightarrow> string" where
  "packet_head p = [CHR ''#'', cmd p, CHR '','', sub_cmd p, CHR '',''] @ fmt_d (sint (count p))"

definition wu_write :: "host \<Rightarrow> int \<Rightarrow> wu_packet \<Rightarrow> (int \<times> wu_packet) wu" where
  "wu_write h fd p =
     (let p0 = p\<lparr> buf := put_string 0 (packet_head p) (replicate wu_strlen NUL), len := length (packet_head p) \<rparr>
      in case write_fields 0 p0 of
           None \<Rightarrow> wundefined
         | Some (False, p1) \<Rightarrow>
             wseq (err ''Overflowed command string'') (wbind (ret_err EOVERFLOW) (\<lambda>r. wreturn (r, p1)))
         | Some (True, p1) \<Rightarrow>
             if len p1 < wu_strlen then
               let p2 = p1\<lparr> buf := (buf p1)[len p1 := CHR '';''], len := len p1 + 1 \<rparr>; bytes = take (len p2) (buf p2)
               in wseq (dbg (''Writing '' @ [CHR 0x27] @ cstr (buf p2) 0 @ [CHR 0x27] @ '' (strlen = '' @
                         digits (length (cstr (buf p2) 0)) @ '') (len = '' @ digits (len p2) @ '') to device''))
                  (wbind (wget events) (\<lambda>ev.
                   wseq (record_event (Wrote fd bytes))
                  (wbind (syscall (write_result h ev fd bytes)) (\<lambda>ret.
                   wseq (wwhen (ret \<noteq> int (len p2)) (perr ''Writing to device''))
                  (wreturn (if ret \<ge> 0 then 0 else ret, p2))))))
             else wundefined)"

subsection \<open>Parsing\<close>

fun dump_fields :: "nat \<Rightarrow> nat \<Rightarrow> wu_packet \<Rightarrow> unit wu" where
  "dump_fields i 0 p = wreturn ()"
| "dump_fields i (Suc n) p =
     (if i < wu_num_fields then
        wseq (dbg (''['' @ pad_left 2 (CHR '' '') (digits i) @ ''] ['' @ pad_left 20 (CHR '' '') (fmt_s p (label p ! i)) @
               ''] = '' @ [CHR 0x22] @ fmt_s p (field p ! i) @ [CHR 0x22]))
          (dump_fields (Suc i) n p)
      else wundefined)"

definition dump_packet :: "wu_packet \<Rightarrow> unit wu" where
  "dump_packet p =
     wseq (dbg (''Packet - Command '' @ [CHR 0x27, cmd p, CHR 0x27] @ '' '' @ fmt_d (sint (count p)) @ '' parameters''))
       (dump_fields 0 (unat (count p)) p)"

datatype parse_result = Parsed wu_packet | Malformed string wu_packet | Out_of_bounds

definition set_field :: "nat \<Rightarrow> nat \<Rightarrow> wu_packet \<Rightarrow> wu_packet" where
  "set_field i s p = p\<lparr> field := (field p)[i := Buf (s + length (takeWhile isspace (drop s (buf p))))] \<rparr>"

function parse_fields :: "nat \<Rightarrow> nat \<Rightarrow> wu_packet \<Rightarrow> parse_result" where
  "parse_fields i s p =
     (if i < unat (count p) then
        case strpbrk (buf p) s '',;'' of
          None \<Rightarrow>
            if i < unat (count p) - 1 then Malformed (cstr (buf p) s) p
            else if i < wu_num_fields then Parsed (set_field i s p) else Out_of_bounds
        | Some k \<Rightarrow>
            if i < wu_num_fields then parse_fields (Suc i) (k + 1) (set_field i s (p\<lparr> buf := (buf p)[k := NUL] \<rparr>))
            else Out_of_bounds
      else Parsed p)"
  by pat_completeness auto
termination
  by (relation "measure (\<lambda>(i, s, p). wu_num_fields - i)") auto

declare parse_fields.simps [simp del]

definition invalid_packet :: "string \<Rightarrow> wu_packet \<Rightarrow> (int \<times> wu_packet) wu" where
  "invalid_packet s p = wseq (dbg s) (wbind (ret_err EFAULT) (\<lambda>r. wreturn (r, p)))"

definition parse_packet :: "wu_packet \<Rightarrow> (int \<times> wu_packet) wu" where
  "parse_packet p0 =
     (if len p0 < wu_strlen then
        let p = p0\<lparr> buf := (buf p0)[len p0 := NUL] \<rparr>
        in wseq (dbg (''Parsing Packet, Raw buffer is ('' @ digits (len p) @ '' bytes) ['' @ cstr (buf p) 0 @ '']''))
        (case strchr (buf p) 0 (CHR ''#'') of
           None \<Rightarrow> invalid_packet ''Invalid packet'' p
         | Some h \<Rightarrow>
             let s = h + 1
             in case strchr (buf p) s (CHR '','') of
               None \<Rightarrow> invalid_packet (''Invalid Command field ['' @ cstr (buf p) s @ '']'') p
             | Some i \<Rightarrow>
                 let p1 = p\<lparr> cmd := buf p ! s \<rparr>; s1 = i + 1
                 in case strchr (buf p1) s1 (CHR '','') of
                   None \<Rightarrow> invalid_packet ''Invalid 2nd field'' p1
                 | Some j \<Rightarrow>
                     let p2 = p1\<lparr> sub_cmd := buf p1 ! s1 \<rparr>; s2 = j + 1
                     in case strchr (buf p2) s2 (CHR '','') of
                       None \<Rightarrow> invalid_packet (''Couldn'' @ [CHR 0x27] @ ''t determine number of parameters'') p2
                     | Some k \<Rightarrow>
                         let b = (buf p2)[k := NUL];
                             p3 = p2\<lparr> buf := b, count := atoi (cstr b s2) \<rparr>
                         in wseq (dbg (''Have '' @ fmt_d (sint (count p3)) @ '' parameter'' @
                              (if count p3 > 1 then ''s'' else []) @ '' (cmd = '' @ [CHR 0x27, cmd p3, CHR 0x27] @ '')''))
                            (case parse_fields 0 (k + 1) p3 of
                               Parsed p4 \<Rightarrow> wseq (dump_packet p4) (wreturn (0, p4))
                             | Malformed m p4 \<Rightarrow> invalid_packet (''Malformed parameter string ['' @ m @ '']'') p4
                             | Out_of_bounds \<Rightarrow> wundefined))
      else wundefined)"

definition wu_read :: "host \<Rightarrow> int \<Rightarrow> wu_packet \<Rightarrow> (int \<times> wu_packet) wu" where
  "wu_read h fd p =
     wbind (wget events) (\<lambda>ev.
     wseq (record_event (Polled fd))
     (case read_result h ev fd of
        Select_failed e \<Rightarrow> wseq (set_errno e) (wseq (perr ''select on terminal device'') (wreturn (- 1, p)))
      | Read_failed e \<Rightarrow> wseq (set_errno e) (wseq (perr ''Reading from device'') (wreturn (- 1, p)))
      | Timed_out \<Rightarrow> wseq (dbg ''Device timed out while reading'') (wbind (ret_err ETIME) (\<lambda>r. wreturn (r, p)))
      | Data d \<Rightarrow>
          let bytes = take wu_strlen d
          in parse_packet (p\<lparr> buf := bytes @ drop (length bytes) (buf p), len := length bytes \<rparr>)))"

end
