(* ===== verification/Packet_Facts.thy ===== *)
theory Packet_Facts
  imports Wattsup_Packet
begin

text \<open>
  Facts about packets of the power meter: strings in a buffer that is cut in place, the grammar of messages
  and that parsing implements it, well-formedness of packets, decimal numbers, and the way of a message
  through \<^verbatim>\<open>wu_write\<close> and \<^verbatim>\<open>wu_read\<close>.
\<close>

subsection \<open>Strings in buffers\<close>

lemma cstr_Nil [simp]: "cstr [] i = []"
  by (simp add: cstr_def)

lemma cstr_next:
  assumes "k < length (cstr b i)"
  shows "cstr b (i + Suc k) = drop (Suc k) (cstr b i)" "b ! (i + k) = cstr b i ! k" "i + k < length b" "b ! (i + k) \<noteq> NUL"
proof -
  have t: "takeWhile (\<lambda>c. c \<noteq> NUL) (drop m d) = drop m (takeWhile (\<lambda>c. c \<noteq> NUL) d)"
    if "m \<le> length (takeWhile (\<lambda>c. c \<noteq> NUL) d)" for m and d :: string
    using that
  proof (induction d arbitrary: m)
    case (Cons a d)
    then show ?case by (cases m) (auto split: if_splits)
  qed simp
  show "cstr b (i + Suc k) = drop (Suc k) (cstr b i)"
    using t [of "Suc k" "drop i b"] assms by (simp add: cstr_def add.commute)
  have l: "k < length (drop i b)" using assms unfolding cstr_def by (meson length_takeWhile_le less_le_trans)
  then show "i + k < length b" by simp
  then show e: "b ! (i + k) = cstr b i ! k" using assms l by (simp add: cstr_def takeWhile_nth)
  have "cstr b i ! k \<in> set (cstr b i)" using assms by simp
  then show "b ! (i + k) \<noteq> NUL" unfolding e by (auto simp: cstr_def dest: set_takeWhileD)
qed

lemma cstr_cut:
  assumes "k < length (cstr b i)"
  shows "cstr (b[i + k := NUL]) i = take k (cstr b i)"
proof -
  have "takeWhile (\<lambda>c. c \<noteq> NUL) (d[k := NUL]) = take k (takeWhile (\<lambda>c. c \<noteq> NUL) d)"
    if "k < length (takeWhile (\<lambda>c. c \<noteq> NUL) d)" for d :: string
    using that by (induction d arbitrary: k) (auto split: if_splits nat.split)
  from this [of "drop i b"] show ?thesis using assms by (simp add: cstr_def drop_update_swap)
qed

lemma cstr_update_after [simp]: "k < i \<Longrightarrow> cstr (b[k := c]) i = cstr b i"
  by (simp add: cstr_def)

lemma cstr_update_beyond:
  assumes "i \<le> j" "j < m" "b ! j = NUL"
  shows "cstr (b[m := c]) i = cstr b i"
proof -
  have "takeWhile (\<lambda>c. c \<noteq> NUL) (d[m := c]) = takeWhile (\<lambda>c. c \<noteq> NUL) d"
    if "j < m" "d ! j = NUL" "j < length d" for d :: string and j m
    using that by (induction d arbitrary: j m) (auto simp: nth_Cons split: if_splits nat.splits)
  from this [of "j - i" "m - i" "drop i b"] show ?thesis using assms
    by (cases "m < length b") (simp_all add: cstr_def drop_update_swap list_update_beyond)
qed

lemma cstr_skip:
  "cstr b (i + length (takeWhile isspace (drop i b))) = dropWhile isspace (cstr b i)"
proof -
  have "takeWhile (\<lambda>c. c \<noteq> NUL) (drop (length (takeWhile isspace d)) d) =
      dropWhile isspace (takeWhile (\<lambda>c. c \<noteq> NUL) d)" for d :: string
    by (induction d) (auto simp: isspace_def)
  from this [of "drop i b"] show ?thesis by (simp add: cstr_def add.commute)
qed

lemma takeWhile_shorter: "length (takeWhile P s) < length s \<longleftrightarrow> takeWhile P s \<noteq> s"
  by (induction s) auto

lemma strpbrk_cases:
  "strpbrk b i S = (let s = cstr b i; f = takeWhile (\<lambda>c. c \<notin> set S) s in if f = s then None else Some (i + length f))"
  by (simp add: strpbrk_def Let_def takeWhile_shorter)

subsection \<open>The grammar of messages\<close>

text \<open>A message as the manual of the meter has it: \<open>#\<close>, the command, the subcommand and the number of
  parameters, separated by commas, and the parameters, separated by commas and ended by a semicolon or the
  end of the data.\<close>

definition after :: "char \<Rightarrow> string \<Rightarrow> string option" where
  "after c s = (case dropWhile (\<lambda>d. d \<noteq> c) s of [] \<Rightarrow> None | _ # t \<Rightarrow> Some t)"

definition message_head :: "string \<Rightarrow> (char \<times> char \<times> 32 word \<times> string) option" where
  "message_head d =
     (case after (CHR ''#'') (takeWhile (\<lambda>c. c \<noteq> NUL) d) of None \<Rightarrow> None | Some t1 \<Rightarrow>
      case after (CHR '','') t1 of None \<Rightarrow> None | Some t2 \<Rightarrow>
      case after (CHR '','') t2 of None \<Rightarrow> None | Some t3 \<Rightarrow>
      case after (CHR '','') t3 of None \<Rightarrow> None | Some t4 \<Rightarrow>
        Some (hd t1, hd t2, atoi (takeWhile (\<lambda>c. c \<noteq> CHR '','') t3), t4))"

fun split_fields :: "nat \<Rightarrow> string \<Rightarrow> string list option" where
  "split_fields 0 s = Some []"
| "split_fields (Suc n) s =
     (let f = takeWhile (\<lambda>c. c \<noteq> CHR '','' \<and> c \<noteq> CHR '';'') s
      in if f = s then (if n = 0 then Some [dropWhile isspace f] else None)
         else map_option (Cons (dropWhile isspace f)) (split_fields n (drop (Suc (length f)) s)))"

lemma after_eq: "after c s = (let f = takeWhile (\<lambda>d. d \<noteq> c) s in if f = s then None else Some (drop (Suc (length f)) s))"
proof (induction s)
  case (Cons a s)
  have "takeWhile (\<lambda>d. d \<noteq> c) (a # s) = a # s \<longleftrightarrow> a \<noteq> c \<and> takeWhile (\<lambda>d. d \<noteq> c) s = s" by (simp only: takeWhile.simps) auto
  then show ?case using Cons by (cases "a = c") (auto simp: after_def Let_def)
qed (simp add: after_def)

lemma strchr_eq: "strchr b i c = (let s = cstr b i; f = takeWhile (\<lambda>d. d \<noteq> c) s in if f = s then None else Some (i + length f))"
  by (simp add: strchr_def strpbrk_cases Let_def)

lemma strchr_None: "strchr b i c = None \<longleftrightarrow> after c (cstr b i) = None"
  by (auto simp: strchr_eq after_eq Let_def)

lemma strchr_Some:
  assumes "strchr b i c = Some k"
  shows "after c (cstr b i) = Some (cstr b (Suc k))" "i \<le> k" "k < length b" "b ! i = hd (cstr b i)"
    "cstr (b[k := NUL]) i = takeWhile (\<lambda>d. d \<noteq> c) (cstr b i)"
proof -
  let ?s = "cstr b i" and ?f = "takeWhile (\<lambda>d. d \<noteq> c) (cstr b i)"
  have k: "k = i + length ?f" and f: "?f \<noteq> ?s" using assms by (auto simp: strchr_eq Let_def split: if_splits)
  have lt: "length ?f < length ?s" using f by (simp add: takeWhile_shorter)
  note n = cstr_next [OF lt]
  show "after c ?s = Some (cstr b (Suc k))" using n(1) f by (simp add: after_eq Let_def k)
  show "i \<le> k" "k < length b" using n(3) by (simp_all add: k)
  have "0 < length ?s" using lt by (rule le_less_trans [OF le0])
  then show "b ! i = hd ?s" using cstr_next(2) [of 0 b i] by (simp add: hd_conv_nth)
  show "cstr (b[k := NUL]) i = ?f" unfolding k cstr_cut [OF lt] by (rule takeWhile_eq_take [symmetric])
qed

subsection \<open>Parsing the parameters\<close>

lemma set_field_simps [simp]:
  "buf (set_field i s p) = buf p" "count (set_field i s p) = count p" "cmd (set_field i s p) = cmd p"
  "sub_cmd (set_field i s p) = sub_cmd p" "len (set_field i s p) = len p" "label (set_field i s p) = label p"
  "length (field (set_field i s p)) = length (field p)" "j \<noteq> i \<Longrightarrow> field (set_field i s p) ! j = field p ! j"
  by (simp_all add: set_field_def)

lemma set_field_deref:
  "i < length (field p) \<Longrightarrow> buf q = buf p \<Longrightarrow> deref q (field (set_field i s p) ! i) = Some (dropWhile isspace (cstr (buf p) s))"
  by (simp add: set_field_def deref_def cstr_skip)

text \<open>What the loop over the parameters leaves alone, from a position of the buffer on.\<close>

definition keeps :: "nat \<Rightarrow> nat \<Rightarrow> wu_packet \<Rightarrow> wu_packet \<Rightarrow> bool" where
  "keeps i s p q \<longleftrightarrow>
     cmd q = cmd p \<and> sub_cmd q = sub_cmd p \<and> count q = count p \<and> len q = len p \<and> label q = label p \<and>
     length (buf q) = length (buf p) \<and> length (field q) = length (field p) \<and> (\<forall>j < i. field q ! j = field p ! j) \<and>
     (\<forall>m j. m \<le> j \<longrightarrow> j < s \<longrightarrow> buf p ! j = NUL \<longrightarrow> cstr (buf q) m = cstr (buf p) m)"

lemma keeps_step:
  assumes "keeps (Suc i) (Suc k) (set_field i s (p\<lparr> buf := (buf p)[k := NUL] \<rparr>)) q" "s \<le> k"
  shows "keeps i s p q"
proof -
  have "cstr (buf q) m = cstr (buf p) m" if "m \<le> j" "j < s" "buf p ! j = NUL" for m j
  proof -
    have "cstr (buf q) m = cstr ((buf p)[k := NUL]) m" using assms that unfolding keeps_def by simp
    then show ?thesis using that assms(2) cstr_update_beyond [of m j k "buf p"] by simp
  qed
  then show ?thesis using assms(1) unfolding keeps_def by auto
qed

lemma space_before_end:
  assumes "b ! k = NUL" "s \<le> k" "k < length b"
  shows "s + length (takeWhile isspace (drop s b)) \<le> k"
proof (rule ccontr)
  assume "\<not> ?thesis"
  then have l: "k - s < length (takeWhile isspace (drop s b))" using assms by linarith
  then have "takeWhile isspace (drop s b) ! (k - s) = NUL" using assms by (simp add: takeWhile_nth)
  then have "NUL \<in> set (takeWhile isspace (drop s b))" using l by (metis nth_mem)
  then have "isspace NUL" by (rule set_takeWhileD [THEN conjunct2])
  then show False by (simp add: isspace_def)
qed

lemma first_field:
  assumes "keeps (Suc i) (Suc k) (set_field i s (p\<lparr> buf := b \<rparr>)) q" "b ! k = NUL" "s \<le> k" "k < length b" "i < length (field p)"
  shows "deref q (field q ! i) = Some (dropWhile isspace (cstr b s))"
proof -
  define a where "a = s + length (takeWhile isspace (drop s b))"
  have "field q ! i = Buf a" using assms unfolding keeps_def by (simp add: set_field_def a_def)
  moreover have "a \<le> k" unfolding a_def by (rule space_before_end [OF assms(2-4)])
  moreover from this have "cstr (buf q) a = cstr b a" using assms(1,2) unfolding keeps_def by simp
  moreover have "cstr b a = dropWhile isspace (cstr b s)" unfolding a_def by (rule cstr_skip)
  ultimately show ?thesis by (simp add: deref_def)
qed

lemma parse_fields_refines:
  assumes "i + n = unat (count p)" "i + n \<le> wu_num_fields" "length (field p) = wu_num_fields"
  shows "case split_fields n (cstr (buf p) s) of
     None \<Rightarrow> \<exists>m q. parse_fields i s p = Malformed m q
   | Some fs \<Rightarrow> \<exists>q. parse_fields i s p = Parsed q \<and> keeps i s p q \<and> length fs = n \<and>
       (\<forall>j < n. deref q (field q ! (i + j)) = Some (fs ! j))"
  using assms
proof (induction n arbitrary: i s p)
  case 0
  then show ?case by (subst parse_fields.simps) (auto simp: keeps_def)
next
  case (Suc n)
  define t where "t = cstr (buf p) s"
  define f where "f = takeWhile (\<lambda>c. c \<noteq> CHR '','' \<and> c \<noteq> CHR '';'') t"
  have brk: "strpbrk (buf p) s '',;'' = (if f = t then None else Some (s + length f))"
    unfolding strpbrk_cases Let_def f_def t_def by simp
  have sp: "split_fields (Suc n) t = (if f = t then (if n = 0 then Some [dropWhile isspace f] else None)
      else map_option (Cons (dropWhile isspace f)) (split_fields n (drop (Suc (length f)) t)))"
    unfolding split_fields.simps Let_def f_def ..
  have lt: "f \<noteq> t \<Longrightarrow> length f < length (cstr (buf p) s)" unfolding t_def [symmetric] f_def by (rule takeWhile_shorter [THEN iffD2])
  have cut: "take (length f) t = f" unfolding f_def by (rule takeWhile_eq_take [symmetric])
  have i: "i < unat (count p)" "i < wu_num_fields" using Suc.prems by auto
  show ?case unfolding t_def [symmetric]
  proof (cases "f = t")
    case True
    then have "parse_fields i s p = (if i < unat (count p) - 1 then Malformed t p else Parsed (set_field i s p))"
      using i by (subst parse_fields.simps) (simp add: brk t_def)
    moreover have "i < unat (count p) - 1 \<longleftrightarrow> n \<noteq> 0" using Suc.prems by auto
    moreover have "deref (set_field i s p) (field (set_field i s p) ! i) = Some (dropWhile isspace t)"
      using i Suc.prems by (simp add: set_field_deref t_def)
    ultimately show "case split_fields (Suc n) t of
       None \<Rightarrow> \<exists>m q. parse_fields i s p = Malformed m q
     | Some fs \<Rightarrow> \<exists>q. parse_fields i s p = Parsed q \<and> keeps i s p q \<and> length fs = Suc n \<and>
         (\<forall>j < Suc n. deref q (field q ! (i + j)) = Some (fs ! j))"
      unfolding sp using True by (simp add: keeps_def)
  next
    case False
    define k where "k = s + length f"
    define b where "b = (buf p)[k := NUL]"
    let ?p = "set_field i s (p\<lparr> buf := b \<rparr>)"
    note n = cstr_next [OF lt [OF False], folded k_def t_def]
    have step: "parse_fields i s p = parse_fields (Suc i) (Suc k) ?p"
      using i False by (subst parse_fields.simps) (simp add: brk k_def b_def)
    have rest: "cstr b (Suc k) = drop (Suc (length f)) t" using n(1) by (simp add: b_def k_def)
    have this_f: "cstr b s = f" unfolding b_def k_def cstr_cut [OF lt [OF False]] t_def [symmetric] by (rule cut)
    have end_f: "b ! k = NUL" using n(3) by (simp add: b_def)
    have IH: "case split_fields n (cstr (buf ?p) (Suc k)) of
       None \<Rightarrow> \<exists>m q. parse_fields (Suc i) (Suc k) ?p = Malformed m q
     | Some fs \<Rightarrow> \<exists>q. parse_fields (Suc i) (Suc k) ?p = Parsed q \<and> keeps (Suc i) (Suc k) ?p q \<and> length fs = n \<and>
         (\<forall>j < n. deref q (field q ! (Suc i + j)) = Some (fs ! j))"
      using Suc.prems by (intro Suc.IH) simp_all
    show "case split_fields (Suc n) t of
       None \<Rightarrow> \<exists>m q. parse_fields i s p = Malformed m q
     | Some fs \<Rightarrow> \<exists>q. parse_fields i s p = Parsed q \<and> keeps i s p q \<and> length fs = Suc n \<and>
         (\<forall>j < Suc n. deref q (field q ! (i + j)) = Some (fs ! j))"
    proof (cases "split_fields n (drop (Suc (length f)) t)")
      case None
      then show ?thesis using IH False unfolding sp step by (simp add: rest)
    next
      case (Some fs)
      then obtain q where q: "parse_fields (Suc i) (Suc k) ?p = Parsed q" "keeps (Suc i) (Suc k) ?p q" "length fs = n"
        "\<forall>j < n. deref q (field q ! (Suc i + j)) = Some (fs ! j)" using IH by (auto simp: rest)
      have kept: "keeps i s p q" by (rule keeps_step [OF q(2) [unfolded b_def]]) (simp add: k_def)
      have "deref q (field q ! i) = Some (dropWhile isspace f)"
        using first_field [OF q(2)] this_f end_f i Suc.prems n(3) by (simp add: k_def b_def)
      then have "deref q (field q ! (i + j)) = Some ((dropWhile isspace f # fs) ! j)" if "j < Suc n" for j
        using that q(4) by (cases j) auto
      then show ?thesis using Some q(1,3) False kept unfolding sp step by simp
    qed
  qed
qed

subsection \<open>Running operations\<close>

lemmas wu_run = wbind_def wreturn_def wundefined_def wget_def wmodify_def

lemma wseq_modify [simp]: "wbind (wmodify f) g w = g () (f w)"
  by (simp add: wu_run)

lemma wbind_get [simp]: "wbind (wget f) g w = g (f w) w"
  by (simp add: wu_run)

lemma wbind_return [simp]: "wbind (wreturn x) f w = f x w"
  by (simp add: wu_run)

lemma wbind_Inr [simp]: "wbind (\<lambda>v. Inr (x, v)) f w = f x w"
  by (simp add: wu_run)

lemma wreturn_apply [simp]: "wreturn x w = Inr (x, w)"
  by (simp add: wreturn_def)

lemma wbind_assoc [simp]: "wbind (wbind m f) g w = wbind m (\<lambda>x. wbind (f x) g) w"
  by (auto simp: wbind_def split: sum.split)

lemma wbind_ret_err [simp]: "wbind (ret_err e) f w = f (- 1) (w\<lparr> errno := e \<rparr>)"
  by (simp add: ret_err_def set_errno_def)

text \<open>States that differ at most in debugging output.\<close>

definition only_debug :: "wu_state \<Rightarrow> wu_state \<Rightarrow> bool" where
  "only_debug w w' \<longleftrightarrow> (\<exists>s. w' = w\<lparr> out := out w @ s \<rparr> \<and> (wu_debug w \<or> s = []))"

lemma only_debug_refl [simp]: "only_debug w w"
  unfolding only_debug_def by (auto intro: exI [of _ "[]"])

lemma only_debug_trans: "only_debug w v \<Longrightarrow> only_debug v u \<Longrightarrow> only_debug w u"
proof -
  assume "only_debug w v" "only_debug v u"
  then obtain s t where "v = w\<lparr> out := out w @ s \<rparr>" "u = v\<lparr> out := out v @ t \<rparr>" "wu_debug w \<or> s = []" "wu_debug v \<or> t = []"
    unfolding only_debug_def by blast
  then have "u = w\<lparr> out := out w @ (s @ t) \<rparr> \<and> (wu_debug w \<or> s @ t = [])" by auto
  then show ?thesis unfolding only_debug_def by blast
qed

lemma only_debug_fields:
  assumes "only_debug w w'"
  shows "events w' = events w" "errno w' = errno w" "errs w' = errs w" "wu_debug w' = wu_debug w"
  using assms unfolding only_debug_def by auto

lemma dbg_run: "\<exists>w'. only_debug w w' \<and> wseq (dbg s) m w = m w'"
proof (cases "wu_debug w")
  case True
  then have "wseq (dbg s) m w = m (w\<lparr> out := out w @ (prog_name @ '': [debug] '' @ s @ [NL]) \<rparr>)"
    by (simp add: dbg_def wwhen_def msg_def msg_end_def)
  moreover have "only_debug w (w\<lparr> out := out w @ (prog_name @ '': [debug] '' @ s @ [NL]) \<rparr>)"
    using True unfolding only_debug_def by blast
  ultimately show ?thesis by blast
next
  case False
  then show ?thesis by (intro exI [of _ w]) (simp add: dbg_def wwhen_def)
qed

lemma dump_fields_run: "i + n \<le> wu_num_fields \<Longrightarrow> \<exists>w'. only_debug w w' \<and> wseq (dump_fields i n p) m w = m w'"
proof (induction n arbitrary: i w)
  case 0
  then show ?case by (auto intro: exI [of _ w])
next
  case (Suc n)
  then obtain v where v: "only_debug w v" "wseq (dump_fields i (Suc n) p) m w = wseq (dump_fields (Suc i) n p) m v"
    using dbg_run by simp blast
  obtain u where "only_debug v u" "wseq (dump_fields (Suc i) n p) m v = m u" using Suc.IH [of "Suc i" v] Suc.prems by auto
  then show ?case using v only_debug_trans by metis
qed

lemma dump_packet_run:
  "unat (count p) \<le> wu_num_fields \<Longrightarrow> \<exists>w'. only_debug w w' \<and> wseq (dump_packet p) m w = m w'"
proof -
  assume c: "unat (count p) \<le> wu_num_fields"
  obtain v where v: "only_debug w v" "wseq (dump_packet p) m w = wseq (dump_fields 0 (unat (count p)) p) m v"
    unfolding dump_packet_def wbind_assoc using dbg_run by blast
  obtain u where "only_debug v u" "wseq (dump_fields 0 (unat (count p)) p) m v = m u"
    using dump_fields_run [of 0 "unat (count p)" v p m] c by auto
  then show ?thesis using v only_debug_trans by metis
qed

lemma invalid_packet_run:
  "\<exists>w'. only_debug w w' \<and> invalid_packet s p w = Inr ((- 1, p), w'\<lparr> errno := EFAULT \<rparr>)"
proof -
  obtain w' where "only_debug w w'" "invalid_packet s p w = wbind (ret_err EFAULT) (\<lambda>r. wreturn (r, p)) w'"
    unfolding invalid_packet_def using dbg_run by blast
  then show ?thesis by auto
qed

subsection \<open>Parsing a message\<close>

definition packet_fields :: "wu_packet \<Rightarrow> string option list" where
  "packet_fields p = map (deref p) (take (unat (count p)) (field p))"

definition parse_message :: "string \<Rightarrow> (char \<times> char \<times> string list) option" where
  "parse_message d =
     (case message_head d of None \<Rightarrow> None
      | Some (c, sc, n, t) \<Rightarrow> map_option (\<lambda>fs. (c, sc, fs)) (split_fields (unat n) t))"

text \<open>The number of parameters that a message announces.\<close>

definition announced :: "string \<Rightarrow> nat" where
  "announced d = (case message_head d of None \<Rightarrow> 0 | Some (c, sc, n, t) \<Rightarrow> unat n)"

definition received :: "string \<Rightarrow> wu_packet \<Rightarrow> wu_packet" where
  "received d p = p\<lparr> buf := d @ drop (length d) (buf p), len := length d \<rparr>"

lemma received_text:
  assumes "length (buf p) = wu_strlen" "length d < wu_strlen"
  shows "cstr ((buf (received d p))[length d := NUL]) 0 = takeWhile (\<lambda>c. c \<noteq> NUL) d"
proof -
  have "(buf (received d p))[length d := NUL] = d @ NUL # drop (Suc (length d)) (buf p)"
    using assms by (simp add: received_def list_update_append Cons_nth_drop_Suc [symmetric])
  moreover have "takeWhile (\<lambda>c. c \<noteq> NUL) (d @ NUL # e) = takeWhile (\<lambda>c. c \<noteq> NUL) d" for e by (induction d) auto
  ultimately show ?thesis by (simp add: cstr_def)
qed

text \<open>The end of \<^verbatim>\<open>parse_packet\<close>, once the head of the message is read.\<close>

lemma parse_tail:
  assumes "length (field p) = wu_num_fields" "unat (count p) \<le> wu_num_fields"
  shows "case split_fields (unat (count p)) (cstr (buf p) s) of
     None \<Rightarrow> \<exists>q w'. (case parse_fields 0 s p of
         Parsed p4 \<Rightarrow> wseq (dump_packet p4) (wreturn (0, p4))
       | Malformed m p4 \<Rightarrow> invalid_packet (''Malformed parameter string ['' @ m @ '']'') p4
       | Out_of_bounds \<Rightarrow> wundefined) w = Inr ((- 1, q), w'\<lparr> errno := EFAULT \<rparr>) \<and> only_debug w w'
   | Some fs \<Rightarrow> \<exists>q w'. (case parse_fields 0 s p of
         Parsed p4 \<Rightarrow> wseq (dump_packet p4) (wreturn (0, p4))
       | Malformed m p4 \<Rightarrow> invalid_packet (''Malformed parameter string ['' @ m @ '']'') p4
       | Out_of_bounds \<Rightarrow> wundefined) w = Inr ((0, q), w') \<and> only_debug w w' \<and>
         cmd q = cmd p \<and> sub_cmd q = sub_cmd p \<and> count q = count p \<and> packet_fields q = map Some fs \<and> length fs = unat (count p)"
proof -
  note r = parse_fields_refines [of 0 "unat (count p)" p s, OF _ _ assms(1)]
  show ?thesis
  proof (cases "split_fields (unat (count p)) (cstr (buf p) s)")
    case None
    then obtain m q where q: "parse_fields 0 s p = Malformed m q" using r assms by auto
    obtain w' where "only_debug w w'"
      "invalid_packet (''Malformed parameter string ['' @ m @ '']'') q w = Inr ((- 1, q), w'\<lparr> errno := EFAULT \<rparr>)"
      using invalid_packet_run by blast
    then show ?thesis unfolding None option.case q parse_result.case by blast
  next
    case (Some fs)
    then obtain q where q: "parse_fields 0 s p = Parsed q" "keeps 0 s p q" "length fs = unat (count p)"
      "\<forall>j < unat (count p). deref q (field q ! j) = Some (fs ! j)" using r assms by auto
    have k: "cmd q = cmd p" "sub_cmd q = sub_cmd p" "count q = count p" "length (field q) = wu_num_fields"
      using q(2) assms unfolding keeps_def by auto
    have f: "packet_fields q = map Some fs"
      using q(3,4) k assms unfolding packet_fields_def by (intro nth_equalityI) auto
    obtain w' where "only_debug w w'" "wseq (dump_packet q) (wreturn (0 :: int, q)) w = Inr ((0, q), w')"
      using dump_packet_run [of q w "wreturn (0 :: int, q)"] k assms by auto
    then show ?thesis unfolding Some option.case q(1) parse_result.case using f k q(3) by blast
  qed
qed

text \<open>What running an operation that ends in an \<^verbatim>\<open>EFAULT\<close> or in a parsed packet looks like.\<close>

definition rejects :: "(int \<times> wu_packet) wu \<Rightarrow> wu_state \<Rightarrow> bool" where
  "rejects m w \<longleftrightarrow> (\<exists>q w'. m w = Inr ((- 1, q), w'\<lparr> errno := EFAULT \<rparr>) \<and> only_debug w w')"

definition accepts :: "(int \<times> wu_packet) wu \<Rightarrow> wu_state \<Rightarrow> char \<Rightarrow> char \<Rightarrow> string list \<Rightarrow> bool" where
  "accepts m w c sc fs \<longleftrightarrow> (\<exists>q w'. m w = Inr ((0, q), w') \<and> only_debug w w' \<and> cmd q = c \<and> sub_cmd q = sc \<and>
     unat (count q) = length fs \<and> packet_fields q = map Some fs)"

lemma rejects_invalid: "rejects (invalid_packet s p) w"
  unfolding rejects_def using invalid_packet_run by blast

lemma after_dbg:
  assumes "\<And>w'. rejects m w'" shows "rejects (wseq (dbg s) m) w"
proof -
  obtain v where v: "only_debug w v" "wseq (dbg s) m w = m v" using dbg_run by blast
  then show ?thesis using assms [of v] only_debug_trans unfolding rejects_def v(2) by blast
qed

lemma after_dbg':
  assumes "\<And>w'. accepts m w' c sc fs" shows "accepts (wseq (dbg s) m) w c sc fs"
proof -
  obtain v where v: "only_debug w v" "wseq (dbg s) m w = m v" using dbg_run by blast
  then show ?thesis using assms [of v] only_debug_trans unfolding accepts_def v(2) by blast
qed

definition outcome :: "(char \<times> char \<times> string list) option \<Rightarrow> (int \<times> wu_packet) wu \<Rightarrow> wu_state \<Rightarrow> bool" where
  "outcome r m w = (case r of None \<Rightarrow> rejects m w | Some (c, sc, fs) \<Rightarrow> accepts m w c sc fs)"

lemma outcome_dbg: "(\<And>w'. outcome r m w') \<Longrightarrow> outcome r (wseq (dbg s) m) w"
  unfolding outcome_def using after_dbg after_dbg' by (cases r) auto

lemma outcome_invalid: "outcome None (invalid_packet s p) w"
  unfolding outcome_def by (simp add: rejects_invalid)

lemma outcome_tail:
  assumes "length (field p) = wu_num_fields" "unat (count p) \<le> wu_num_fields"
  shows "outcome (map_option (\<lambda>fs. (cmd p, sub_cmd p, fs)) (split_fields (unat (count p)) (cstr (buf p) s)))
     (case parse_fields 0 s p of
         Parsed p4 \<Rightarrow> wseq (dump_packet p4) (wreturn (0, p4))
       | Malformed m p4 \<Rightarrow> invalid_packet (''Malformed parameter string ['' @ m @ '']'') p4
       | Out_of_bounds \<Rightarrow> wundefined) w"
proof (cases "split_fields (unat (count p)) (cstr (buf p) s)")
  case None
  then show ?thesis using parse_tail [OF assms, of s w] unfolding outcome_def rejects_def by simp
next
  case (Some fs)
  then show ?thesis using parse_tail [OF assms, of s w] unfolding outcome_def accepts_def by fastforce
qed

lemma parse_packet_outcome:
  assumes "length (buf p) = wu_strlen" "length (field p) = wu_num_fields" "length d < wu_strlen" "announced d \<le> wu_num_fields"
  shows "outcome (parse_message d) (parse_packet (received d p)) w"
proof -
  define b where "b = (buf (received d p))[length d := NUL]"
  have tx: "cstr b 0 = takeWhile (\<lambda>c. c \<noteq> NUL) d" unfolding b_def by (rule received_text [OF assms(1,3)])
  have len: "len (received d p) = length d" by (simp add: received_def)
  show ?thesis unfolding parse_packet_def len if_P [OF assms(3)] Let_def b_def [symmetric]
  proof (rule outcome_dbg, goal_cases)
    case (1 w)
    show ?case
    proof (cases "strchr b 0 (CHR ''#'')")
      case None
      then have "parse_message d = None" by (simp add: parse_message_def message_head_def tx [symmetric] strchr_None)
      then show ?thesis by (simp add: None outcome_invalid)
    next
      case h: (Some h)
      note a1 = strchr_Some(1) [OF h]
      show ?thesis
      proof (cases "strchr b (Suc h) (CHR '','')")
        case None
        then have "parse_message d = None" using a1 by (simp add: parse_message_def message_head_def tx [symmetric] strchr_None)
        then show ?thesis by (simp add: h None outcome_invalid)
      next
        case i: (Some i)
        note a2 = strchr_Some(1,4) [OF i]
        show ?thesis
        proof (cases "strchr b (Suc i) (CHR '','')")
          case None
          then have "parse_message d = None" using a1 a2 by (simp add: parse_message_def message_head_def tx [symmetric] strchr_None)
          then show ?thesis by (simp add: h i None outcome_invalid)
        next
          case j: (Some j)
          note a3 = strchr_Some(1,4) [OF j]
          show ?thesis
          proof (cases "strchr b (Suc j) (CHR '','')")
            case None
            then have "parse_message d = None" using a1 a2 a3 by (simp add: parse_message_def message_head_def tx [symmetric] strchr_None)
            then show ?thesis by (simp add: h i j None outcome_invalid)
          next
            case k: (Some k)
            note a4 = strchr_Some(1,5) [OF k]
            let ?n = "atoi (cstr (b[k := NUL]) (Suc j))"
            let ?p = "(received d p)\<lparr> cmd := b ! Suc h, sub_cmd := b ! Suc i, buf := b[k := NUL], count := ?n \<rparr>"
            have head: "message_head d = Some (b ! Suc h, b ! Suc i, ?n, cstr (buf ?p) (Suc k))"
              using a1 a2 a3 a4 by (simp add: message_head_def tx [symmetric])
            have "parse_message d = map_option (\<lambda>fs. (cmd ?p, sub_cmd ?p, fs)) (split_fields (unat (count ?p)) (cstr (buf ?p) (Suc k)))"
              by (simp add: parse_message_def head)
            moreover have "unat ?n \<le> wu_num_fields" using assms(4) by (simp add: announced_def head)
            ultimately show ?thesis using assms(2) outcome_tail [of ?p "Suc k"]
              by (simp add: h i j k received_def outcome_dbg)
          qed
        qed
      qed
    qed
  qed
qed

subsection \<open>Well-formed packets\<close>

text \<open>The arrays of a packet have their sizes, its buffer ends in a NUL byte, and every field that points into
  the buffer points inside it.\<close>

definition wf_packet :: "wu_packet \<Rightarrow> bool" where
  "wf_packet p \<longleftrightarrow> length (buf p) = wu_strlen \<and> buf p ! 255 = NUL \<and> length (field p) = wu_num_fields \<and>
     length (label p) = wu_num_fields \<and> (\<forall>i. Buf i \<in> set (field p) \<longrightarrow> i < wu_strlen)"

lemma wf_packetD:
  assumes "wf_packet p"
  shows "length (buf p) = wu_strlen" "buf p ! 255 = NUL" "length (field p) = wu_num_fields"
    "length (label p) = wu_num_fields" "Buf i \<in> set (field p) \<Longrightarrow> i < wu_strlen"
  using assms by (auto simp: wf_packet_def)

lemma wf_set_field:
  assumes "wf_packet p" "s < wu_strlen"
  shows "wf_packet (set_field i s p)"
proof -
  have "s + length (takeWhile isspace (drop s (buf p))) \<le> 255"
    using assms by (intro space_before_end) (auto simp: wf_packet_def)
  moreover have "j < wu_strlen" if "Buf j \<in> set ((field p)[i := Buf a])" "a \<le> 255" for j a
    using that set_update_subset_insert [of "field p" i "Buf a"] wf_packetD(5) [OF assms(1), of j] by auto
  ultimately show ?thesis using assms unfolding wf_packet_def set_field_def by simp
qed

lemma wf_cut: "wf_packet p \<Longrightarrow> wf_packet (p\<lparr> buf := (buf p)[k := NUL] \<rparr>)"
  by (cases "k = 255") (auto simp: wf_packet_def)

lemma wf_other_fields [simp]:
  "wf_packet (p\<lparr> cmd := c \<rparr>) = wf_packet p" "wf_packet (p\<lparr> sub_cmd := c \<rparr>) = wf_packet p"
  "wf_packet (p\<lparr> count := n \<rparr>) = wf_packet p" "wf_packet (p\<lparr> len := m \<rparr>) = wf_packet p"
  by (simp_all add: wf_packet_def)

lemma strpbrk_bound:
  assumes "wf_packet p" "strpbrk (buf p) s S = Some k"
  shows "s \<le> k" "Suc k < wu_strlen" "k < length (buf p)"
proof -
  let ?f = "takeWhile (\<lambda>c. c \<notin> set S) (cstr (buf p) s)"
  have k: "k = s + length ?f" and lt: "length ?f < length (cstr (buf p) s)"
    using assms(2) by (auto simp: strpbrk_def Let_def split: if_splits)
  note n = cstr_next [OF lt, folded k]
  show "s \<le> k" by (simp add: k)
  show "k < length (buf p)" by (rule n(3))
  then have "k \<noteq> 255" using n(4) assms(1) by (auto simp: wf_packet_def)
  then show "Suc k < wu_strlen" using n(3) assms(1) by (simp add: wf_packet_def)
qed

lemma parse_fields_wf:
  "wf_packet p \<Longrightarrow> s < wu_strlen \<Longrightarrow>
   (case parse_fields i s p of
      Parsed q \<Rightarrow> wf_packet q \<and> count q = count p \<and> (i \<le> unat (count p) \<longrightarrow> unat (count p) \<le> wu_num_fields \<or> unat (count p) = i)
        \<and> (\<forall>j. i \<le> j \<longrightarrow> j < unat (count p) \<longrightarrow> field q ! j \<noteq> Null) \<and> (\<forall>j < i. field q ! j = field p ! j)
    | Malformed m q \<Rightarrow> wf_packet q
    | Out_of_bounds \<Rightarrow> True)"
proof (induction i s p rule: parse_fields.induct)
  case (1 i s p)
  show ?case
  proof (cases "i < unat (count p)")
    case False
    then show ?thesis using 1(2) by (subst parse_fields.simps) auto
  next
    case i: True
    show ?thesis
    proof (cases "strpbrk (buf p) s '',;''")
      case None
      then show ?thesis using i 1(2,3) wf_set_field [OF 1(2,3), of i] wf_packetD(3) [OF 1(2)]
        by (subst parse_fields.simps) (auto simp: set_field_def less_Suc_eq nth_list_update)
    next
      case (Some k)
      let ?p = "set_field i s (p\<lparr> buf := (buf p)[k := NUL] \<rparr>)"
      have wf: "wf_packet ?p" using wf_set_field [OF wf_cut] 1(2,3) by blast
      have k: "Suc k < wu_strlen" using strpbrk_bound(2) [OF 1(2) Some] .
      show ?thesis
      proof (cases "i < wu_num_fields")
        case False
        then show ?thesis using i Some by (subst parse_fields.simps) simp
      next
        case True
        have step: "parse_fields i s p = parse_fields (Suc i) (Suc k) ?p"
          using i Some True by (subst parse_fields.simps) simp
        have f: "field ?p ! i \<noteq> Null" "length (field p) = wu_num_fields" using True wf_packetD(3) [OF 1(2)]
          by (simp_all add: set_field_def)
        have IH: "case parse_fields (Suc i) (k + 1) ?p of
          Parsed q \<Rightarrow> wf_packet q \<and> count q = count ?p \<and>
            (Suc i \<le> unat (count ?p) \<longrightarrow> unat (count ?p) \<le> wu_num_fields \<or> unat (count ?p) = Suc i)
            \<and> (\<forall>j. Suc i \<le> j \<longrightarrow> j < unat (count ?p) \<longrightarrow> field q ! j \<noteq> Null) \<and> (\<forall>j < Suc i. field q ! j = field ?p ! j)
        | Malformed m q \<Rightarrow> wf_packet q
        | Out_of_bounds \<Rightarrow> True"
          using 1(1) [OF i Some True wf] k by simp
        show ?thesis
        proof (cases "parse_fields (Suc i) (k + 1) ?p")
          case (Parsed q)
          then have q: "wf_packet q" "count q = count p" "unat (count p) \<le> wu_num_fields \<or> unat (count p) = Suc i"
            "\<forall>j. Suc i \<le> j \<longrightarrow> j < unat (count p) \<longrightarrow> field q ! j \<noteq> Null" "\<forall>j < Suc i. field q ! j = field ?p ! j"
            using IH i by auto
          have "field q ! j \<noteq> Null" if "i \<le> j" "j < unat (count p)" for j
            using that q(4,5) f(1) by (cases "j = i") auto
          moreover have "field q ! j = field p ! j" if "j < i" for j using that q(5) by simp
          moreover have "unat (count p) \<le> wu_num_fields" using q(3) True by auto
          ultimately show ?thesis using Parsed q by (simp add: step)
        qed (use IH in \<open>simp_all add: step\<close>)
      qed
    qed
  qed
qed

text \<open>Every value that an operation ends with.\<close>

definition ends :: "'a wu \<Rightarrow> ('a \<Rightarrow> bool) \<Rightarrow> bool" where
  "ends m P \<longleftrightarrow> (\<forall>w x w'. m w = Inr (x, w') \<longrightarrow> P x)"

lemma ends_return: "P x \<Longrightarrow> ends (wreturn x) P"
  by (simp add: ends_def)

lemma ends_undefined: "ends wundefined P"
  by (simp add: ends_def wundefined_def)

lemma ends_bind: "(\<And>x. ends (f x) P) \<Longrightarrow> ends (wbind m f) P"
  unfolding ends_def wbind_def by (auto split: sum.splits)

lemma ends_bind_value: "ends m Q \<Longrightarrow> (\<And>x. Q x \<Longrightarrow> ends (f x) P) \<Longrightarrow> ends (wbind m f) P"
  unfolding ends_def wbind_def by (auto split: sum.splits) blast

lemma ends_ret_err: "ends (ret_err e) (\<lambda>r. r = - 1)"
  unfolding ret_err_def by (intro ends_bind ends_return refl)

lemma ends_invalid: "P (- 1, p) \<Longrightarrow> ends (invalid_packet s p) P"
  unfolding invalid_packet_def by (intro ends_bind ends_bind_value [OF ends_ret_err] ends_return) simp

definition read_ok :: "int \<times> wu_packet \<Rightarrow> bool" where
  "read_ok = (\<lambda>(r, q). wf_packet q \<and> (r = 0 \<longrightarrow> unat (count q) \<le> wu_num_fields \<and> None \<notin> set (packet_fields q)))"

lemma read_ok_failed: "wf_packet p \<Longrightarrow> read_ok (- 1, p)"
  by (simp add: read_ok_def)

lemma read_ok_parsed:
  assumes "wf_packet p" "s < wu_strlen" "parse_fields 0 s p = Parsed q"
  shows "read_ok (0, q)"
proof -
  have q: "wf_packet q" "unat (count q) \<le> wu_num_fields" "\<forall>j < unat (count q). field q ! j \<noteq> Null"
    using parse_fields_wf [OF assms(1,2), of 0] assms(3) by auto
  have "deref q x \<noteq> None" if "x \<noteq> Null" for x using that by (auto simp: deref_def split: cptr.split)
  then have "None \<notin> set (packet_fields q)"
    using q wf_packetD(3) [OF q(1)] by (auto simp: packet_fields_def in_set_conv_nth) (metis option.distinct(1))
  then show ?thesis using q by (simp add: read_ok_def)
qed

lemma parse_packet_ends:
  assumes wf0: "wf_packet p0"
  shows "ends (parse_packet p0) read_ok"
proof (cases "len p0 < wu_strlen")
  case True
  define p where "p = p0\<lparr> buf := (buf p0)[len p0 := NUL] \<rparr>"
  have wf: "wf_packet p" unfolding p_def by (rule wf_cut [OF wf0])
  note bound = strpbrk_bound(2) [OF wf, folded strchr_def]
  show ?thesis unfolding parse_packet_def if_P [OF True] Let_def p_def [symmetric]
  proof (rule ends_bind, goal_cases)
    case 1
    show ?case
    proof (cases "strchr (buf p) 0 (CHR ''#'')")
      case h: (Some h)
      show ?thesis
      proof (cases "strchr (buf p) (Suc h) (CHR '','')")
        case i: (Some i)
        show ?thesis
        proof (cases "strchr (buf p) (Suc i) (CHR '','')")
          case j: (Some j)
          show ?thesis
          proof (cases "strchr (buf p) (Suc j) (CHR '','')")
            case k: (Some k)
            let ?b = "(buf p)[k := NUL]"
            let ?p = "p\<lparr> cmd := buf p ! Suc h, sub_cmd := buf p ! Suc i, buf := ?b, count := atoi (cstr ?b (Suc j)) \<rparr>"
            have wf3: "wf_packet ?p" using wf_cut [OF wf, of k] by (simp add: wf_packet_def)
            have k': "Suc k < wu_strlen" using strpbrk_bound(2) [OF wf] k by (simp add: strchr_def)
            have tail: "ends (case parse_fields 0 (Suc k) ?p of
                 Parsed p4 \<Rightarrow> wseq (dump_packet p4) (wreturn (0, p4))
               | Malformed m p4 \<Rightarrow> invalid_packet (''Malformed parameter string ['' @ m @ '']'') p4
               | Out_of_bounds \<Rightarrow> wundefined) read_ok"
              using parse_fields_wf [OF wf3 k', of 0] read_ok_parsed [OF wf3 k']
              by (auto split: parse_result.splits intro!: ends_bind ends_return ends_undefined ends_invalid read_ok_failed)
            show ?thesis by (simp add: h i j k ends_bind tail)
          qed (use wf in \<open>simp add: h i j ends_invalid read_ok_failed\<close>)
        qed (use wf in \<open>simp add: h i ends_invalid read_ok_failed\<close>)
      qed (use wf in \<open>simp add: h ends_invalid read_ok_failed\<close>)
    qed (use wf in \<open>simp add: ends_invalid read_ok_failed\<close>)
  qed
next
  case False
  then show ?thesis by (simp add: parse_packet_def ends_undefined)
qed

lemma wf_received: "wf_packet p \<Longrightarrow> length d < wu_strlen \<Longrightarrow> wf_packet (received d p)"
  by (auto simp: wf_packet_def received_def nth_append)

lemma wu_read_ends:
  assumes wf: "wf_packet p"
  shows "ends (wu_read h fd p) read_ok"
proof -
  have "ends (parse_packet (received d p)) read_ok" if "length d \<le> wu_strlen" for d
  proof (cases "length d < wu_strlen")
    case True
    then show ?thesis by (intro parse_packet_ends wf_received wf)
  next
    case False
    then show ?thesis using that by (simp add: parse_packet_def received_def ends_undefined)
  qed
  from this [of "take wu_strlen d" for d] show ?thesis unfolding wu_read_def received_def Let_def
    by (auto split: reply.split intro!: ends_bind ends_bind_value [OF ends_ret_err] ends_return read_ok_failed wf)
qed

lemma write_fields_wf:
  "wf_packet p \<Longrightarrow> len p \<le> 252 \<Longrightarrow> write_fields i p = Some (b, q) \<Longrightarrow> wf_packet q \<and> len q \<le> 252"
proof (induction i p rule: write_fields.induct)
  case (1 i p)
  show ?case
  proof (cases "i < unat (count p) \<and> i < wu_num_fields \<and> (\<exists>f. field p ! i = Str f \<and> len p + length f + 4 < wu_strlen)")
    case True
    then obtain f where f: "field p ! i = Str f" "len p + length f + 4 < wu_strlen" and i: "i < unat (count p)" "i < wu_num_fields" by auto
    let ?p = "p\<lparr> buf := put_string (len p) (CHR '','' # f) (buf p), len := len p + (1 + length f) \<rparr>"
    have "wf_packet ?p" using 1(2) f by (auto simp: wf_packet_def put_string_def nth_append)
    moreover have "write_fields (Suc i) ?p = Some (b, q)" using 1(4) f i by (subst (asm) write_fields.simps) simp
    ultimately show ?thesis using 1(1) [OF i f(1)] f by simp
  next
    case False
    then show ?thesis using 1(2,3) 1(4) [unfolded write_fields.simps [of i p]] by (auto split: if_splits cptr.splits)
  qed
qed

subsection \<open>Numbers in decimal\<close>

lemma digit_char:
  assumes "n < 10"
  shows "(of_char (digit_char n) :: nat) = 48 + n" "isdigit (digit_char n)" "digit_value (digit_char n) = n" "\<not> isspace (digit_char n)"
proof -
  show c: "(of_char (digit_char n) :: nat) = 48 + n" using assms by (simp add: digit_char_def)
  show d: "isdigit (digit_char n)" using assms by (simp add: isdigit_def c)
  show "digit_value (digit_char n) = n" by (simp add: digit_value_def d c)
  have "digit_char n \<noteq> CHR '' ''" using c by auto
  then show "\<not> isspace (digit_char n)" by (simp add: isspace_def c)
qed

lemma digits_all: "c \<in> set (digits n) \<Longrightarrow> \<exists>k < 10. c = digit_char k"
proof (induction n rule: digits.induct)
  case (1 n)
  then show ?case by (subst (asm) (2) digits.simps) (auto split: if_splits intro: exI [of _ "n mod 10"])
qed

lemma digits_ne: "digits n \<noteq> []"
  by (subst digits.simps) simp

lemma digits_isdigit: "c \<in> set (digits n) \<Longrightarrow> isdigit c \<and> \<not> isspace c \<and> digit_value c < 10"
  using digits_all digit_char by fastforce

lemma digits_value_digits: "digits_value 10 (digits n) = n"
proof (induction n rule: digits.induct)
  case (1 n)
  show ?case
  proof (cases "n < 10")
    case True
    then show ?thesis by (subst digits.simps) (simp add: digits_value_def digit_char)
  next
    case False
    then show ?thesis using 1 by (subst digits.simps) (simp add: digits_value_def digit_char)
  qed
qed

lemma digits_length: "n < 10 ^ k \<Longrightarrow> 0 < k \<Longrightarrow> length (digits n) \<le> k"
proof (induction n arbitrary: k rule: digits.induct)
  case (1 n)
  show ?case
  proof (cases "n < 10")
    case True
    then show ?thesis using 1 by (subst digits.simps) simp
  next
    case False
    then obtain m where m: "k = Suc m" "0 < m" using 1(2,3) by (cases k; cases "k - 1") auto
    then have "n div 10 < 10 ^ m" using 1(2) by auto
    then show ?thesis using 1(1) [of m] False m by (subst digits.simps) simp
  qed
qed

lemma scan_sign_digits:
  "scan_sign (digits n @ t) = (False, digits n @ t)"
proof -
  obtain c s where cs: "digits n = c # s" using digits_ne by (cases "digits n") auto
  have "isdigit c" "\<not> isspace c" using digits_isdigit [of c n] cs by auto
  moreover from this have "c \<noteq> CHR ''-''" "c \<noteq> CHR ''+''" by (auto simp: isdigit_def)
  ultimately show ?thesis by (simp add: scan_sign_def cs)
qed

lemma scan_integer_digits: "scan_integer 10 (digits n) = Some (False, n, [])"
proof -
  have t: "takeWhile (\<lambda>c. digit_value c < 10) (digits n) = digits n" using digits_isdigit by (simp add: takeWhile_eq_all_conv)
  have "scan_sign (digits n) = (False, digits n)" using scan_sign_digits [of n "[]"] by simp
  then show ?thesis using digits_ne [of n] by (simp add: scan_integer_def digits_value_digits t Let_def)
qed

lemma atoi_digits: "int n < LONG_LIMIT \<Longrightarrow> atoi (digits n) = of_nat n"
  by (simp add: atoi_def strtol_def scan_integer_digits)

lemma fmt_d_length: "- (2 ^ 31) \<le> i \<Longrightarrow> i < 2 ^ 31 \<Longrightarrow> length (fmt_d i) \<le> 11"
proof -
  assume "- (2 ^ 31) \<le> i" "i < 2 ^ 31"
  then have "length (digits (nat i)) \<le> 10" "length (digits (nat (- i))) \<le> 10" by (auto intro!: digits_length)
  then show ?thesis by (simp add: fmt_d_def)
qed

lemma packet_head_length: "length (packet_head p) \<le> 16"
  using fmt_d_length [of "sint (count p)"] sint_lt [of "count p"] sint_ge [of "count p"] by (simp add: packet_head_def)

lemma wu_write_ends:
  assumes "wf_packet p"
  shows "ends (wu_write h fd p) (\<lambda>(r, q). wf_packet q)"
proof -
  define p0 where "p0 = p\<lparr> buf := put_string 0 (packet_head p) (replicate wu_strlen NUL), len := length (packet_head p) \<rparr>"
  have l: "length (packet_head p) \<le> 16" by (rule packet_head_length)
  have "wf_packet p0" using assms l by (auto simp: wf_packet_def p0_def put_string_def nth_append)
  then have wf: "wf_packet q \<and> len q \<le> 252" if "write_fields 0 p0 = Some (b, q)" for b q
    using write_fields_wf [OF _ _ that] l by (simp add: p0_def)
  have "wf_packet (q\<lparr> buf := (buf q)[len q := c], len := m \<rparr>)" if "wf_packet q" "len q \<le> 252" for q c m
    using that by (auto simp: wf_packet_def)
  then show ?thesis unfolding wu_write_def Let_def p0_def [symmetric] using wf
    by (auto split: option.split bool.split intro!: ends_bind ends_return ends_undefined)
qed

subsection \<open>Writing and reading back\<close>

definition join_fields :: "string list \<Rightarrow> string" where
  "join_fields fs = concat (map (Cons (CHR '','')) fs)"

definition render :: "char \<Rightarrow> char \<Rightarrow> string list \<Rightarrow> string" where
  "render c sc fs = [CHR ''#'', c, CHR '','', sc, CHR '',''] @ digits (length fs) @ join_fields fs @ [CHR '';'']"

text \<open>A message that the meter's format can carry: the command characters and the fields have no separators in
  them, fields do not start with white space, and all fits in the buffer.\<close>

definition field_ok :: "string \<Rightarrow> bool" where
  "field_ok f \<longleftrightarrow> NUL \<notin> set f \<and> CHR '','' \<notin> set f \<and> CHR '';'' \<notin> set f \<and> (f = [] \<or> \<not> isspace (hd f))"

definition message_ok :: "char \<Rightarrow> char \<Rightarrow> string list \<Rightarrow> bool" where
  "message_ok c sc fs \<longleftrightarrow> c \<notin> {NUL, CHR '',''} \<and> sc \<notin> {NUL, CHR '',''} \<and> fs \<noteq> [] \<and> length fs \<le> wu_num_fields \<and>
     (\<forall>f \<in> set fs. field_ok f) \<and> length (render c sc fs) + 2 < wu_strlen"

lemma split_join:
  "\<forall>f \<in> set fs. field_ok f \<Longrightarrow> fs \<noteq> [] \<Longrightarrow> split_fields (length fs) (tl (join_fields fs) @ [CHR '';'']) = Some fs"
proof (induction fs)
  case (Cons f fs)
  let ?rest = "join_fields fs @ [CHR '';'']"
  obtain c r where r: "?rest = c # r" "c = CHR '','' \<or> c = CHR '';''" by (cases fs) (auto simp: join_fields_def)
  have tx: "tl (join_fields (f # fs)) @ [CHR '';''] = f @ c # r" using r(1) by (simp add: join_fields_def)
  have t: "takeWhile (\<lambda>c. c \<noteq> CHR '','' \<and> c \<noteq> CHR '';'') (f @ c # r) = f"
    using Cons.prems(1) r(2) by (auto simp: field_ok_def takeWhile_append takeWhile_eq_all_conv)
  have d: "dropWhile isspace f = f" using Cons.prems(1) by (cases f) (auto simp: field_ok_def)
  have "split_fields (length fs) r = Some fs"
  proof (cases fs)
    case gs: (Cons g gs)
    then have "r = tl (join_fields fs) @ [CHR '';'']" using r(1) by (auto simp: join_fields_def)
    then show ?thesis using Cons.IH Cons.prems gs by simp
  qed simp
  then show ?case unfolding tx by (simp add: t d Let_def)
qed simp

lemma after_Cons: "after c (d # s) = (if d = c then Some s else after c s)"
  by (simp add: after_def)

lemma after_append: "c \<notin> set s \<Longrightarrow> after c (s @ c # t) = Some t"
  by (induction s) (auto simp: after_def)

lemma parse_render:
  assumes "message_ok c sc fs"
  shows "parse_message (render c sc fs) = Some (c, sc, fs)" "announced (render c sc fs) = length fs"
proof -
  have ok: "c \<noteq> NUL" "c \<noteq> CHR '',''" "sc \<noteq> NUL" "sc \<noteq> CHR '',''" "fs \<noteq> []" "length fs \<le> wu_num_fields" "\<forall>f \<in> set fs. field_ok f"
    using assms by (auto simp: message_ok_def)
  let ?n = "digits (length fs)"
  have n: "CHR '','' \<notin> set ?n" "NUL \<notin> set ?n" using digits_isdigit [of "CHR '',''" "length fs"] digits_isdigit [of NUL "length fs"] by (auto simp: isdigit_def)
  obtain r where r: "join_fields fs @ [CHR '';''] = CHR '','' # r" "r = tl (join_fields fs) @ [CHR '';'']"
    using ok(5) by (cases fs) (auto simp: join_fields_def)
  have "NUL \<notin> set (join_fields fs)" using ok(7) by (auto simp: join_fields_def field_ok_def)
  then have tw: "takeWhile (\<lambda>c. c \<noteq> NUL) (render c sc fs) = render c sc fs"
    using ok n by (auto simp: render_def takeWhile_eq_all_conv)
  have "render c sc fs = [CHR ''#'', c, CHR '','', sc, CHR '',''] @ ?n @ CHR '','' # r" using r(1) by (simp add: render_def)
  moreover have "takeWhile (\<lambda>c. c \<noteq> CHR '','') (?n @ CHR '','' # r) = ?n" using n by (simp add: takeWhile_append takeWhile_eq_all_conv)
  moreover have "atoi ?n = of_nat (length fs)" using ok(6) by (intro atoi_digits) simp
  ultimately have head: "message_head (render c sc fs) = Some (c, sc, of_nat (length fs), r)"
    unfolding message_head_def tw using ok n by (simp add: after_Cons after_append)
  have u: "unat (of_nat (length fs) :: 32 word) = length fs" using ok(6) by (simp add: unat_of_nat)
  show "parse_message (render c sc fs) = Some (c, sc, fs)"
    using split_join [OF ok(7,5)] by (simp add: parse_message_def head u r(2))
  show "announced (render c sc fs) = length fs" by (simp add: announced_def head u)
qed

lemma put_at_end:
  "length X = l \<Longrightarrow> l + length s < n \<Longrightarrow> put_string l s (X @ replicate (n - l) NUL) = (X @ s) @ replicate (n - (l + length s)) NUL"
proof -
  assume l: "length X = l" "l + length s < n"
  define k where "k = n - (l + length s) - 1"
  have k: "n - (l + length s) = Suc k" "n - l = length s + Suc k" using l(2) by (auto simp: k_def)
  have "drop (l + length s + 1) (X @ replicate (n - l) NUL) = replicate k NUL" using l(1) by (simp add: k(2))
  then show ?thesis using l(1) k(1) by (simp add: put_string_def)
qed

lemma write_fields_run:
  "i + length fs = unat (count p) \<Longrightarrow> unat (count p) \<le> wu_num_fields \<Longrightarrow> (\<forall>j < length fs. field p ! (i + j) = Str (fs ! j)) \<Longrightarrow>
   length X = len p \<Longrightarrow> buf p = X @ replicate (wu_strlen - len p) NUL \<Longrightarrow> len p + length (join_fields fs) + 3 < wu_strlen \<Longrightarrow>
   \<exists>q. write_fields i p = Some (True, q) \<and> len q = len p + length (join_fields fs) \<and>
     buf q = (X @ join_fields fs) @ replicate (wu_strlen - len q) NUL \<and> count q = count p"
proof (induction fs arbitrary: i p X)
  case Nil
  then show ?case by (subst write_fields.simps) (simp add: join_fields_def)
next
  case (Cons f fs)
  let ?p = "p\<lparr> buf := put_string (len p) (CHR '','' # f) (buf p), len := len p + (1 + length f) \<rparr>"
  have f: "field p ! i = Str f" using Cons.prems(3) by force
  have fit: "len p + length f + 4 < wu_strlen" using Cons.prems(6) by (simp add: join_fields_def)
  have i: "i < unat (count p)" "i < wu_num_fields" using Cons.prems(1,2) by auto
  have step: "write_fields i p = write_fields (Suc i) ?p" using f fit i by (subst write_fields.simps) simp
  have b: "buf ?p = (X @ CHR '','' # f) @ replicate (wu_strlen - len ?p) NUL"
    using put_at_end [OF Cons.prems(4), of "CHR '','' # f" wu_strlen] fit Cons.prems(5) by simp
  have "\<exists>q. write_fields (Suc i) ?p = Some (True, q) \<and> len q = len ?p + length (join_fields fs) \<and>
     buf q = ((X @ CHR '','' # f) @ join_fields fs) @ replicate (wu_strlen - len q) NUL \<and> count q = count ?p"
  proof (rule Cons.IH)
    show "\<forall>j < length fs. field ?p ! (Suc i + j) = Str (fs ! j)" using Cons.prems(3) by force
    show "buf ?p = (X @ CHR '','' # f) @ replicate (wu_strlen - len ?p) NUL" by (rule b)
  qed (use Cons.prems in \<open>simp_all add: join_fields_def\<close>)
  then show ?case by (auto simp: step join_fields_def)
qed

lemma dbg_runE: obtains w' where "only_debug w w'" "wseq (dbg s) m w = m w'"
  using dbg_run by blast

lemma pointers_length: "length fs \<le> wu_num_fields \<Longrightarrow> length (pointers fs) = wu_num_fields"
  by (simp add: pointers_def)

lemma wf_new_packet: "length fs \<le> wu_num_fields \<Longrightarrow> length ls \<le> wu_num_fields \<Longrightarrow> wf_packet (packet c sc fs ls)"
  by (auto simp: wf_packet_def packet_def pointers_length) (auto simp: pointers_def)

lemma send_run:
  "\<exists>r w'. wbind (wget events) (\<lambda>ev.
           wseq (record_event (Wrote fd bytes))
          (wbind (syscall (write_result h ev fd bytes)) (\<lambda>ret.
           wseq (wwhen (ret \<noteq> n) (perr ''Writing to device''))
          (wreturn (if ret \<ge> 0 then 0 else ret, p2))))) w = Inr ((r, p2), w') \<and> events w' = events w @ [Wrote fd bytes] \<and>
          (0 \<le> fst (write_result h (events w) fd bytes) \<longrightarrow> r = 0)"
  by (simp add: record_event_def syscall_def wwhen_def perr_def set_errno_def)

lemma wu_write_render:
  assumes ok: "message_ok c sc fs"
  shows "\<exists>r q w'. wu_write h fd (packet c sc fs ls) w = Inr ((r, q), w') \<and> events w' = events w @ [Wrote fd (render c sc fs)] \<and>
    (0 \<le> fst (write_result h (events w) fd (render c sc fs)) \<longrightarrow> r = 0)"
proof -
  let ?p = "packet c sc fs ls"
  let ?hd = "packet_head ?p"
  have l: "length fs \<le> wu_num_fields" using ok by (simp add: message_ok_def)
  have u: "unat (of_nat (length fs) :: 32 word) = length fs" using l by (simp add: unat_of_nat)
  have s: "sint (of_nat (length fs) :: 32 word) = int (length fs)" using l by (simp add: signed_of_nat signed_take_bit_int_eq_self)
  have hd: "?hd = [CHR ''#'', c, CHR '','', sc, CHR '',''] @ digits (length fs)"
    by (simp add: packet_head_def packet_def fmt_d_def s)
  have fit: "length ?hd + length (join_fields fs) + 3 < wu_strlen" using ok by (simp add: message_ok_def render_def hd)
  define p0 where "p0 = ?p\<lparr> buf := put_string 0 ?hd (replicate wu_strlen NUL), len := length ?hd \<rparr>"
  have "buf p0 = ?hd @ replicate (wu_strlen - len p0) NUL"
    using put_at_end [of "[]" 0 ?hd wu_strlen] fit by (simp add: p0_def)
  moreover have "\<forall>j < length fs. field p0 ! (0 + j) = Str (fs ! j)" by (simp add: p0_def packet_def pointers_def nth_append)
  ultimately obtain q where q: "write_fields 0 p0 = Some (True, q)" "len q = length ?hd + length (join_fields fs)"
      "buf q = (?hd @ join_fields fs) @ replicate (wu_strlen - len q) NUL"
    using write_fields_run [of 0 fs p0 ?hd] l fit u by (auto simp: p0_def packet_def)
  have len: "len q < wu_strlen" using q(2) fit by simp
  have bytes: "take (len q + 1) ((buf q)[len q := CHR '';'']) = render c sc fs"
  proof -
    obtain m where "wu_strlen - len q = Suc m" using len by (metis Suc_diff_Suc)
    then have "(buf q)[len q := CHR '';''] = (?hd @ join_fields fs) @ CHR '';'' # replicate m NUL"
      using q(2,3) by (simp add: list_update_append)
    then show ?thesis using q(2) by (simp add: render_def hd)
  qed
  let ?q = "q\<lparr> buf := (buf q)[len q := CHR '';''], len := len q + 1 \<rparr>"
  have bytes': "take (len ?q) (buf ?q) = render c sc fs" using bytes by simp
  obtain v where v: "only_debug w v" "wu_write h fd ?p w = wbind (wget events) (\<lambda>ev.
           wseq (record_event (Wrote fd (render c sc fs)))
          (wbind (syscall (write_result h ev fd (render c sc fs))) (\<lambda>ret.
           wseq (wwhen (ret \<noteq> int (len ?q)) (perr ''Writing to device''))
          (wreturn (if ret \<ge> 0 then 0 else ret, ?q))))) v"
    unfolding wu_write_def Let_def p0_def [symmetric] q(1) option.case prod.case bool.case if_P [OF len] bytes'
    by (rule dbg_runE)
  have "events v = events w" by (rule only_debug_fields(1) [OF v(1)])
  then show ?thesis unfolding v(2) using send_run [of fd "render c sc fs" h "int (len ?q)" ?q v] by auto
qed

lemma endsD: "ends m P \<Longrightarrow> m w = Inr (x, w') \<Longrightarrow> P x"
  by (auto simp: ends_def)

lemma wu_read_data_reply:
  assumes "read_result h (events w) fd = Data d" "length d \<le> wu_strlen"
  shows "wu_read h fd p w = parse_packet (received d p) (w\<lparr> events := events w @ [Polled fd] \<rparr>)"
  using assms by (simp add: wu_read_def record_event_def received_def Let_def)

subsection \<open>Properties\<close>

text \<open>
  C6: Whatever the meter's format can carry survives the way through the driver. Over a line that echoes what
  it is sent, \<^verbatim>\<open>wu_write\<close> followed by \<^verbatim>\<open>wu_read\<close> succeeds with the command, the subcommand and the very fields
  that were written, after one write and one read.
\<close>

theorem wu_packet_roundtrip:
  assumes "message_ok c sc fs" "length ls \<le> wu_num_fields"
    and "read_result h (events w @ [Wrote fd (render c sc fs)]) fd = Data (render c sc fs)"
  shows "\<exists>q w'. wbind (wu_write h fd (packet c sc fs ls)) (\<lambda>(r, p). wu_read h fd p) w = Inr ((0, q), w') \<and>
     cmd q = c \<and> sub_cmd q = sc \<and> unat (count q) = length fs \<and> packet_fields q = map Some fs \<and>
     events w' = events w @ [Wrote fd (render c sc fs), Polled fd]"
proof -
  have l: "length fs \<le> wu_num_fields" "length (render c sc fs) < wu_strlen" using assms(1) by (simp_all add: message_ok_def)
  obtain r p v where p: "wu_write h fd (packet c sc fs ls) w = Inr ((r, p), v)" "events v = events w @ [Wrote fd (render c sc fs)]"
    using wu_write_render [OF assms(1)] by blast
  have wf: "wf_packet p" using endsD [OF wu_write_ends [OF wf_new_packet [OF l(1) assms(2)]] p(1)] by simp
  have "outcome (Some (c, sc, fs)) (parse_packet (received (render c sc fs) p)) (v\<lparr> events := events v @ [Polled fd] \<rparr>)"
    using parse_packet_outcome [of p "render c sc fs"] parse_render [OF assms(1)] wf_packetD(1,3) [OF wf] l by simp
  moreover have "wu_read h fd p v = parse_packet (received (render c sc fs) p) (v\<lparr> events := events v @ [Polled fd] \<rparr>)"
    using assms(3) l p(2) by (intro wu_read_data_reply) simp_all
  ultimately obtain q w' where "wu_read h fd p v = Inr ((0, q), w')" "only_debug (v\<lparr> events := events v @ [Polled fd] \<rparr>) w'"
      "cmd q = c" "sub_cmd q = sc" "unat (count q) = length fs" "packet_fields q = map Some fs"
    by (auto simp: outcome_def accepts_def)
  moreover from this have "events w' = events w @ [Wrote fd (render c sc fs), Polled fd]"
    using only_debug_fields(1) p(2) by fastforce
  ultimately show ?thesis by (simp add: wbind_def p(1))
qed

definition example_host :: host where
  "example_host =
     \<lparr> write_result = (\<lambda>_ _ s. (int (length s), 0)),
       read_result = (\<lambda>ev _. case ev of [] \<Rightarrow> Timed_out | _ \<Rightarrow> (case last ev of Wrote _ s \<Rightarrow> Data s | _ \<Rightarrow> Timed_out)),
       local_clock = (\<lambda>_. (12, 0, 0)), gmt_clock = (\<lambda>_. (11, 0, 0)), open_dot = (3, 0), chdir_sysfs = (0, 0),
       stat_sysfs = (\<lambda>_. (0, 0, True)), stat_node = (\<lambda>_. (0, 0, True)), access_node = (\<lambda>_. (0, 0)),
       open_node = (\<lambda>_. (4, 0)), tcgetattr_result = (\<lambda>_. (0, 0)), tcsetattr_result = (\<lambda>_. (0, 0)) \<rparr>"

lemma example_message_ok: "message_ok (CHR ''L'') (CHR ''W'') [''E'', ''1'', ''1'']"
  by (simp add: message_ok_def render_def join_fields_def field_ok_def isspace_def digits.simps)

lemma example_echo: "read_result example_host (ev @ [Wrote i s]) fd = Data s"
  by (cases ev) (simp_all add: example_host_def)

theorem wu_packet_roundtrip_witness:
  "\<exists>q w'. wbind (wu_write example_host 4 (packet (CHR ''L'') (CHR ''W'') [''E'', ''1'', ''1''] []))
     (\<lambda>(r, p). wu_read example_host 4 p) wu_init = Inr ((0, q), w') \<and> packet_fields q = [Some ''E'', Some ''1'', Some ''1'']"
  using wu_packet_roundtrip [OF example_message_ok _ example_echo, where w = wu_init and ls = "[]" and fd = 4] by auto


lemma example_head: "message_head ''#d,-,2,5, 6;'' = Some (CHR ''d'', CHR ''-'', 2, ''5, 6;'')"
  by (simp add: message_head_def after_def atoi_def strtol_def scan_integer_def scan_sign_def digits_value_def digit_value_def
      isdigit_def isspace_def Let_def)

lemma example_parse: "parse_message ''#d,-,2,5, 6;'' = Some (CHR ''d'', CHR ''-'', [''5'', ''6''])" "announced ''#d,-,2,5, 6;'' = 2"
proof -
  have u: "unat (2 :: 32 word) = Suc (Suc 0)" by simp
  have "split_fields (Suc (Suc 0)) ''5, 6;'' = Some [''5'', ''6'']" by (simp add: Let_def isspace_def)
  then show "parse_message ''#d,-,2,5, 6;'' = Some (CHR ''d'', CHR ''-'', [''5'', ''6''])"
    unfolding parse_message_def example_head option.case prod.case u by simp
  show "announced ''#d,-,2,5, 6;'' = 2" by (simp add: announced_def example_head)
qed




end
