(* ===== verification/Wattsup_Device.thy ===== *)
theory Wattsup_Device
  imports Packet_Facts
begin

text \<open>
  The commands of the power meter driver (\<^verbatim>\<open>util.c\<close>): printing packets, opening and setting up the serial
  device, the requests that show and set device parameters, and the loop that reads data records. The loop
  may run forever, so it is a partial function, and not returning is the value \<open>None\<close>.
\<close>

subsection \<open>Printing\<close>

definition separator :: "wu_state \<Rightarrow> string" where
  "separator w = (if wu_newline w then [NL] else wu_delim w)"

definition print_label :: "wu_packet \<Rightarrow> nat \<Rightarrow> unit wu" where
  "print_label p i = wbind (wget wu_label) (\<lambda>b. wwhen b (msg (''['' @ fmt_s p (label p ! i) @ ''] '')))"

text \<open>The field is itself the format that is printed.\<close>

fun print_fields :: "nat \<Rightarrow> nat \<Rightarrow> wu_packet \<Rightarrow> unit wu" where
  "print_fields i 0 p = wreturn ()"
| "print_fields i (Suc n) p =
     (if i < wu_num_fields then
        wseq (wbind (wget separator) (\<lambda>s. wwhen (i \<noteq> 0) (msg s)))
        (wseq (print_label p i)
        (wseq (case deref p (field p ! i) of None \<Rightarrow> wundefined | Some s \<Rightarrow> msg_format s)
        (print_fields (Suc i) n p)))
      else wundefined)"

definition print_packet :: "wu_packet \<Rightarrow> string \<Rightarrow> unit wu" where
  "print_packet p str =
     wseq (wbind (wget wu_suppress) (\<lambda>b. wwhen (\<not> b) (msg (''Watts Up? '' @ str @ [NL]))))
     (wseq (print_fields 0 (unat (count p)) p) msg_end)"

definition clock_text :: "nat \<times> nat \<times> nat \<Rightarrow> string" where
  "clock_text t = (case t of (h, m, s) \<Rightarrow>
     ''['' @ pad_left 2 (CHR ''0'') (digits h) @ '':'' @ pad_left 2 (CHR ''0'') (digits m) @ '':'' @
     pad_left 2 (CHR ''0'') (digits s) @ ''] '')"

definition print_time :: "host \<Rightarrow> unit wu" where
  "print_time h =
     wbind (wget (\<lambda>w. w)) (\<lambda>w.
       wwhen (wu_localtime w \<or> wu_gmtime w)
         (msg (clock_text ((if wu_localtime w then local_clock h else gmt_clock h) (events w)))))"

definition field_scale :: "nat \<Rightarrow> double \<times> nat" where
  "field_scale i =
     (if i = wu_field_min_amps \<or> i = wu_field_max_amps \<or> i = wu_field_amps then (fl 1000, 3)
      else if i = wu_field_power_factor \<or> i = wu_field_duty_cycle then (fl 1, 1)
      else (fl 10, 1))"

definition filter_data :: "wu_packet \<Rightarrow> nat \<Rightarrow> string option wu" where
  "filter_data p i =
     wbind (wget wu_fields) (\<lambda>fs.
       if i < wu_num_fields \<and> enable (fs ! i) then
         (case deref p (field p ! i) of
            None \<Rightarrow> wundefined
          | Some s \<Rightarrow> (case field_scale i of (scale, decimals) \<Rightarrow> wreturn (Some (take 255 (fmt_f decimals (strtod s / scale))))))
       else wreturn None)"

fun filter_fields :: "nat \<Rightarrow> nat \<Rightarrow> bool \<Rightarrow> wu_packet \<Rightarrow> unit wu" where
  "filter_fields i 0 printed p = wreturn ()"
| "filter_fields i (Suc n) printed p =
     wbind (filter_data p i) (\<lambda>r. case r of
        None \<Rightarrow> filter_fields (Suc i) n printed p
      | Some s \<Rightarrow>
          wseq (wbind (wget separator) (\<lambda>sep. wwhen printed (msg sep)))
          (wseq (print_label p i)
          (wseq (msg_format s)
          (filter_fields (Suc i) n True p))))"

definition print_packet_filter :: "host \<Rightarrow> wu_packet \<Rightarrow> unit wu" where
  "print_packet_filter h p = wseq (print_time h) (wseq (filter_fields 0 (unat (count p)) False p) msg_end)"

subsection \<open>Opening the device\<close>

definition close_fd :: "int \<Rightarrow> unit wu" where
  "close_fd fd = record_event (Closed fd)"

text \<open>The result and the descriptor, which stays \<open>fd\<close> unless the device is opened.\<close>

definition open_device :: "host \<Rightarrow> string \<Rightarrow> int \<Rightarrow> (int \<times> int) wu" where
  "open_device h device_name fd =
     wbind (syscall (open_dot h)) (\<lambda>cur_fd.
     if cur_fd < 0 then wseq (perr ''Could not open current directory.'') (wreturn (cur_fd, fd)) else
     wbind (syscall (chdir_sysfs h)) (\<lambda>ret.
     if ret \<noteq> 0 then wseq (perr_format sysfs_path_start) (wreturn (ret, fd)) else
     wseq (dbg (''Checking sysfs path: '' @ sysfs_path_start @ ''/'' @ device_name))
     (let done = (\<lambda>r. wseq (close_fd cur_fd) (wreturn r)); (st, e, is_dir) = stat_sysfs h device_name in
     wbind (syscall (st, e)) (\<lambda>ret.
     if ret < 0 then wseq (perr_format device_name) (done (ret, fd)) else
     if \<not> is_dir then wseq (set_errno (- ENOTDIR)) (wseq (err (device_name @ '' is not a TTY device.'')) (done (ret, fd))) else
     wseq (dbg (device_name @ '' is a registered TTY device''))
     (let (st, e, is_chr) = stat_node h device_name in
     wbind (syscall (st, e)) (\<lambda>ret.
     if ret < 0 then wseq (perr (''/dev/'' @ device_name @ '' (device node)'')) (done (ret, fd)) else
     if \<not> is_chr then
       wseq (set_errno (- ENOTTY)) (wseq (err (device_name @ '' is not a TTY character device.'')) (done (- 1, fd))) else
     wseq (dbg (device_name @ '' has a device node''))
     (wbind (syscall (access_node h device_name)) (\<lambda>ret.
     if ret \<noteq> 0 then wseq (perr (device_name @ '': Not writable?'')) (done (ret, fd)) else
     wbind (syscall (open_node h device_name)) (\<lambda>ret.
     if ret < 0 then wundefined else done (0, ret))))))))))"

definition setup_serial_device :: "host \<Rightarrow> int \<Rightarrow> int wu" where
  "setup_serial_device h fd =
     wbind (syscall (tcgetattr_result h fd)) (\<lambda>ret.
     if ret \<noteq> 0 then wreturn ret else
     wbind (syscall (tcsetattr_result h fd)) (\<lambda>ret.
     if ret \<noteq> 0 then wseq (perr ''setting terminal attributes'') (wreturn ret) else wreturn 0))"

subsection \<open>Requests\<close>

text \<open>Sending a request and reading the answer, with the messages for a failure of either.\<close>

definition exchange :: "host \<Rightarrow> int \<Rightarrow> wu_packet \<Rightarrow> string \<Rightarrow> bool \<Rightarrow> string \<Rightarrow> (wu_packet \<Rightarrow> int wu) \<Rightarrow> int wu" where
  "exchange h fd p0 write_msg nap read_msg k =
     wbind (wu_write h fd p0) (\<lambda>(ret, p).
     if ret \<noteq> 0 then wseq (perr write_msg) (wreturn ret) else
     wseq (wwhen nap (sleep 1))
     (wbind (wu_read h fd p) (\<lambda>(ret, p).
     if ret \<noteq> 0 then wseq (perr read_msg) (wreturn ret) else k p)))"

definition data_labels :: "string list" where
  "data_labels = [''watts'', ''volts'', ''amps'', ''watt hours'', ''cost'', ''mo. kWh'', ''mo. cost'', ''max watts'',
     ''max volts'', ''max amps'', ''min watts'', ''min volts'', ''min amps'', ''power factor'', ''duty cycle'',
     ''power cycle'', ''frequency'', ''VA'']"

definition wu_show_header :: "host \<Rightarrow> int \<Rightarrow> int wu" where
  "wu_show_header h fd =
     exchange h fd
       (packet (CHR ''H'') (CHR ''R'') []
         [''watts header'', ''volts header'', ''amps header'', ''kWh header'', ''cost header'', ''mo. kWh header'',
          ''mo. cost header'', ''max watts header'', ''max volts header'', ''max amps header'', ''min watts header'',
          ''min volts header'', ''min amps header'', ''power factor header'', ''duty cycle header'',
          ''power cycle header'', ''frequency header'', ''VA header''])
       ''Requesting header strings'' True ''Reading header strings''
       (\<lambda>p. wseq (print_packet p ''Header Record'') (wreturn 0))"

definition wu_show_cal :: "host \<Rightarrow> int \<Rightarrow> int wu" where
  "wu_show_cal h fd =
     exchange h fd
       (packet (CHR ''F'') (CHR ''R'') []
         [''flags'', ''sample count'', ''volts gain'', ''volts bias'', ''amps gain'', ''amps bias'', ''amps offset'',
          ''low amps gain'', ''low amps bias'', ''low amps offset'', ''watts gain'', ''watts offset'',
          ''low watts gain'', ''low watts offset''])
       ''Requesting calibration parameters'' True ''Reading header strings''
       (\<lambda>p. wseq (print_packet p ''Calibration Settings'') (wreturn 0))"

definition wu_start_log :: "host \<Rightarrow> int wu" where
  "wu_start_log h =
     wbind (wget wu_fd) (\<lambda>fd.
     wbind (wu_write h fd (packet (CHR ''L'') (CHR ''W'') [''E'', ''1'', ''1''] [])) (\<lambda>(ret, p).
     if ret = 0 then wseq (sleep 1) (wreturn ret) else wseq (perr ''Starting External Logging'') (wreturn ret)))"

definition wu_stop_log :: "host \<Rightarrow> int wu" where
  "wu_stop_log h =
     wbind (wget wu_fd) (\<lambda>fd.
       exchange h fd (packet (CHR ''L'') (CHR ''R'') [] [''time stamp'', ''interval''])
         ''Stopping External Logging'' True ''Reading final time stamp''
         (\<lambda>p. wseq (wbind (wget wu_final) (\<lambda>b. wwhen b (print_packet p ''Final Time Stamp and Interval''))) (wreturn 0)))"

definition wu_clear :: "host \<Rightarrow> int \<Rightarrow> int wu" where
  "wu_clear h fd =
     wbind (wu_write h fd (packet (CHR ''R'') (CHR ''W'') [] [])) (\<lambda>(ret, p).
     wseq (if ret \<noteq> 0 then perr ''Clearing memory'' else sleep 2)
     (wseq (wu_read h fd p) (wreturn ret)))"

definition wu_show_interval :: "host \<Rightarrow> int \<Rightarrow> int wu" where
  "wu_show_interval h fd =
     exchange h fd (packet (CHR ''S'') (CHR ''R'') [] [''reserved'', ''interval''])
       ''Requesting interval'' True ''Reading interval''
       (\<lambda>p. wseq (print_packet p ''Interval Settings'') (wreturn 0))"

text \<open>\<^verbatim>\<open>snprintf(s, wu_param_len, "%ud", n)\<close>: the number, followed by the letter.\<close>

definition param_text :: "32 word \<Rightarrow> string" where
  "param_text n = take (wu_param_len - 1) (digits (unat n) @ ''d'')"

definition wu_write_interval :: "host \<Rightarrow> int \<Rightarrow> 32 word \<Rightarrow> 32 word \<Rightarrow> int wu" where
  "wu_write_interval h fd seconds interval =
     wbind (wu_write h fd (packet (CHR ''S'') (CHR ''W'') [param_text seconds, param_text interval] [])) (\<lambda>(ret, p).
     if ret \<noteq> 0 then wseq (perr ''Setting Sampling Interval'') (wreturn ret)
     else wseq (sleep 1) (wreturn 0))"

definition wu_show_mode :: "host \<Rightarrow> int \<Rightarrow> int wu" where
  "wu_show_mode h fd =
     exchange h fd (packet (CHR ''M'') (CHR ''R'') [] [''display mode''])
       ''Requesting device display mode'' False ''Reaing device display mode''
       (\<lambda>p. wseq (dump_packet p) (wreturn 0))"

definition wu_write_mode :: "host \<Rightarrow> int \<Rightarrow> 32 word \<Rightarrow> int wu" where
  "wu_write_mode h fd mode =
     wbind (wu_write h fd (packet (CHR ''M'') (CHR ''W'') [param_text mode] [])) (\<lambda>(ret, p).
     wseq (if ret \<noteq> 0 then perr ''Setting device display mode'' else sleep 1) (wreturn ret))"

definition wu_show_user :: "host \<Rightarrow> int \<Rightarrow> int wu" where
  "wu_show_user h fd =
     exchange h fd
       (packet (CHR ''U'') (CHR ''R'') [] [''cost per kWh'', ''2nd tier cost'', ''2nd tier threshold'', ''duty cycle threshold''])
       ''Requesting user parameters'' True ''Reading user parameters''
       (\<lambda>p. wseq (print_packet p ''User Settings'') (wreturn 0))"

text \<open>The texts of the parameters become labels of the packet, and the packet has no fields.\<close>

definition wu_write_user :: "host \<Rightarrow> int \<Rightarrow> 32 word \<Rightarrow> 32 word \<Rightarrow> 32 word \<Rightarrow> 32 word \<Rightarrow> int wu" where
  "wu_write_user h fd kwh_cost second_tier_cost second_tier_threshold duty_cycle_threshold =
     wbind (wu_write h fd (packet (CHR ''U'') (CHR ''R'') []
       [param_text kwh_cost, param_text second_tier_cost, param_text second_tier_threshold, param_text duty_cycle_threshold]))
     (\<lambda>(ret, p). wseq (if ret \<noteq> 0 then perr ''Writing user parameters'' else sleep 1) (wreturn ret))"

subsection \<open>Reading data records\<close>

abbreviation (input) wu_max_retry :: nat where "wu_max_retry \<equiv> 10"

definition sleep_interval :: "unit wu" where
  "sleep_interval = wbind (wget wu_interval) (\<lambda>n. sleep (n mod 2 ^ 32))"

definition reset_log :: "host \<Rightarrow> int \<Rightarrow> unit wu" where
  "reset_log h fd =
     wseq (dbg (''Still couldn'' @ [CHR 0x27] @ ''t get a good record, resetting'' @ [NL]))
     (wseq (wu_stop_log h) (wseq (wu_clear h fd) (wseq (wu_start_log h) sleep_interval)))"

text \<open>One pass of the loop: the packet, the number of records read, the number of failures in a row and the number
  of records counted, or \<open>None\<close> when the loop is left.\<close>

definition read_step :: "host \<Rightarrow> int \<Rightarrow> wu_packet \<times> int \<times> nat \<times> int \<Rightarrow> (wu_packet \<times> int \<times> nat \<times> int) option wu" where
  "read_step h fd = (\<lambda>(p0, num_read, retry, i).
     wbind (wu_read h fd p0) (\<lambda>(ret, p).
     if ret \<noteq> 0 then
       if Suc retry < wu_max_retry then
         wseq (dbg (''Bad record back, retrying'' @ [NL])) (wseq sleep_interval (wreturn (Some (p, num_read, Suc retry, i))))
       else if Suc retry = wu_max_retry then
         wseq (reset_log h fd) (wreturn (Some (p, 0, Suc retry, i)))
       else wseq (perr ''Blech. Giving up on read'') (wreturn None)
     else
       wseq (dbg (''['' @ fmt_d num_read @ ''] ''))
       (wseq (print_packet_filter h p)
       (wbind (wget wu_count) (\<lambda>n.
       let i' = (if n \<noteq> 0 then i + 1 else i)
       in if n \<noteq> 0 \<and> i' = n then wreturn None
          else wseq sleep_interval (wreturn (Some (p, num_read + 1, 0, i'))))))))"

partial_function (option) read_loop ::
    "host \<Rightarrow> int \<Rightarrow> wu_packet \<times> int \<times> nat \<times> int \<Rightarrow> wu_state \<Rightarrow> (wu_stop + unit \<times> wu_state) option" where
  "read_loop h fd s w =
     (case read_step h fd s w of
        Inl e \<Rightarrow> Some (Inl e)
      | Inr (None, w') \<Rightarrow> Some (Inr ((), w'))
      | Inr (Some s', w') \<Rightarrow> read_loop h fd s' w')"

definition wu_read_data :: "host \<Rightarrow> int \<Rightarrow> wu_state \<Rightarrow> (wu_stop + int \<times> wu_state) option" where
  "wu_read_data h fd w =
     map_option (map_sum id (apfst (\<lambda>_. 0))) (read_loop h fd (packet NUL NUL [] data_labels, 0, 0, 0) w)"

subsection \<open>What the commands leave alone\<close>

named_theorems preserves_intros "operations that leave a part of the state alone"

definition preserves :: "(wu_state \<Rightarrow> 'v) \<Rightarrow> 'a wu \<Rightarrow> bool" where
  "preserves f m \<longleftrightarrow> (\<forall>w x w'. m w = Inr (x, w') \<longrightarrow> f w' = f w)"

lemma preservesD: "preserves f m \<Longrightarrow> m w = Inr (x, w') \<Longrightarrow> f w' = f w"
  by (auto simp: preserves_def)

lemma preserves_return [preserves_intros]: "preserves f (wreturn x)"
  by (simp add: preserves_def)

lemma preserves_undefined [preserves_intros]: "preserves f wundefined"
  by (simp add: preserves_def wundefined_def)

lemma preserves_get [preserves_intros]: "preserves f (wget g)"
  by (simp add: preserves_def wget_def)

lemma preserves_modify: "(\<And>w. f (g w) = f w) \<Longrightarrow> preserves f (wmodify g)"
  by (auto simp: preserves_def wmodify_def)

lemma preserves_bind [preserves_intros]: "preserves f m \<Longrightarrow> (\<And>x. preserves f (k x)) \<Longrightarrow> preserves f (wbind m k)"
  unfolding preserves_def wbind_def by (auto split: sum.splits)

lemma preserves_when [preserves_intros]: "preserves f m \<Longrightarrow> preserves f (wwhen b m)"
  by (simp add: wwhen_def preserves_return)

text \<open>A part of the state that messages, error numbers and system calls other than reading do not touch: such a
  part is unchanged by every operation that does not read.\<close>

locale output_view =
  fixes view :: "wu_state \<Rightarrow> 'v"
  assumes view_messages: "view (w\<lparr> out := s \<rparr>) = view w" "view (w\<lparr> errs := es \<rparr>) = view w" "view (w\<lparr> errno := n \<rparr>) = view w"
    and view_events: "\<forall>fd. e \<noteq> Polled fd \<Longrightarrow> view (w\<lparr> events := events w @ [e] \<rparr>) = view w"
begin

lemma basic [preserves_intros]:
  "preserves view (msg s)" "preserves view msg_end" "preserves view (err s)" "preserves view (perr s)"
  "preserves view (set_errno n)" "preserves view (sleep n)" "preserves view (record_event (Wrote fd s))"
  "preserves view (record_event (Closed fd))"
  unfolding msg_def msg_end_def err_def perr_def set_errno_def record_event_def sleep_def
  by (rule preserves_modify; simp add: view_messages view_events)+

lemma messages [preserves_intros]:
  "preserves view (msg_format s)" "preserves view (dbg s)" "preserves view (perr_format s)" "preserves view (ret_err n)"
  "preserves view (syscall r)"
  unfolding msg_format_def dbg_def perr_format_def ret_err_def syscall_def
  by (auto split: option.split intro!: preserves_intros)

lemma dump [preserves_intros]: "preserves view (dump_fields i n p)" "preserves view (dump_packet p)"
proof -
  show d: "preserves view (dump_fields i n p)" for i n by (induction n arbitrary: i) (auto intro!: preserves_intros)
  show "preserves view (dump_packet p)" unfolding dump_packet_def by (intro preserves_intros d)
qed

lemma packets [preserves_intros]: "preserves view (wu_write h fd p)" "preserves view (parse_packet p)"
proof -
  have i: "preserves view (invalid_packet s p)" for s p unfolding invalid_packet_def by (intro preserves_intros)
  show "preserves view (wu_write h fd p)" unfolding wu_write_def Let_def
    by (auto split: option.split bool.split intro!: preserves_intros)
  show "preserves view (parse_packet p)" unfolding parse_packet_def Let_def
    by (auto split: option.split parse_result.split intro!: preserves_intros i)
qed

lemma printing [preserves_intros]: "preserves view (print_packet p s)" "preserves view (print_packet_filter h p)"
proof -
  have f: "preserves view (print_fields i n p)" for i n
    by (induction n arbitrary: i) (auto simp: print_label_def split: option.split intro!: preserves_intros)
  have d: "preserves view (filter_data p i)" for i unfolding filter_data_def
    by (auto split: option.split prod.split intro!: preserves_intros)
  have g: "preserves view (filter_fields i n b p)" for i n b
    by (induction n arbitrary: i b) (auto simp: print_label_def split: option.split intro!: preserves_intros d)
  show "preserves view (print_packet p s)" unfolding print_packet_def by (intro preserves_intros f)
  show "preserves view (print_packet_filter h p)" unfolding print_packet_filter_def print_time_def by (intro preserves_intros g)
qed

lemma start [preserves_intros]: "preserves view (wu_start_log h)" "preserves view sleep_interval"
  unfolding wu_start_log_def sleep_interval_def by (auto intro!: preserves_intros)

end

text \<open>A part of the state that reading does not touch either, as the settings of the program.\<close>

locale settings_view = output_view +
  assumes view_poll: "view (w\<lparr> events := events w @ [Polled fd] \<rparr>) = view w"
begin

lemma wu_read_view [preserves_intros]: "preserves view (wu_read h fd p)"
proof -
  have "preserves view (record_event (Polled fd))" unfolding record_event_def by (rule preserves_modify) (rule view_poll)
  then show ?thesis unfolding wu_read_def Let_def by (auto split: reply.split intro!: preserves_intros)
qed

lemma exchange_view: "(\<And>p. preserves view (k p)) \<Longrightarrow> preserves view (exchange h fd p s b t k)"
  unfolding exchange_def by (auto intro!: preserves_intros)

lemma logging [preserves_intros]: "preserves view (wu_stop_log h)" "preserves view (wu_clear h fd)"
  unfolding wu_stop_log_def wu_clear_def by (auto intro!: preserves_intros exchange_view)

lemma reading: "preserves view (read_step h fd s)"
  unfolding read_step_def reset_log_def Let_def by (auto split: prod.split intro!: preserves_intros)

end

interpretation record_count: settings_view wu_count
  by unfold_locales simp_all

subsection \<open>The number of reads\<close>

definition reads :: "wu_state \<Rightarrow> nat" where
  "reads w = length (filter (\<lambda>e. case e of Polled _ \<Rightarrow> True | _ \<Rightarrow> False) (events w))"

interpretation read_count: output_view reads
  by unfold_locales (auto simp: reads_def split: event.split)

definition reads_at_most :: "nat \<Rightarrow> 'a wu \<Rightarrow> bool" where
  "reads_at_most n m \<longleftrightarrow> (\<forall>w x w'. m w = Inr (x, w') \<longrightarrow> reads w' \<le> reads w + n)"

lemma reads_at_mostD: "reads_at_most n m \<Longrightarrow> m w = Inr (x, w') \<Longrightarrow> reads w' \<le> reads w + n"
  by (simp add: reads_at_most_def)

lemma reads_none: "preserves reads m \<Longrightarrow> reads_at_most n m"
  by (auto simp: reads_at_most_def preserves_def)

lemma reads_bind:
  assumes "reads_at_most a m" "\<And>x. reads_at_most b (k x)"
  shows "reads_at_most (a + b) (wbind m k)"
  unfolding reads_at_most_def
proof (intro allI impI)
  fix w y w' assume "wbind m k w = Inr (y, w')"
  then obtain x v where v: "m w = Inr (x, v)" "k x v = Inr (y, w')" by (auto simp: wbind_def split: sum.splits)
  have "reads v \<le> reads w + a" "reads w' \<le> reads v + b"
    by (rule reads_at_mostD [OF assms(1) v(1)], rule reads_at_mostD [OF assms(2) v(2)])
  then show "reads w' \<le> reads w + (a + b)" by simp
qed

lemma reads_after: "preserves reads m \<Longrightarrow> (\<And>x. reads_at_most b (k x)) \<Longrightarrow> reads_at_most b (wbind m k)"
  using reads_bind [of 0 m b k] reads_none [of m 0] by simp

lemma reads_before: "reads_at_most a m \<Longrightarrow> (\<And>x. preserves reads (k x)) \<Longrightarrow> reads_at_most a (wbind m k)"
  using reads_bind [of a m 0 k, OF _ reads_none] by simp

lemma reads_wu_read: "reads_at_most 1 (wu_read h fd p)"
proof -
  have "reads_at_most 1 (record_event (Polled fd))" by (simp add: reads_at_most_def record_event_def wmodify_def reads_def)
  then show ?thesis unfolding wu_read_def Let_def
    by (intro reads_after reads_before preserves_intros) (auto split: reply.split intro!: preserves_intros)
qed

lemma reads_exchange:
  assumes "\<And>p. preserves reads (k p)"
  shows "reads_at_most 1 (exchange h fd p s b t k)"
proof -
  have r: "reads_at_most 1 (wbind (wu_read h fd q) (\<lambda>(ret, p). if ret \<noteq> 0 then wseq (perr t) (wreturn ret) else k p))" for q
    by (intro reads_before reads_wu_read) (auto intro!: preserves_intros assms)
  have "reads_at_most 1 (if ret \<noteq> 0 then wseq (perr s) (wreturn ret) else wseq (wwhen b (sleep 1)) (wbind (wu_read h fd q)
      (\<lambda>(ret, p). if ret \<noteq> 0 then wseq (perr t) (wreturn ret) else k p)))" for ret and q :: wu_packet
    by (cases "ret = 0") (simp_all add: reads_none preserves_intros reads_after r record_count.basic read_count.basic del: One_nat_def)
  then show ?thesis unfolding exchange_def case_prod_beta by (intro reads_after preserves_intros)
qed

lemma reads_logging: "reads_at_most 1 (wu_stop_log h)" "reads_at_most 1 (wu_clear h fd)"
proof -
  show "reads_at_most 1 (wu_stop_log h)" unfolding wu_stop_log_def
    by (intro reads_after reads_exchange preserves_intros)
  show "reads_at_most 1 (wu_clear h fd)" unfolding wu_clear_def case_prod_beta
    by (intro reads_after reads_before reads_wu_read preserves_intros) (auto intro!: preserves_intros)
qed

lemma reads_reset: "reads_at_most 2 (reset_log h fd)"
proof -
  have "reads_at_most (1 + 1) (wseq (wu_stop_log h) (wseq (wu_clear h fd) (wseq (wu_start_log h) sleep_interval)))"
    by (intro reads_bind reads_logging reads_before preserves_intros)
  then show ?thesis unfolding reset_log_def by (intro reads_after [OF read_count.messages(2)]) (simp add: numeral_2_eq_2)
qed

text \<open>The outcomes of one pass: the loop ends, a failure is counted, the meter is reset, or a record is printed.\<close>

lemma read_step_cases:
  assumes "read_step h fd (p, k, retry, i) w = Inr (r, w')"
  shows "r = None \<and> reads w' \<le> reads w + 1 \<or>
    (\<exists>q k'. r = Some (q, k', Suc retry, i) \<and> retry < 9 \<and> reads w' \<le> reads w + 1) \<or>
    (\<exists>q k'. r = Some (q, k', Suc retry, i) \<and> retry = 9 \<and> reads w' \<le> reads w + 3) \<or>
    (\<exists>q k'. r = Some (q, k', 0, if wu_count w \<noteq> 0 then i + 1 else i) \<and> (wu_count w \<noteq> 0 \<longrightarrow> i + 1 \<noteq> wu_count w) \<and> reads w' \<le> reads w + 1)"
proof -
  obtain ret q v where v: "wu_read h fd p w = Inr ((ret, q), v)"
    using assms by (cases "wu_read h fd p w") (auto simp: read_step_def wbind_def)
  have rv: "reads v \<le> reads w + 1" by (rule reads_at_mostD [OF reads_wu_read v])
  have cv: "wu_count v = wu_count w" by (rule preservesD [OF record_count.wu_read_view v])
  let ?fail = "wseq (dbg (''Bad record back, retrying'' @ [NL])) (wseq sleep_interval (wreturn (Some (q, k, Suc retry, i))))"
  let ?reset = "wseq (reset_log h fd) (wreturn (Some (q, 0, Suc retry, i)))"
  let ?stop = "wseq (perr ''Blech. Giving up on read'') (wreturn None)"
  let ?rec = "wseq (dbg (''['' @ fmt_d k @ ''] '')) (wseq (print_packet_filter h q) (wbind (wget wu_count) (\<lambda>n.
       let i' = (if n \<noteq> 0 then i + 1 else i)
       in if n \<noteq> 0 \<and> i' = n then wreturn None else wseq sleep_interval (wreturn (Some (q, k + 1, 0, i'))))))"
  have step: "(if ret \<noteq> 0 then if Suc retry < wu_max_retry then ?fail else if Suc retry = wu_max_retry then ?reset else ?stop else ?rec) v =
      Inr (r, w')" using assms v by (simp add: read_step_def wbind_def [of "wu_read h fd p"])
  consider (fail) "ret \<noteq> 0" "Suc retry < wu_max_retry" | (reset) "ret \<noteq> 0" "Suc retry = wu_max_retry"
    | (stop) "ret \<noteq> 0" "Suc retry > wu_max_retry" | (rec) "ret = 0" by linarith
  then show ?thesis
  proof cases
    case fail
    then have f: "?fail v = Inr (r, w')" using step by simp
    have a: "ends ?fail (\<lambda>r. r = Some (q, k, Suc retry, i))" by (intro ends_bind ends_return refl)
    have b: "preserves reads ?fail" by (intro preserves_intros)
    show ?thesis using endsD [OF a f] preservesD [OF b f] rv fail by simp
  next
    case reset
    then have f: "?reset v = Inr (r, w')" using step by simp
    have a: "ends ?reset (\<lambda>r. r = Some (q, 0, Suc retry, i))" by (intro ends_bind ends_return refl)
    have b: "reads_at_most 2 ?reset" by (intro reads_before reads_reset preserves_intros)
    show ?thesis using endsD [OF a f] reads_at_mostD [OF b f] rv reset by simp
  next
    case stop
    then have f: "?stop v = Inr (r, w')" using step by simp
    then show ?thesis using rv by (auto simp: perr_def reads_def)
  next
    case rec
    then have f: "?rec v = Inr (r, w')" using step by simp
    have count: "preserves wu_count (wseq (dbg (''['' @ fmt_d k @ ''] '')) (print_packet_filter h q))" by (intro preserves_intros)
    have b: "preserves reads ?rec" unfolding Let_def by (auto intro!: preserves_intros)
    note rw = preservesD [OF b f]
    obtain u where u: "wseq (dbg (''['' @ fmt_d k @ ''] '')) (print_packet_filter h q) v = Inr ((), u)"
        "(let i' = (if wu_count u \<noteq> 0 then i + 1 else i) in if wu_count u \<noteq> 0 \<and> i' = wu_count u then wreturn None
          else wseq sleep_interval (wreturn (Some (q, k + 1, 0, i')))) u = Inr (r, w')"
      using f by (auto simp: wbind_def [of "print_packet_filter h q"] wbind_def [of "dbg _"] split: sum.splits)
    have c: "wu_count u = wu_count w" using preservesD [OF count u(1)] cv by simp
    show ?thesis using u(2) rw rv
      by (auto simp: c Let_def sleep_interval_def sleep_def record_event_def split: if_splits)
  qed
qed

definition reads_left :: "int \<Rightarrow> nat \<Rightarrow> int \<Rightarrow> nat" where
  "reads_left n retry i = 13 * nat (n - i - 1) + (if retry < 10 then 13 - retry else 1)"

lemma read_loop_terminates:
  "0 \<le> i \<Longrightarrow> i < wu_count w \<Longrightarrow> retry \<le> 10 \<Longrightarrow>
   \<exists>r. read_loop h fd (p, k, retry, i) w = Some r \<and>
     (\<forall>w'. r = Inr ((), w') \<longrightarrow> reads w' \<le> reads w + reads_left (wu_count w) retry i)"
proof (induction "reads_left (wu_count w) retry i" arbitrary: p k retry i w rule: less_induct)
  case less
  show ?case
  proof (cases "read_step h fd (p, k, retry, i) w")
    case (Inl e)
    then show ?thesis by (subst read_loop.simps) simp
  next
    case (Inr rw)
    then obtain r w' where rw: "read_step h fd (p, k, retry, i) w = Inr (r, w')" by (cases rw) auto
    have c: "wu_count w' = wu_count w" by (rule preservesD [OF record_count.reading rw])
    have rec: "\<exists>r. read_loop h fd (p, k, retry, i) w = Some r \<and>
        (\<forall>v. r = Inr ((), v) \<longrightarrow> reads v \<le> reads w + reads_left (wu_count w) retry i)"
      if r: "r = Some (q, k', retry', i')" and i: "0 \<le> i'" "i' < wu_count w" "retry' \<le> 10"
        and m: "reads w' + reads_left (wu_count w) retry' i' \<le> reads w + reads_left (wu_count w) retry i"
          "reads_left (wu_count w) retry' i' < reads_left (wu_count w) retry i" for q k' retry' i'
    proof -
      have "\<exists>r. read_loop h fd (q, k', retry', i') w' = Some r \<and>
        (\<forall>v. r = Inr ((), v) \<longrightarrow> reads v \<le> reads w' + reads_left (wu_count w') retry' i')"
        using i m(2) by (intro less(1)) (simp_all add: c)
      moreover have "read_loop h fd (p, k, retry, i) w = read_loop h fd (q, k', retry', i') w'"
        by (subst read_loop.simps) (simp add: rw r)
      ultimately show ?thesis using m(1) by (fastforce simp: c)
    qed
    from read_step_cases [OF rw] show ?thesis
    proof (elim disjE exE conjE)
      assume "r = None" "reads w' \<le> reads w + 1"
      moreover have "1 \<le> reads_left (wu_count w) retry i" using less.prems by (cases "retry < 10") (simp_all add: reads_left_def)
      ultimately show ?thesis by (subst read_loop.simps) (simp add: rw)
    next
      fix q k' assume "r = Some (q, k', Suc retry, i)" "retry < 9" "reads w' \<le> reads w + 1"
      then show ?thesis using less.prems by (intro rec [of q k' "Suc retry" i]) (simp_all add: reads_left_def)
    next
      fix q k' assume "r = Some (q, k', Suc retry, i)" "retry = 9" "reads w' \<le> reads w + 3"
      then show ?thesis using less.prems by (intro rec [of q k' "Suc retry" i]) (simp_all add: reads_left_def)
    next
      fix q k' assume "r = Some (q, k', 0, if wu_count w \<noteq> 0 then i + 1 else i)"
        "wu_count w \<noteq> 0 \<longrightarrow> i + 1 \<noteq> wu_count w" "reads w' \<le> reads w + 1"
      moreover from this have "nat (wu_count w - i - 1) = Suc (nat (wu_count w - (i + 1) - 1))" using less.prems by auto
      ultimately show ?thesis using less.prems by (intro rec [of q k' 0 "i + 1"]; cases "retry < 10"; simp add: reads_left_def)
    qed
  qed
qed

subsection \<open>Properties\<close>

text \<open>
  C15: Asked for a positive number of records, \<^verbatim>\<open>wu_read_data\<close> returns, whatever the meter answers, with at most
  thirteen reads per record: ten failures in a row, the two reads of a reset, and one more. When it returns
  normally its value is 0, even if it gave up.
\<close>

theorem wu_read_data_terminates:
  assumes "0 < wu_count w"
  shows "\<exists>r. wu_read_data h fd w = Some r \<and>
    (\<forall>x w'. r = Inr (x, w') \<longrightarrow> x = 0 \<and> reads w' \<le> reads w + 13 * nat (wu_count w))"
proof -
  obtain r where r: "read_loop h fd (packet NUL NUL [] data_labels, 0, 0, 0) w = Some r"
      "\<forall>w'. r = Inr ((), w') \<longrightarrow> reads w' \<le> reads w + reads_left (wu_count w) 0 0"
    using read_loop_terminates [of 0 w 0 h fd "packet NUL NUL [] data_labels" 0] assms by auto
  have "reads_left (wu_count w) 0 0 = 13 * nat (wu_count w)" using assms by (simp add: reads_left_def nat_diff_distrib)
  then show ?thesis using r by (cases r) (auto simp: wu_read_data_def)
qed

theorem wu_read_data_terminates_witness:
  "\<exists>r. wu_read_data example_host 4 (wu_init\<lparr> wu_count := 2 \<rparr>) = Some r \<and>
     (\<forall>x w'. r = Inr (x, w') \<longrightarrow> x = 0 \<and> reads w' \<le> 26)"
  using wu_read_data_terminates [of "wu_init\<lparr> wu_count := 2 \<rparr>" example_host 4] by (simp add: reads_def wu_init_def)

end
