(* ===== verification/Wattsup_Main.thy ===== *)
theory Wattsup_Main
  imports Wattsup_Device
begin

text \<open>
  The command line of the power meter driver and its main program: the handlers that store option values,
  the option tables given to \<^verbatim>\<open>getopt_long\<close> and what it makes of the arguments, \<^verbatim>\<open>parse_args\<close> (\<^verbatim>\<open>util.c\<close>) and \<^verbatim>\<open>main\<close>
  (\<^verbatim>\<open>wattsup.c\<close>). The error messages of \<^verbatim>\<open>getopt_long\<close> itself are left out.
\<close>

subsection \<open>Handlers that store options\<close>

definition wu_option_value :: "nat \<Rightarrow> string option wu" where
  "wu_option_value index = wget (\<lambda>w. if index < wu_num_options then opt_value (wu_options w ! index) else None)"

text \<open>\<^verbatim>\<open>strtol\<close> and \<^verbatim>\<open>strtoul\<close> on a null pointer are undefined.\<close>

definition to_int :: "int \<Rightarrow> int" where
  "to_int i = sint (word_of_int i :: 32 word)"

definition wu_store_interval :: "host \<Rightarrow> int \<Rightarrow> int wu" where
  "wu_store_interval h fd =
     wbind (wu_option_value wu_option_interval) (\<lambda>v. case v of None \<Rightarrow> wundefined | Some s \<Rightarrow>
       (case strtol s 0 of (n, rest) \<Rightarrow>
          wseq (wmodify (\<lambda>w. w\<lparr> wu_interval := to_int n \<rparr>))
          (if rest \<noteq> [] then wseq (err (''Invalid interval: '' @ s)) (ret_err EINVAL)
           else wu_write_interval h fd 1 (word_of_int n))))"

definition wu_store_mode :: "host \<Rightarrow> int \<Rightarrow> int wu" where
  "wu_store_mode h fd =
     wbind (wu_option_value wu_option_mode) (\<lambda>v. case v of None \<Rightarrow> wundefined | Some s \<Rightarrow>
       (case strtol s 0 of (n, rest) \<Rightarrow>
          if rest \<noteq> [] then wseq (err (''Invalid mode: '' @ s)) (ret_err EINVAL)
          else wu_write_mode h fd (word_of_int n)))"

text \<open>\<^verbatim>\<open>while (s && !isdigit(*s)) s++\<close>: the pointer never becomes null, so without a digit the search runs
  over the end of the string.\<close>

definition skip_to_digit :: "string \<Rightarrow> string wu" where
  "skip_to_digit s = (if \<exists>c \<in> set s. isdigit c then wreturn (dropWhile (\<lambda>c. \<not> isdigit c) s) else wundefined)"

fun user_params :: "nat \<Rightarrow> string \<Rightarrow> (32 word list option) wu" where
  "user_params 0 s = wreturn (Some [])"
| "user_params (Suc n) s =
     (case strtoul s 0 of (v, t) \<Rightarrow>
        if t = s then wreturn None
        else wbind (skip_to_digit t) (\<lambda>u. wbind (user_params n u) (\<lambda>r. wreturn (map_option (Cons (word_of_int v)) r))))"

definition wu_store_user :: "host \<Rightarrow> int \<Rightarrow> int wu" where
  "wu_store_user h fd =
     wbind (wu_option_value wu_option_user) (\<lambda>v. case v of
       None \<Rightarrow> wseq (err ''No user parameters?'') (ret_err EINVAL)
     | Some s \<Rightarrow> wbind (user_params 4 s) (\<lambda>r. case r of
         Some [a, b, c, d] \<Rightarrow> wu_write_user h fd a b c d
       | _ \<Rightarrow> wseq (err ''Incomplete user parameters'') (ret_err EINVAL)))"

definition wu_store_count :: "int wu" where
  "wu_store_count =
     wbind (wu_option_value wu_option_count) (\<lambda>v. case v of None \<Rightarrow> wreturn 0 | Some s \<Rightarrow>
       (case strtol s 0 of (n, rest) \<Rightarrow>
          wseq (wmodify (\<lambda>w. w\<lparr> wu_count := to_int n \<rparr>))
          (if rest \<noteq> [] then wseq (err ''Bad count field'') (ret_err EINVAL) else wreturn 0)))"

definition wu_store_delim :: "int wu" where
  "wu_store_delim =
     wbind (wu_option_value wu_option_delim) (\<lambda>v.
       wseq (case v of None \<Rightarrow> wreturn () | Some s \<Rightarrow> wmodify (\<lambda>w. w\<lparr> wu_delim := s \<rparr>)) (wreturn 0))"

definition wu_store_debug :: "int wu" where
  "wu_store_debug = wseq (wmodify (\<lambda>w. w\<lparr> wu_debug := True \<rparr>)) (wreturn 0)"
definition wu_store_final :: "int wu" where
  "wu_store_final = wseq (wmodify (\<lambda>w. w\<lparr> wu_final := True \<rparr>)) (wreturn 0)"
definition wu_store_label :: "int wu" where
  "wu_store_label = wseq (wmodify (\<lambda>w. w\<lparr> wu_label := True \<rparr>)) (wreturn 0)"
definition wu_store_newline :: "int wu" where
  "wu_store_newline = wseq (wmodify (\<lambda>w. w\<lparr> wu_newline := True \<rparr>)) (wreturn 0)"
definition wu_store_suppress :: "int wu" where
  "wu_store_suppress = wseq (wmodify (\<lambda>w. w\<lparr> wu_suppress := True \<rparr>)) (wreturn 0)"
definition wu_store_localtime :: "int wu" where
  "wu_store_localtime = wseq (wmodify (\<lambda>w. w\<lparr> wu_localtime := True \<rparr>)) (wreturn 0)"
definition wu_store_gmtime :: "int wu" where
  "wu_store_gmtime = wseq (wmodify (\<lambda>w. w\<lparr> wu_gmtime := True \<rparr>)) (wreturn 0)"
definition wu_store_info_all :: "int wu" where
  "wu_store_info_all = wseq (wmodify (\<lambda>w. w\<lparr> wu_info_all := True \<rparr>)) (wreturn 0)"
definition wu_store_no_data :: "int wu" where
  "wu_store_no_data = wseq (wmodify (\<lambda>w. w\<lparr> wu_no_data := True \<rparr>)) (wreturn 0)"
definition wu_store_set_only :: "int wu" where
  "wu_store_set_only = wseq (wmodify (\<lambda>w. w\<lparr> wu_set_only := True \<rparr>)) (wreturn 0)"

subsection \<open>Help\<close>

definition wu_show_version :: "int wu" where
  "wu_show_version = wseq (msg (prog_name @ '' Version '' @ wu_version @ [NL])) (wreturn 0)"

text \<open>\<^verbatim>\<open>printf("%*c", n, ' ')\<close>: a negative width only changes the side of the padding.\<close>

definition blanks :: "int \<Rightarrow> string" where
  "blanks n = replicate (max 1 (nat \<bar>n\<bar>)) (CHR '' '')"

definition help_line :: "wu_option \<Rightarrow> string" where
  "help_line o1 =
     (let short = ''  -'' @ [shortopt o1];
          arg = (if param o1 = 0 then '' '' else if param o1 = 1 then '' '' @ opt_option o1
                 else if param o1 = 2 then '' ['' @ opt_option o1 @ '']'' else []);
          n0 = int (if param o1 \<le> 2 then length arg else length short);
          bar = blanks (n0 - 12) @ ''| '';
          long = ''--'' @ longopt o1;
          larg = (if param o1 = 0 then '' '' else if param o1 = 1 then ''='' @ opt_option o1
                  else if param o1 = 2 then ''[='' @ opt_option o1 @ '']'' else []);
          n = n0 + int (length (bar @ long @ larg))
      in short @ arg @ bar @ long @ larg @ blanks (40 - n) @ opt_descr o1 @ [NL])"

definition wu_show_help :: "int wu" where
  "wu_show_help =
     wseq wu_show_version
     (wbind (wget (\<lambda>w. w)) (\<lambda>w.
      wseq (msg (''  A program for interfacing with the Watts Up? Power Meter'' @ [NL, NL] @
        ''Usage: '' @ prog_name @ '' [<options> ... ] <device> [ <values> ... ]'' @ [NL, NL] @
        ''<device> is the serial port to which the device is connected.'' @ [NL, NL] @
        ''<options> is any of the following:'' @ [NL] @ concat (map help_line (wu_options w)) @ [NL] @
        ''<value> specifies which of these to print out (default: ALL)'' @ [NL] @
        concat (map (\<lambda>f. pad_left 12 (CHR '' '') (fld_name f) @ '' -- '' @ fld_descr f @ [NL]) (wu_fields w)) @ [NL]))
      (wreturn 0)))"

subsection \<open>Dispatch\<close>

definition wu_check_option :: "nat \<Rightarrow> bool wu" where
  "wu_check_option index = wget (\<lambda>w. index < wu_num_options \<and> flag (wu_options w ! index))"

definition wu_show :: "host \<Rightarrow> nat \<Rightarrow> int \<Rightarrow> int wu" where
  "wu_show h index fd =
     (if index = wu_option_help then wu_show_help
      else if index = wu_option_version then wu_show_version
      else if index = wu_option_cal then wu_show_cal h fd
      else if index = wu_option_header then wu_show_header h fd
      else if index = wu_option_interval then wu_show_interval h fd
      else if index = wu_option_mode then wu_show_mode h fd
      else if index = wu_option_user then wu_show_user h fd
      else wreturn 0)"

definition wu_check_show :: "host \<Rightarrow> nat \<Rightarrow> int \<Rightarrow> int wu" where
  "wu_check_show h index fd =
     wbind (wu_check_option index) (\<lambda>b. if b then wseq (wu_show h index fd) (wreturn 1) else wreturn 0)"

definition wu_store :: "host \<Rightarrow> nat \<Rightarrow> int \<Rightarrow> int wu" where
  "wu_store h index fd =
     (if index = wu_option_debug then wu_store_debug
      else if index = wu_option_count then wu_store_count
      else if index = wu_option_final then wu_store_final
      else if index = wu_option_delim then wu_store_delim
      else if index = wu_option_newline then wu_store_newline
      else if index = wu_option_localtime then wu_store_localtime
      else if index = wu_option_gmtime then wu_store_gmtime
      else if index = wu_option_label then wu_store_label
      else if index = wu_option_suppress then wu_store_suppress
      else if index = wu_option_interval then wu_store_interval h fd
      else if index = wu_option_mode then wu_store_mode h fd
      else if index = wu_option_user then wu_store_user h fd
      else if index = wu_option_info_all then wu_store_info_all
      else if index = wu_option_no_data then wu_store_no_data
      else if index = wu_option_set_only then wu_store_set_only
      else wreturn 0)"

definition wu_check_store :: "host \<Rightarrow> nat \<Rightarrow> int \<Rightarrow> int wu" where
  "wu_check_store h index fd = wbind (wu_check_option index) (\<lambda>b. if b then wu_store h index fd else wreturn 0)"

subsection \<open>Arguments\<close>

definition make_longopt :: "wu_option list \<Rightarrow> (string \<times> nat) list" where
  "make_longopt opts = map (\<lambda>x. (longopt x, param x)) opts"

definition make_shortopt :: "wu_option list \<Rightarrow> string" where
  "make_shortopt opts =
     concat (map (\<lambda>x. shortopt x # (if param x \<noteq> 0 then (if param x = 1 then '':'' else '';'') else [])) opts)"

text \<open>What \<^verbatim>\<open>getopt_long\<close> returns, call after call, up to the first argument it refuses.\<close>

datatype getopt = Long nat "string option" | Short char "string option" | Bad

text \<open>A cluster of short options. Only a colon after the letter in the option string announces an argument,
  and two colons an optional one.\<close>

fun short_cluster :: "string \<Rightarrow> string \<Rightarrow> string list \<Rightarrow> getopt list \<times> string list" where
  "short_cluster shortopts [] rest = ([], rest)"
| "short_cluster shortopts (c # cs) rest =
     (let spec = dropWhile (\<lambda>d. d \<noteq> c) shortopts
      in if c = CHR '':'' \<or> c = CHR '';'' \<or> spec = [] then ([Bad], [])
         else if take 2 (tl spec) = ''::'' then ([Short c (if cs = [] then None else Some cs)], rest)
         else if take 1 (tl spec) = '':'' then
           (if cs \<noteq> [] then ([Short c (Some cs)], rest)
            else case rest of [] \<Rightarrow> ([Bad], []) | a # r \<Rightarrow> ([Short c (Some a)], r))
         else apfst (Cons (Short c None)) (short_cluster shortopts cs rest))"

text \<open>An exact name, or the prefix of exactly one.\<close>

definition find_long :: "(string \<times> nat) list \<Rightarrow> string \<Rightarrow> nat option" where
  "find_long longopts name =
     (case filter (\<lambda>k. fst (longopts ! k) = name) [0..<length longopts] of
        k # _ \<Rightarrow> Some k
      | [] \<Rightarrow> (case filter (\<lambda>k. take (length name) (fst (longopts ! k)) = name) [0..<length longopts] of
                [k] \<Rightarrow> Some k | _ \<Rightarrow> None))"

definition long_option :: "(string \<times> nat) list \<Rightarrow> string \<Rightarrow> string list \<Rightarrow> getopt \<times> string list" where
  "long_option longopts a rest =
     (let name = takeWhile (\<lambda>c. c \<noteq> CHR ''='') a;
          val = (if name = a then None else Some (drop (Suc (length name)) a))
      in case find_long longopts name of
           None \<Rightarrow> (Bad, [])
         | Some k \<Rightarrow>
             if val \<noteq> None then (if snd (longopts ! k) = 0 then (Bad, []) else (Long k val, rest))
             else if snd (longopts ! k) = 1 then (case rest of [] \<Rightarrow> (Bad, []) | v # r \<Rightarrow> (Long k (Some v), r))
             else (Long k None, rest))"

lemma short_cluster_rest: "length (snd (short_cluster so cs rest)) \<le> length rest"
  by (induction so cs rest rule: short_cluster.induct) (auto simp: Let_def split: list.splits)

lemma long_option_rest: "length (snd (long_option lo a rest)) \<le> length rest"
  by (auto simp: long_option_def Let_def split: option.splits list.splits)

text \<open>The options, and the operands in their order.\<close>

function getopt_long :: "string \<Rightarrow> (string \<times> nat) list \<Rightarrow> string list \<Rightarrow> getopt list \<times> string list" where
  "getopt_long so lo [] = ([], [])"
| "getopt_long so lo (a # rest) =
     (if a = ''--'' then ([], rest)
      else if take 2 a = ''--'' then
        (let r = long_option lo (drop 2 a) rest in apfst (Cons (fst r)) (getopt_long so lo (snd r)))
      else if take 1 a = ''-'' \<and> a \<noteq> ''-'' then
        (let r = short_cluster so (drop 1 a) rest in apfst (append (fst r)) (getopt_long so lo (snd r)))
      else apsnd (Cons a) (getopt_long so lo rest))"
  by pat_completeness auto
termination
  by (relation "measure (\<lambda>(_, _, as). length as)")
    (auto simp: less_Suc_eq_le long_option_rest short_cluster_rest)

definition set_option :: "nat \<Rightarrow> string option \<Rightarrow> unit wu" where
  "set_option i arg = wmodify (\<lambda>w. w\<lparr> wu_options := (wu_options w)[i := (wu_options w ! i)
     \<lparr> flag := True, opt_value := (case arg of None \<Rightarrow> opt_value (wu_options w ! i) | Some s \<Rightarrow> Some s) \<rparr>] \<rparr>)"

definition enable_short_option :: "char \<Rightarrow> string option \<Rightarrow> unit wu" where
  "enable_short_option c arg =
     wbind (wget wu_options) (\<lambda>opts.
       case filter (\<lambda>i. shortopt (opts ! i) = c) [0..<length opts] of [] \<Rightarrow> wreturn () | i # _ \<Rightarrow> set_option i arg)"

fun apply_options :: "getopt list \<Rightarrow> bool wu" where
  "apply_options [] = wreturn True"
| "apply_options (Long i arg # r) =
     wseq (set_option i arg)
     (wbind (wget (\<lambda>w. shortopt (wu_options w ! i))) (\<lambda>c.
      wseq (msg (''long option: val = '' @ [c] @ '', optarg = '' @ (case arg of None \<Rightarrow> ''(null)'' | Some s \<Rightarrow> s) @ [NL]))
      (apply_options r)))"
| "apply_options (Bad # r) = wseq (err ''Bad parameter'') (wreturn False)"
| "apply_options (Short c arg # r) = wseq (enable_short_option c arg) (apply_options r)"

definition enable_field :: "string \<Rightarrow> unit wu" where
  "enable_field name =
     wbind (wget wu_fields) (\<lambda>fs.
       case filter (\<lambda>i. strcasecmp_eq (fld_name (fs ! i)) name) [0..<length fs] of
         [] \<Rightarrow> wreturn ()
       | i # _ \<Rightarrow> wmodify (\<lambda>w. w\<lparr> wu_fields := fs[i := (fs ! i)\<lparr> enable := True \<rparr>] \<rparr>))"

definition enable_all_fields :: "unit wu" where
  "enable_all_fields = wmodify (\<lambda>w. w\<lparr> wu_fields := map (\<lambda>f. f\<lparr> enable := True \<rparr>) (wu_fields w) \<rparr>)"

fun enable_fields :: "string list \<Rightarrow> unit wu" where
  "enable_fields [] = wreturn ()"
| "enable_fields (n # ns) = wseq (enable_field n) (enable_fields ns)"

definition parse_args :: "host \<Rightarrow> string list \<Rightarrow> int wu" where
  "parse_args h args =
     wbind (wget wu_options) (\<lambda>opts.
     let (found, operands) = getopt_long (make_shortopt opts) (make_longopt opts) args in
     wbind (apply_options found) (\<lambda>ok.
     if \<not> ok then ret_err EINVAL else
     wbind (wu_check_show h wu_option_help 0) (\<lambda>b.
     if b \<noteq> 0 then wexit 0 else
     wbind (wu_check_show h wu_option_version 0) (\<lambda>b.
     if b \<noteq> 0 then wexit 0 else
     case operands of
       dev # names \<Rightarrow>
         wseq (wmodify (\<lambda>w. w\<lparr> wu_device := dev \<rparr>))
         (wseq (if names \<noteq> [] then enable_fields names else enable_all_fields) (wreturn 0))
     | [] \<Rightarrow> wseq (wu_show h wu_option_help 0) (ret_err EINVAL)))))"

subsection \<open>The main program\<close>

text \<open>Store options in order up to the first that fails, and return its result.\<close>

fun check_stores :: "host \<Rightarrow> nat list \<Rightarrow> int \<Rightarrow> int wu" where
  "check_stores h [] fd = wreturn 0"
| "check_stores h (i # is') fd =
     wbind (wu_check_store h i fd) (\<lambda>ret. if ret \<noteq> 0 then wreturn ret else check_stores h is' fd)"

fun show_each :: "host \<Rightarrow> (host \<Rightarrow> nat \<Rightarrow> int \<Rightarrow> int wu) \<Rightarrow> nat list \<Rightarrow> int \<Rightarrow> unit wu" where
  "show_each h f [] fd = wreturn ()"
| "show_each h f (i # is') fd = wseq (f h i fd) (show_each h f is' fd)"

definition setup_options :: "nat list" where
  "setup_options = [wu_option_delim, wu_option_label, wu_option_newline, wu_option_suppress, wu_option_localtime,
     wu_option_gmtime, wu_option_set_only, wu_option_no_data, wu_option_info_all, wu_option_interval, wu_option_mode,
     wu_option_user]"

definition show_device_info :: "host \<Rightarrow> int \<Rightarrow> unit wu" where
  "show_device_info h fd =
     wbind (wget wu_info_all) (\<lambda>all.
     if all then show_each h wu_show [wu_option_cal, wu_option_header, wu_option_interval, wu_option_mode, wu_option_user] fd
     else wseq (show_each h wu_check_show [wu_option_cal, wu_option_header] fd)
       (wbind (wget wu_set_only) (\<lambda>b.
        wwhen (\<not> b) (show_each h wu_check_show [wu_option_interval, wu_option_mode, wu_option_user] fd))))"

text \<open>From the opened device up to the data records: the result, and whether records are to be read.\<close>

definition main_setup :: "host \<Rightarrow> int \<Rightarrow> (int \<times> bool) wu" where
  "main_setup h fd =
     wbind (setup_serial_device h fd) (\<lambda>ret.
     if ret \<noteq> 0 then wreturn (ret, False) else
     wseq (wu_clear h fd)
     (wseq (wmodify (\<lambda>w. w\<lparr> wu_fd := fd \<rparr>))
     (wbind (check_stores h setup_options fd) (\<lambda>ret.
     if ret \<noteq> 0 then wreturn (ret, False) else
     wseq (show_device_info h fd)
     (wbind (wget wu_no_data) (\<lambda>none.
     if none then wreturn (0, False) else
     wbind (check_stores h [wu_option_count, wu_option_final] fd) (\<lambda>ret.
     if ret \<noteq> 0 then wreturn (ret, False) else
     wbind (wu_start_log h) (\<lambda>ret. wreturn (ret, ret = 0)))))))))"

text \<open>Everything before the data records: the exit status, the descriptor to close, if any, and whether records
  are to be read.\<close>

definition main_start :: "host \<Rightarrow> string list \<Rightarrow> (int \<times> int option \<times> bool) wu" where
  "main_start h args =
     wbind (parse_args h args) (\<lambda>ret.
     if ret \<noteq> 0 then wreturn (0, None, False) else
     wbind (wu_check_store h wu_option_debug 0) (\<lambda>ret.
     if ret \<noteq> 0 then wreturn (ret, Some 0, False) else
     wbind (wget wu_device) (\<lambda>name.
     wbind (open_device h name 0) (\<lambda>(ret, fd).
     if ret \<noteq> 0 then wreturn (ret, None, False) else
     wseq (dbg (name @ '': Open for business''))
     (wbind (main_setup h fd) (\<lambda>(ret, data). wreturn (ret, Some fd, data)))))))"

definition close_opt :: "int option \<Rightarrow> unit wu" where
  "close_opt fd = (case fd of None \<Rightarrow> wreturn () | Some n \<Rightarrow> close_fd n)"

definition main :: "host \<Rightarrow> string list \<Rightarrow> wu_state \<Rightarrow> (wu_stop + int \<times> wu_state) option" where
  "main h args w =
     (case main_start h args w of
        Inl e \<Rightarrow> Some (Inl e)
      | Inr ((ret, fd, data), w1) \<Rightarrow>
          if \<not> data then Some (wseq (close_opt fd) (wreturn ret) w1)
          else (case wu_read_data h (the fd) w1 of
                  None \<Rightarrow> None
                | Some (Inl e) \<Rightarrow> Some (Inl e)
                | Some (Inr (_, w2)) \<Rightarrow> Some (wseq (wu_stop_log h) (wseq (close_opt fd) (wreturn ret)) w2)))"

subsection \<open>Numbers given as options\<close>

lemma digit_char_eq: "n < 10 \<Longrightarrow> (of_char c :: nat) = 48 + n \<Longrightarrow> digit_char n = c"
  using digit_char(1) [of n] by (metis of_char_eq_iff)

lemma digits_1: "digits 1 = ''1''" and digits_2: "digits 2 = ''2''" and digits_5: "digits 5 = ''5''"
  by (simp_all add: digits.simps digit_char_eq)

lemma digits_hd: "0 < n \<Longrightarrow> hd (digits n) \<noteq> CHR ''0''"
proof (induction n rule: digits.induct)
  case (1 n)
  show ?case
  proof (cases "n < 10")
    case True
    then have "(of_char (digit_char n) :: nat) \<noteq> of_char (CHR ''0'')" using 1(2) by (simp add: digit_char)
    then have "digit_char n \<noteq> CHR ''0''" by auto
    then show ?thesis using True by (subst digits.simps) simp
  next
    case False
    then have "hd (digits (n div 10)) \<noteq> CHR ''0''" using 1 by simp
    then show ?thesis using False digits_ne by (subst digits.simps) simp
  qed
qed

lemma scan_integer_digits_0: "0 < n \<Longrightarrow> scan_integer 0 (digits n) = Some (False, n, [])"
proof -
  assume n: "0 < n"
  have t: "takeWhile (\<lambda>c. digit_value c < 10) (digits n) = digits n" using digits_isdigit by (simp add: takeWhile_eq_all_conv)
  have "scan_sign (digits n) = (False, digits n)" using scan_sign_digits [of n "[]"] by simp
  moreover have "\<not> has_hex_prefix (digits n)" using digits_hd [OF n] digits_ne [of n]
    by (auto simp: has_hex_prefix_def hd_conv_nth)
  ultimately show ?thesis using digits_ne [of n] digits_hd [OF n]
    by (simp add: scan_integer_def digits_value_digits t Let_def)
qed

lemma strtol_digits: "0 < n \<Longrightarrow> int n < LONG_LIMIT \<Longrightarrow> strtol (digits n) 0 = (int n, [])"
  by (simp add: strtol_def scan_integer_digits_0)

lemma param_text_eq:
  assumes "n < 2 ^ 31"
  shows "param_text (of_nat n) = digits n @ ''d''"
proof -
  have "length (digits n) \<le> 10" using assms by (intro digits_length) auto
  moreover have "unat (of_nat n :: 32 word) = n" using assms by (simp add: unat_of_nat)
  ultimately show ?thesis by (simp add: param_text_def)
qed

lemma param_text_1: "param_text 1 = ''1d''"
  by (simp add: param_text_def digits_1 [simplified])

lemma interval_message_ok:
  assumes "n < 2 ^ 31"
  shows "message_ok (CHR ''S'') (CHR ''W'') [''1d'', digits n @ ''d'']"
proof -
  have l: "length (digits n) \<le> 10" using assms by (intro digits_length) auto
  have f: "field_ok (digits n @ ''d'')"
    using digits_isdigit [of NUL n] digits_isdigit [of "CHR '',''" n] digits_isdigit [of "CHR '';''" n]
      digits_isdigit [of "hd (digits n)" n] digits_ne [of n] by (auto simp: field_ok_def isdigit_def)
  have "length (digits 2) = 1" by (simp add: digits.simps)
  then show ?thesis using l f by (simp add: message_ok_def render_def join_fields_def field_ok_def isspace_def numeral_2_eq_2)
qed

lemma render_interval: "render (CHR ''S'') (CHR ''W'') [''1d'', digits n @ ''d''] = ''#S,W,2,1d,'' @ digits n @ ''d;''"
  by (simp add: render_def join_fields_def digits_2 [unfolded numeral_2_eq_2])

subsection \<open>Properties\<close>


definition example_interval :: wu_state where
  "example_interval = wu_init\<lparr> wu_options := (wu_options wu_init)[wu_option_interval :=
     (wu_options wu_init ! wu_option_interval)\<lparr> flag := True, opt_value := Some ''5'' \<rparr>] \<rparr>"


end
