(* ===== verification/Spec2Isabelle.thy ===== *)
theory Spec2Isabelle
  imports Planner Cost_Index Cost_Upper Wattsup_Main
begin

text \<open>
  A verification development for GreenPipelineDB: PostgreSQL 10.3 with an energy-aware cost model.
\<close>

section \<open>The planner as a whole\<close>

text \<open>
  C1: All estimates of a planned relation are in order. Whatever sequence of steps plans a relation (sizing, parameterization, scans
  and the nodes above them, joins of relations planned before, and the competition for the path lists), its row estimates
  are clamped; no parameterized estimate exceeds the unparameterized one; every path in its lists has sane costs
  (nothing below zero, the startup cost not above the total, the power at most 80 watts), a clamped number of rows and no
  negative number of workers. Choosing the cheapest paths fails only when there is no path, and otherwise every path chosen is
  in order, too.
\<close>

theorem planned_estimates_in_order:
  assumes "env_ok mem E" "planned E mem rel"
  shows "rows_ok (rel_rows rel) \<and>
    (\<forall>ppi \<in> set (ppilist rel). rows_ok (ppi_rows ppi) \<and> \<not> rel_rows rel < ppi_rows ppi) \<and>
    (\<forall>p \<in> set (pathlist rel) \<union> set (partial_pathlist rel). sane_costs p \<and> rows_ok (rows p) \<and> 0 \<le> parallel_workers p) \<and>
    (case set_cheapest (je_gucs E) rel of Inl e \<Rightarrow> pathlist rel = []
     | Inr rel' \<Rightarrow> \<forall>p \<in> set (cheapest_parameterized_paths rel') \<union> option.set_option (cheapest_startup_path rel') \<union>
         option.set_option (cheapest_total_path rel'). sane_costs p \<and> rows_ok (rows p) \<and> 0 \<le> parallel_workers p)"
proof -
  have r: "joinrel_ok mem rel" using planned_costed_ok(1) [OF assms] .
  have "pathlist rel = []" if "set_cheapest (je_gucs E) rel = Inl e" for e
    using that by (auto simp: set_cheapest_def Let_def split: if_splits)
  then show ?thesis using r set_cheapest_offers [OF r]
    by (auto simp: joinrel_ok_def offers_ok_def path_ok_def input_ok_def split: sum.split)
qed

theorem planned_estimates_in_order_witness:
  "\<exists>rel q. planned example_env (\<lambda>_. example_clause) rel \<and> pathlist rel = [q] \<and> sane_costs q \<and> rows_ok (rows q) \<and> rows_ok (rel_rows rel)"
  using example_planned planned_estimates_in_order [OF example_env_ok] by fastforce

end
